(* ===== verification/Prelude.thy ===== *)
theory Prelude
  imports Main "HOL-Library.Word" "HOL-Library.AList" "HOL-Library.Monad_Syntax"
begin

text \<open>
  Shared vocabulary of the development: Go byte slices and strings, big-endian
  integers, bounds-checked slicing, log lines, and the generic contracts
  (transition systems, bounded channels, one-shot actions) that the components
  interpret on their own definitions.

  Conventions.  A Go \<open>[]byte\<close> of the TURN packages is a list of 8-bit words; a
  Go \<open>string\<close> and a JSON frame is a HOL \<open>string\<close>, whose characters are bytes.
  A Go panic (a failed bounds check, a nil dereference) is \<open>None\<close> of an option
  type, so that the absence of a panic is a statement to be proved.
\<close>

unbundle bit_operations_syntax

named_theorems slice_simps \<open>bounds-checked slices and big-endian reads that are in range\<close>
named_theorems field_simps_go \<open>selectors of the components after each update\<close>

section \<open>Bytes and slices\<close>

type_synonym byte = "8 word"
type_synonym bytes = "byte list"

text \<open>
  \<open>xs[lo:hi]\<close>.  Go checks \<open>hi\<close> against the capacity; the model checks it
  against the length, which is the stricter test: where the model does not
  panic neither does the code, and the bytes are the same.
\<close>

definition slice :: "'a list \<Rightarrow> nat \<Rightarrow> nat \<Rightarrow> 'a list option" where
  "slice xs lo hi =
     (if lo \<le> hi \<and> hi \<le> length xs then Some (take (hi - lo) (drop lo xs)) else None)"

text \<open>\<open>xs[i]\<close> with its bounds check.\<close>

definition index :: "'a list \<Rightarrow> nat \<Rightarrow> 'a option" where
  "index xs i = (if i < length xs then Some (xs ! i) else None)"

text \<open>\<open>copy(dst[off:], src)\<close> for a source that fits into the destination.\<close>

definition overwrite :: "'a list \<Rightarrow> nat \<Rightarrow> 'a list \<Rightarrow> 'a list" where
  "overwrite dst off src = take off dst @ src @ drop (off + length src) dst"

lemma slice_in_range [slice_simps]:
  "lo \<le> hi \<Longrightarrow> hi \<le> length xs \<Longrightarrow> slice xs lo hi = Some (take (hi - lo) (drop lo xs))"
  by (simp add: slice_def)

lemma slice_Some_iff:
  "slice xs lo hi = Some ys \<longleftrightarrow>
     lo \<le> hi \<and> hi \<le> length xs \<and> ys = take (hi - lo) (drop lo xs)"
  by (auto simp: slice_def)

lemma slice_length: "slice xs lo hi = Some ys \<Longrightarrow> length ys = hi - lo"
  by (auto simp: slice_Some_iff)

lemma index_in_range [slice_simps]: "i < length xs \<Longrightarrow> index xs i = Some (xs ! i)"
  by (simp add: index_def)

lemma length_overwrite [simp]:
  "off + length src \<le> length dst \<Longrightarrow> length (overwrite dst off src) = length dst"
  by (simp add: overwrite_def)

lemma overwrite_take:
  "n \<le> off \<Longrightarrow> off \<le> length dst \<Longrightarrow> take n (overwrite dst off src) = take n dst"
  by (simp add: overwrite_def min_def)

lemma overwrite_slice:
  "off + length src \<le> length dst \<Longrightarrow>
   slice (overwrite dst off src) off (off + length src) = Some src"
  by (simp add: overwrite_def slice_def)

lemma overwrite_nth:
  assumes "off + length src \<le> length dst" and "i < length dst"
  shows "overwrite dst off src ! i =
           (if off \<le> i \<and> i < off + length src then src ! (i - off) else dst ! i)"
  using assms by (auto simp: overwrite_def nth_append min_def add.commute)

lemma overwrite_self:
  assumes "off + n \<le> length dst"
  shows "overwrite dst off (take n (drop off dst)) = dst"
proof -
  have "take off dst @ take n (drop off dst) @ drop (off + n) dst = dst"
    by (metis add.commute append_take_drop_id drop_drop)
  then show ?thesis using assms by (simp add: overwrite_def)
qed

lemma overwrite_overwrite:
  assumes "off + length a \<le> length dst" "length a = length b"
  shows "overwrite (overwrite dst off a) off b = overwrite dst off b"
  using assms by (auto simp: overwrite_def)

section \<open>Big-endian integers (encoding/binary)\<close>

text \<open>\<open>binary.BigEndian.Uint16\<close>: panics on a slice of fewer than two bytes.\<close>

fun uint16_be :: "bytes \<Rightarrow> 16 word option" where
  "uint16_be (a # b # _) = Some (push_bit 8 (ucast a) OR ucast b)"
| "uint16_be _ = None"

fun uint32_be :: "bytes \<Rightarrow> 32 word option" where
  "uint32_be (a # b # c # d # _) =
     Some (push_bit 24 (ucast a) OR push_bit 16 (ucast b) OR push_bit 8 (ucast c) OR ucast d)"
| "uint32_be _ = None"

text \<open>The bytes that \<open>PutUint16\<close> and \<open>PutUint32\<close> store.\<close>

definition put16_be :: "16 word \<Rightarrow> bytes" where
  "put16_be w = [ucast (drop_bit 8 w), ucast w]"

definition put32_be :: "32 word \<Rightarrow> bytes" where
  "put32_be w = [ucast (drop_bit 24 w), ucast (drop_bit 16 w), ucast (drop_bit 8 w), ucast w]"

lemma length_put16_be [simp]: "length (put16_be w) = 2"
  by (simp add: put16_be_def)

lemma uint16_be_put16: "uint16_be (put16_be w @ r) = Some w"
proof -
  have "push_bit 8 (ucast (ucast (drop_bit 8 w) :: 8 word)) OR ucast (ucast w :: 8 word) = w"
    by (rule bit_word_eqI)
       (auto simp: bit_or_iff bit_push_bit_iff bit_ucast_iff bit_drop_bit_eq not_le
             dest: bit_imp_le_length)
  then show ?thesis by (simp add: put16_be_def)
qed

lemma uint16_be_total: "2 \<le> length b \<Longrightarrow> \<exists>w. uint16_be b = Some w"
  by (cases b rule: uint16_be.cases) auto

lemma uint32_be_total: "4 \<le> length b \<Longrightarrow> \<exists>w. uint32_be b = Some w"
  by (cases b rule: uint32_be.cases) auto

lemma uint16_be_take: "uint16_be b = Some w \<Longrightarrow> 2 \<le> n \<Longrightarrow> uint16_be (take n b) = Some w"
  by (cases b rule: uint16_be.cases) (auto simp: take_Cons split: nat.splits)

section \<open>Log lines\<close>

datatype level = LDebug | LInfo | LWarn | LError

text \<open>The levels are ordered by severity, as in \<open>log/slog\<close>.\<close>

fun severity :: "level \<Rightarrow> nat" where
  "severity LDebug = 0"
| "severity LInfo = 1"
| "severity LWarn = 2"
| "severity LError = 3"

lemma severity_inj: "severity a = severity b \<longleftrightarrow> a = b"
  by (cases a; cases b) simp_all

instantiation level :: linorder
begin

definition less_eq_level :: "level \<Rightarrow> level \<Rightarrow> bool" where
  "less_eq_level a b \<longleftrightarrow> severity a \<le> severity b"

definition less_level :: "level \<Rightarrow> level \<Rightarrow> bool" where
  "less_level a b \<longleftrightarrow> severity a < severity b"

instance
  by standard (auto simp: less_eq_level_def less_level_def simp flip: severity_inj)

end

datatype attr_value = VStr string | VInt int | VBool bool

record log_line =
  l_level :: level
  l_msg :: string
  l_attrs :: "(string \<times> attr_value) list"

definition log_at :: "level \<Rightarrow> string \<Rightarrow> (string \<times> attr_value) list \<Rightarrow> log_line" where
  "log_at lv msg attrs = \<lparr>l_level = lv, l_msg = msg, l_attrs = attrs\<rparr>"

section \<open>Transition systems\<close>

text \<open>
  Reachability from an initial predicate, and the invariant rule every state
  machine of the development uses.
\<close>

inductive reach_from :: "('s \<Rightarrow> bool) \<Rightarrow> ('s \<Rightarrow> 's \<Rightarrow> bool) \<Rightarrow> 's \<Rightarrow> bool"
  for init :: "'s \<Rightarrow> bool" and step :: "'s \<Rightarrow> 's \<Rightarrow> bool" where
  reach_init: "init s \<Longrightarrow> reach_from init step s"
| reach_step: "reach_from init step s \<Longrightarrow> step s t \<Longrightarrow> reach_from init step t"

locale invariant_system =
  fixes init :: "'s \<Rightarrow> bool"
    and step :: "'s \<Rightarrow> 's \<Rightarrow> bool"
    and inv :: "'s \<Rightarrow> bool"
  assumes inv_init: "init s \<Longrightarrow> inv s"
    and inv_step: "inv s \<Longrightarrow> step s t \<Longrightarrow> inv t"
begin

lemma inv_reachable: "reach_from init step s \<Longrightarrow> inv s"
  by (induction rule: reach_from.induct) (auto intro: inv_init inv_step)

lemma inv_star: "step\<^sup>*\<^sup>* s t \<Longrightarrow> inv s \<Longrightarrow> inv t"
  by (induction rule: rtranclp_induct) (auto intro: inv_step)

end

text \<open>
  A system whose steps are labelled with who makes them.  Its own steps use up a weight,
  which the steps of its environment raise by a bounded amount (\<open>fuel\<close>): then the work a
  run contains is bounded by the weight it starts with and what the environment added,
  and left alone the system comes to rest.
\<close>

inductive lrun :: "('s \<Rightarrow> 'l \<Rightarrow> 's \<Rightarrow> bool) \<Rightarrow> 's \<Rightarrow> 'l list \<Rightarrow> 's \<Rightarrow> bool"
  for step :: "'s \<Rightarrow> 'l \<Rightarrow> 's \<Rightarrow> bool" where
  lrun_nil: "lrun step s [] s"
| lrun_snoc: "lrun step s ls t \<Longrightarrow> step t l u \<Longrightarrow> lrun step s (ls @ [l]) u"

lemma lrun_one: "step s l t \<Longrightarrow> lrun step s [l] t"
  using lrun_snoc [OF lrun_nil, of step s l t] by simp

lemma lrun_append: "lrun step t ls' u \<Longrightarrow> lrun step s ls t \<Longrightarrow> lrun step s (ls @ ls') u"
proof (induction rule: lrun.induct)
  case (lrun_snoc t ls' u l v)
  then show ?case using lrun.lrun_snoc [of step s "ls @ ls'" u l v] by simp
qed simp

lemma lrun_Cons: "step s l t \<Longrightarrow> lrun step t ls u \<Longrightarrow> lrun step s (l # ls) u"
  using lrun_append [of step t ls u s "[l]"] lrun_one [of step s l t] by simp

locale working_system =
  fixes step :: "'s \<Rightarrow> 'l \<Rightarrow> 's \<Rightarrow> bool"
    and inv :: "'s \<Rightarrow> bool"
    and own :: "'l \<Rightarrow> bool"
    and weight :: "'s \<Rightarrow> nat"
    and fuel :: "'l \<Rightarrow> nat"
  assumes keeps: "inv s \<Longrightarrow> step s l t \<Longrightarrow> inv t"
    and own_uses: "inv s \<Longrightarrow> step s l t \<Longrightarrow> own l \<Longrightarrow> weight t < weight s"
    and env_adds: "inv s \<Longrightarrow> step s l t \<Longrightarrow> \<not> own l \<Longrightarrow> weight t \<le> weight s + fuel l"
begin

lemma run_inv: "lrun step s ls t \<Longrightarrow> inv s \<Longrightarrow> inv t"
  by (induction rule: lrun.induct) (auto intro: keeps)

lemma work_bound:
  "lrun step s ls t \<Longrightarrow> inv s \<Longrightarrow>
   length (List.filter own ls) + weight t
     \<le> weight s + sum_list (map fuel (List.filter (\<lambda>l. \<not> own l) ls))"
proof (induction rule: lrun.induct)
  case (lrun_snoc s ls t l u)
  have "inv t" using run_inv lrun_snoc.hyps(1) lrun_snoc.prems by blast
  then show ?case
    using lrun_snoc.IH lrun_snoc.prems own_uses [OF _ lrun_snoc.hyps(2)] env_adds [OF _ lrun_snoc.hyps(2)]
    by (cases "own l") fastforce+
qed simp

lemma comes_to_rest:
  "inv s \<Longrightarrow> \<exists>ls t. lrun step s ls t \<and> list_all own ls \<and> inv t \<and> \<not> (\<exists>l u. own l \<and> step t l u)"
proof (induction "weight s" arbitrary: s rule: less_induct)
  case less
  show ?case
  proof (cases "\<exists>l u. own l \<and> step s l u")
    case True
    then obtain l u where l: "own l" "step s l u" by blast
    obtain ls t where t: "lrun step u ls t" "list_all own ls" "inv t" "\<not> (\<exists>l u. own l \<and> step t l u)"
      using less.hyps [OF own_uses [OF less.prems l(2,1)] keeps [OF less.prems l(2)]] by blast
    show ?thesis
      using lrun_Cons [OF l(2) t(1)] t(2-4) l(1) by (intro exI [of _ "l # ls"] exI [of _ t]) simp
  next
    case False
    then show ?thesis using less.prems lrun_nil [of step s] by (intro exI [of _ "[]"] exI [of _ s]) simp
  qed
qed

end

section \<open>One-shot actions (sync.Once)\<close>

text \<open>
  \<open>once_do\<close> is \<open>sync.Once.Do\<close>: the flag says whether the body ran.  The
  contract of a one-shot operation on a state is that a call runs the body only
  while the flag is clear, and leaves the flag set.
\<close>

definition once_do :: "bool \<Rightarrow> ('s \<Rightarrow> 's) \<Rightarrow> 's \<Rightarrow> bool \<times> 's" where
  "once_do done_flag body s = (if done_flag then (True, s) else (True, body s))"

locale one_shot =
  fixes fired :: "'s \<Rightarrow> bool" and act :: "'a \<Rightarrow> 's \<Rightarrow> 's"
  assumes sets_flag: "fired (act a s)"
    and no_rerun: "fired s \<Longrightarrow> act a s = s"
begin

lemma act_idempotent: "act b (act a s) = act a s"
  by (simp add: no_rerun sets_flag)

lemma first_wins: "fold act (a # as) s = act a s"
  by (induction as) (auto simp: act_idempotent)

end

section \<open>Bounded queues (buffered channels)\<close>

text \<open>
  A non-blocking send into a buffered channel: it appends while there is room and
  leaves the queue alone otherwise.
\<close>

locale bounded_queue =
  fixes contents :: "'q \<Rightarrow> 'a list" and capacity :: "'q \<Rightarrow> nat" and send :: "'a \<Rightarrow> 'q \<Rightarrow> 'q"
  assumes send_room: "length (contents q) < capacity q \<Longrightarrow> contents (send a q) = contents q @ [a]"
    and send_full: "\<not> length (contents q) < capacity q \<Longrightarrow> contents (send a q) = contents q"
    and capacity_send: "capacity (send a q) = capacity q"
begin

lemma send_bound:
  "length (contents q) \<le> capacity q \<Longrightarrow> length (contents (send a q)) \<le> capacity (send a q)"
  by (cases "length (contents q) < capacity q") (auto simp: send_room send_full capacity_send)

lemma burst:
  "length (contents q) \<le> capacity q \<Longrightarrow>
   contents (fold send as q) = contents q @ take (capacity q - length (contents q)) as"
proof (induction as arbitrary: q)
  case (Cons a as)
  show ?case
  proof (cases "length (contents q) < capacity q")
    case True
    then have "capacity q - length (contents q) = Suc (capacity q - Suc (length (contents q)))"
      by simp
    then show ?thesis using Cons.IH [of "send a q"] True
      by (simp add: send_room capacity_send)
  next
    case False
    then show ?thesis using Cons.IH [of "send a q"] Cons.prems
      by (simp add: send_full capacity_send)
  qed
qed simp

end

section \<open>Finite tables (Go maps)\<close>

text \<open>
  The contract of a Go map with its keys: what a lookup returns after a store or a
  delete, and how many entries there are then.
\<close>

locale finite_table =
  fixes get :: "'m \<Rightarrow> 'k \<Rightarrow> 'v option"
    and put :: "'k \<Rightarrow> 'v \<Rightarrow> 'm \<Rightarrow> 'm"
    and del :: "'k \<Rightarrow> 'm \<Rightarrow> 'm"
    and keys :: "'m \<Rightarrow> 'k list"
    and wf_table :: "'m \<Rightarrow> bool"
  assumes get_put: "get (put k v m) = (get m)(k \<mapsto> v)"
    and get_del: "get (del k m) = (get m)(k := None)"
    and set_keys: "set (keys m) = dom (get m)"
    and distinct_keys: "wf_table m \<Longrightarrow> distinct (keys m)"
    and wf_put: "wf_table m \<Longrightarrow> wf_table (put k v m)"
    and wf_del: "wf_table m \<Longrightarrow> wf_table (del k m)"
begin

lemma length_keys: "wf_table m \<Longrightarrow> length (keys m) = card (dom (get m))"
  using distinct_card [OF distinct_keys, of m] by (simp add: set_keys)

lemma finite_dom: "finite (dom (get m))"
  by (metis finite_set set_keys)

lemma size_put_new:
  "wf_table m \<Longrightarrow> get m k = None \<Longrightarrow> length (keys (put k v m)) = Suc (length (keys m))"
  using finite_dom [of m] by (simp add: length_keys wf_put get_put domIff card_insert_if)

lemma size_put_old:
  "wf_table m \<Longrightarrow> get m k \<noteq> None \<Longrightarrow> length (keys (put k v m)) = length (keys m)"
  by (simp add: length_keys wf_put get_put insert_absorb domIff)

lemma size_del:
  "wf_table m \<Longrightarrow> get m k \<noteq> None \<Longrightarrow> Suc (length (keys (del k m))) = length (keys m)"
proof -
  assume wf: "wf_table m" and k: "get m k \<noteq> None"
  have "card (dom (get m)) = Suc (card (dom (get m) - {k}))"
    using finite_dom [of m] k by (metis card.remove domIff)
  moreover have "dom (get (del k m)) = dom (get m) - {k}" by (auto simp: get_del split: if_splits)
  ultimately show ?thesis using wf by (simp add: length_keys wf_del)
qed

lemma all_put:
  "(\<And>j w. get m j = Some w \<Longrightarrow> j \<noteq> k \<Longrightarrow> P j w) \<Longrightarrow> P k v \<Longrightarrow> get (put k v m) j = Some w \<Longrightarrow> P j w"
  by (auto simp: get_put split: if_splits)

lemma all_del:
  "(\<And>j w. get m j = Some w \<Longrightarrow> P j w) \<Longrightarrow> get (del k m) j = Some w \<Longrightarrow> P j w"
  by (auto simp: get_del split: if_splits)

end

text \<open>The model's tables are association lists with distinct keys.\<close>

definition tbl_get :: "('k \<times> 'v) list \<Rightarrow> 'k \<Rightarrow> 'v option" where
  "tbl_get m k = map_of m k"

definition tbl_put :: "'k \<Rightarrow> 'v \<Rightarrow> ('k \<times> 'v) list \<Rightarrow> ('k \<times> 'v) list" where
  "tbl_put k v m = AList.update k v m"

definition tbl_del :: "'k \<Rightarrow> ('k \<times> 'v) list \<Rightarrow> ('k \<times> 'v) list" where
  "tbl_del k m = AList.delete k m"

definition tbl_keys :: "('k \<times> 'v) list \<Rightarrow> 'k list" where
  "tbl_keys m = map fst m"

definition tbl_wf :: "('k \<times> 'v) list \<Rightarrow> bool" where
  "tbl_wf m = distinct (map fst m)"

interpretation tbl: finite_table tbl_get tbl_put tbl_del tbl_keys tbl_wf
proof
  fix m :: "('a \<times> 'b) list" and k v
  show "tbl_get (tbl_put k v m) = (tbl_get m)(k \<mapsto> v)"
    by (simp add: tbl_get_def tbl_put_def update_conv fun_eq_iff)
  show "tbl_get (tbl_del k m) = (tbl_get m)(k := None)"
    by (simp add: tbl_get_def tbl_del_def delete_conv fun_eq_iff)
  show "set (tbl_keys m) = dom (tbl_get m)"
    by (simp add: tbl_keys_def tbl_get_def [abs_def] dom_map_of_conv_image_fst)
  show "tbl_wf m \<Longrightarrow> distinct (tbl_keys m)" by (simp add: tbl_wf_def tbl_keys_def)
  show "tbl_wf m \<Longrightarrow> tbl_wf (tbl_put k v m)"
    by (simp add: tbl_wf_def tbl_put_def distinct_update)
  show "tbl_wf m \<Longrightarrow> tbl_wf (tbl_del k m)"
    by (simp add: tbl_wf_def tbl_del_def distinct_delete)
qed

lemma tbl_empty [simp]: "tbl_get [] k = None" "tbl_wf []" "tbl_keys [] = []"
  by (simp_all add: tbl_get_def tbl_wf_def tbl_keys_def)

lemma length_tbl_keys [simp]: "length (tbl_keys m) = length m"
  by (simp add: tbl_keys_def)

end
