(* ===== verification/Gostrings.thy ===== *)
theory Gostrings
  imports Prelude
begin

text \<open>
  The parts of Go's standard library on strings that the program uses:
  \<open>unicode/utf8\<close> decoding and encoding, \<open>strings.ToLower\<close>, \<open>EqualFold\<close>,
  \<open>TrimSpace\<close> and \<open>SplitN\<close>, \<open>strconv.Atoi\<close> and \<open>Itoa\<close>, and
  \<open>encoding/hex\<close>.  A string is a list of bytes.  The Unicode case tables beyond
  ASCII are data the repository does not hold; \<open>to_lower\<close> takes the table as an
  argument and uses it for runes from 0x80 on only.
\<close>

section \<open>Bytes of a string\<close>

abbreviation code :: "char \<Rightarrow> nat" where
  "code c \<equiv> of_char c"

definition chr_of :: "nat \<Rightarrow> char" where
  "chr_of n = char_of n"

lemma code_bound [simp]: "code c < 256"
  using of_char_mod_256 [of c, where 'a = nat] by (metis mod_less_divisor zero_less_numeral)

lemma code_chr_of [simp]: "n < 256 \<Longrightarrow> code (chr_of n) = n"
  by (simp add: chr_of_def)

lemma chr_of_code [simp]: "chr_of (code c) = c"
  by (simp add: chr_of_def)

lemma chr_of_inject: "m < 256 \<Longrightarrow> n < 256 \<Longrightarrow> chr_of m = chr_of n \<longleftrightarrow> m = n"
  by (metis code_chr_of)

lemma chr_of_eqI: "code c = n \<Longrightarrow> chr_of n = c"
  by auto

section \<open>UTF-8\<close>

text \<open>The replacement character U+FFFD stands for every byte that does not decode.\<close>

definition rune_error :: nat where
  "rune_error = 0xFFFD"

text \<open>The range of the second byte that a first byte allows.\<close>

definition accept_range :: "nat \<Rightarrow> nat \<times> nat" where
  "accept_range b0 =
     (if b0 = 0xE0 then (0xA0, 0xBF)
      else if b0 = 0xED then (0x80, 0x9F)
      else if b0 = 0xF0 then (0x90, 0xBF)
      else if b0 = 0xF4 then (0x80, 0x8F)
      else (0x80, 0xBF))"

text \<open>\<open>utf8.DecodeRune\<close>: the rune and its width in bytes.\<close>

fun decode_rune :: "string \<Rightarrow> nat \<times> nat" where
  "decode_rune [] = (rune_error, 0)"
| "decode_rune (c0 # cs) =
     (let b0 = code c0 in
      if b0 < 0x80 then (b0, 1)
      else if b0 < 0xC2 \<or> 0xF4 < b0 then (rune_error, 1)
      else (case cs of
          [] \<Rightarrow> (rune_error, 1)
        | c1 # cs1 \<Rightarrow>
            let b1 = code c1 in
            if b1 < fst (accept_range b0) \<or> snd (accept_range b0) < b1 then (rune_error, 1)
            else if b0 < 0xE0 then ((b0 - 0xC0) * 64 + (b1 - 0x80), 2)
            else (case cs1 of
                [] \<Rightarrow> (rune_error, 1)
              | c2 # cs2 \<Rightarrow>
                  let b2 = code c2 in
                  if b2 < 0x80 \<or> 0xBF < b2 then (rune_error, 1)
                  else if b0 < 0xF0
                  then ((b0 - 0xE0) * 4096 + (b1 - 0x80) * 64 + (b2 - 0x80), 3)
                  else (case cs2 of
                      [] \<Rightarrow> (rune_error, 1)
                    | c3 # _ \<Rightarrow>
                        let b3 = code c3 in
                        if b3 < 0x80 \<or> 0xBF < b3 then (rune_error, 1)
                        else ((b0 - 0xF0) * 262144 + (b1 - 0x80) * 4096 + (b2 - 0x80) * 64
                                + (b3 - 0x80), 4)))))"

text \<open>\<open>utf8.AppendRune\<close>: surrogates and values past U+10FFFF become U+FFFD.\<close>

definition encode_rune :: "nat \<Rightarrow> string" where
  "encode_rune r0 =
     (let r = (if (0xD800 \<le> r0 \<and> r0 \<le> 0xDFFF) \<or> 0x10FFFF < r0 then rune_error else r0) in
      if r < 0x80 then [chr_of r]
      else if r < 0x800 then [chr_of (0xC0 + r div 64), chr_of (0x80 + r mod 64)]
      else if r < 0x10000
      then [chr_of (0xE0 + r div 4096), chr_of (0x80 + r div 64 mod 64),
            chr_of (0x80 + r mod 64)]
      else [chr_of (0xF0 + r div 262144), chr_of (0x80 + r div 4096 mod 64),
            chr_of (0x80 + r div 64 mod 64), chr_of (0x80 + r mod 64)])"

text \<open>A decoded rune that is not the marker of an invalid byte.\<close>

definition rune_ok :: "string \<Rightarrow> bool" where
  "rune_ok s = (decode_rune s \<noteq> (rune_error, 1) \<and> s \<noteq> [])"

lemma decode_rune_width:
  "s \<noteq> [] \<Longrightarrow> 1 \<le> snd (decode_rune s) \<and> snd (decode_rune s) \<le> length s"
  by (cases s) (auto simp: Let_def split: list.splits)

lemma decode_rune_ascii: "code c < 0x80 \<Longrightarrow> decode_rune (c # s) = (code c, 1)"
  by simp

text \<open>What a successful multi-byte decoding says about the bytes.\<close>

lemma rune_ok_cases:
  assumes "rune_ok s"
  obtains
    (one) c0 s' where "s = c0 # s'" "code c0 < 0x80" "decode_rune s = (code c0, 1)"
  | (two) c0 c1 s' where "s = c0 # c1 # s'" "0xC2 \<le> code c0" "code c0 < 0xE0"
      "0x80 \<le> code c1" "code c1 \<le> 0xBF"
      "decode_rune s = ((code c0 - 0xC0) * 64 + (code c1 - 0x80), 2)"
  | (three) c0 c1 c2 s' where "s = c0 # c1 # c2 # s'" "0xE0 \<le> code c0" "code c0 < 0xF0"
      "fst (accept_range (code c0)) \<le> code c1" "code c1 \<le> snd (accept_range (code c0))"
      "0x80 \<le> code c2" "code c2 \<le> 0xBF"
      "decode_rune s =
        ((code c0 - 0xE0) * 4096 + (code c1 - 0x80) * 64 + (code c2 - 0x80), 3)"
  | (four) c0 c1 c2 c3 s' where "s = c0 # c1 # c2 # c3 # s'" "0xF0 \<le> code c0" "code c0 \<le> 0xF4"
      "fst (accept_range (code c0)) \<le> code c1" "code c1 \<le> snd (accept_range (code c0))"
      "0x80 \<le> code c2" "code c2 \<le> 0xBF" "0x80 \<le> code c3" "code c3 \<le> 0xBF"
      "decode_rune s =
        ((code c0 - 0xF0) * 262144 + (code c1 - 0x80) * 4096 + (code c2 - 0x80) * 64
           + (code c3 - 0x80), 4)"
proof -
  from assms obtain c0 s0 where s: "s = c0 # s0" by (cases s) (auto simp: rune_ok_def)
  note ok = assms [unfolded rune_ok_def s]
  consider "code c0 < 0x80" | "0x80 \<le> code c0" "code c0 < 0xC2 \<or> 0xF4 < code c0"
    | "0xC2 \<le> code c0" "code c0 < 0xE0" | "0xE0 \<le> code c0" "code c0 < 0xF0"
    | "0xF0 \<le> code c0" "code c0 \<le> 0xF4"
    by linarith
  then show thesis
  proof cases
    case 1 then show thesis using one s by simp
  next
    case 2 then show thesis using ok by simp
  next
    case 3
    then have "accept_range (code c0) = (0x80, 0xBF)" by (simp add: accept_range_def)
    with 3 ok show thesis
      using two [of c0 "hd s0" "tl s0"] s
      by (auto simp: Let_def not_less split: list.splits if_splits)
  next
    case 4
    with ok show thesis
      using three [of c0 "hd s0" "hd (tl s0)" "tl (tl s0)"] s
      by (auto simp: Let_def not_less split: list.splits if_splits)
  next
    case 5
    with ok show thesis
      using four [of c0 "hd s0" "hd (tl s0)" "hd (tl (tl s0))" "tl (tl (tl s0))"] s
      by (auto simp: Let_def not_less split: list.splits if_splits)
  qed
qed

text \<open>Decoding looks at the bytes of the rune only.\<close>

lemma decode_rune_prefix:
  assumes "rune_ok s"
  shows "decode_rune (take (snd (decode_rune s)) s @ t) = decode_rune s"
  using assms
proof (cases rule: rune_ok_cases)
  case (two c0 c1 s')
  then have "accept_range (code c0) = (0x80, 0xBF)" by (simp add: accept_range_def)
  with two show ?thesis by (simp add: Let_def)
next
  case (three c0 c1 c2 s')
  then have "take (snd (decode_rune s)) s @ t = c0 # c1 # c2 # t" by simp
  moreover have "decode_rune (c0 # c1 # c2 # t) = decode_rune s"
    unfolding three(8) using three(2-7) by (simp add: Let_def)
  ultimately show ?thesis by simp
next
  case (four c0 c1 c2 c3 s')
  then have "take (snd (decode_rune s)) s @ t = c0 # c1 # c2 # c3 # t" by simp
  moreover have "decode_rune (c0 # c1 # c2 # c3 # t) = decode_rune s"
    unfolding four(10) using four(2-9) by (simp add: Let_def)
  ultimately show ?thesis by simp
qed simp

lemma base64_digits:
  fixes x y z :: nat
  assumes "y < 64" "z < 64"
  shows "(x * 4096 + y * 64 + z) div 64 mod 64 = y" "(x * 4096 + y * 64 + z) mod 64 = z"
    "(x * 4096 + y * 64 + z) div 64 = x * 64 + y"
proof -
  have e: "x * 4096 + y * 64 + z = (x * 64 + y) * 64 + z" by simp
  show m: "(x * 4096 + y * 64 + z) mod 64 = z"
    unfolding e using assms by (metis mod_less mod_mult_self3)
  show d: "(x * 4096 + y * 64 + z) div 64 = x * 64 + y"
    unfolding e using assms by (simp add: div_mult_self3)
  show "(x * 4096 + y * 64 + z) div 64 mod 64 = y"
    unfolding d using assms by (metis mod_less mod_mult_self3)
qed

text \<open>What the encoder writes for a rune given by its base-64 digits.\<close>

lemma encode_two:
  assumes "2 \<le> x" "x < 32" "y < 64"
  shows "encode_rune (x * 64 + y) = [chr_of (0xC0 + x), chr_of (0x80 + y)]"
proof -
  have "(x * 64 + y) div 64 = x" "(x * 64 + y) mod 64 = y" using assms by auto
  moreover have "\<not> x * 64 + y < 0x80" "x * 64 + y < 0x800" using assms by linarith+
  ultimately show ?thesis by (simp add: encode_rune_def Let_def)
qed

lemma encode_three:
  assumes c: "x < 16" "y < 64" "z < 64" and lo: "x = 0 \<Longrightarrow> 32 \<le> y" and sur: "x = 13 \<Longrightarrow> y < 32"
  shows "encode_rune (x * 4096 + y * 64 + z) = [chr_of (0xE0 + x), chr_of (0x80 + y), chr_of (0x80 + z)]"
proof -
  let ?r = "x * 4096 + y * 64 + z"
  have d: "?r div 4096 = x" "?r div 64 mod 64 = y" "?r mod 64 = z"
    using base64_digits [of y z x] c by auto
  have "\<not> ?r < 0x800" using lo c by (cases "x = 0") auto
  moreover have "?r < 0xD800 \<or> 0xDFFF < ?r"
  proof (cases "x = 13")
    case True then show ?thesis using sur c by auto
  next
    case False
    then have "x \<le> 12 \<or> 14 \<le> x" by linarith
    then show ?thesis using c by auto
  qed
  moreover have "?r < 0x10000" using c by linarith
  ultimately show ?thesis using d by (elim disjE) (simp_all add: encode_rune_def Let_def)
qed

lemma encode_four:
  assumes c: "x \<le> 4" "y < 64" "z < 64" "w < 64" and lo: "x = 0 \<Longrightarrow> 16 \<le> y" and hi: "x = 4 \<Longrightarrow> y < 16"
  shows "encode_rune (x * 262144 + y * 4096 + z * 64 + w) =
    [chr_of (0xF0 + x), chr_of (0x80 + y), chr_of (0x80 + z), chr_of (0x80 + w)]"
proof -
  let ?r = "x * 262144 + y * 4096 + z * 64 + w"
  have e: "?r div 64 = x * 4096 + y * 64 + z" "?r mod 64 = w"
    using base64_digits [of z w "x * 64 + y"] c by (auto simp: algebra_simps)
  have f: "?r div 4096 = x * 64 + y"
    using base64_digits(3) [of y z x] c e(1) div_mult2_eq [of ?r 64 64] by simp
  have d: "?r div 262144 = x" "?r div 4096 mod 64 = y" "?r div 64 mod 64 = z" "?r mod 64 = w"
    using base64_digits(2) [of y z x] c e by (auto simp: f)
  have "\<not> ?r < 0x10000" using lo c by (cases "x = 0") auto
  moreover have "\<not> 0x10FFFF < ?r" using hi c by (cases "x = 4") auto
  ultimately show ?thesis using d by (simp add: encode_rune_def Let_def)
qed

text \<open>Re-encoding a decoded rune gives its bytes back.\<close>

lemma encode_decode_rune:
  assumes "rune_ok s"
  shows "encode_rune (fst (decode_rune s)) = take (snd (decode_rune s)) s"
  using assms
proof (cases rule: rune_ok_cases)
  case (one c0 s')
  then show ?thesis by (simp add: encode_rune_def)
next
  case (two c0 c1 s')
  then show ?thesis using encode_two [of "code c0 - 0xC0" "code c1 - 0x80"] by simp
next
  case (three c0 c1 c2 s')
  have "0x80 \<le> code c1" "code c1 \<le> 0xBF" using three by (auto simp: accept_range_def split: if_splits)
  moreover have "code c0 = 0xE0 \<Longrightarrow> 32 \<le> code c1 - 0x80" "code c0 = 0xED \<Longrightarrow> code c1 - 0x80 < 32"
    using three by (auto simp: accept_range_def)
  then have "code c0 - 0xE0 = 0 \<Longrightarrow> 32 \<le> code c1 - 0x80" "code c0 - 0xE0 = 13 \<Longrightarrow> code c1 - 0x80 < 32"
    using three(2) by linarith+
  ultimately show ?thesis
    using three encode_three [of "code c0 - 0xE0" "code c1 - 0x80" "code c2 - 0x80"] by simp
next
  case (four c0 c1 c2 c3 s')
  have "0x80 \<le> code c1" "code c1 \<le> 0xBF" using four by (auto simp: accept_range_def split: if_splits)
  moreover have "code c0 = 0xF0 \<Longrightarrow> 16 \<le> code c1 - 0x80" "code c0 = 0xF4 \<Longrightarrow> code c1 - 0x80 < 16"
    using four by (auto simp: accept_range_def)
  then have "code c0 - 0xF0 = 0 \<Longrightarrow> 16 \<le> code c1 - 0x80" "code c0 - 0xF0 = 4 \<Longrightarrow> code c1 - 0x80 < 16"
    using four(2) by linarith+
  ultimately show ?thesis
    using four encode_four [of "code c0 - 0xF0" "code c1 - 0x80" "code c2 - 0x80" "code c3 - 0x80"] by simp
qed

text \<open>
  \<open>runes\<close> is what \<open>for _, r := range s\<close> visits; \<open>valid_utf8\<close> is
  \<open>utf8.ValidString\<close>; \<open>to_valid\<close> replaces every invalid byte by U+FFFD, as the
  JSON encoder and decoder do.
\<close>

function runes :: "string \<Rightarrow> nat list" where
  "runes [] = []"
| "runes (c # s) =
     fst (decode_rune (c # s)) # runes (drop (snd (decode_rune (c # s))) (c # s))"
  by pat_completeness auto
termination
proof (relation "measure length")
  fix c :: char and s :: string
  show "(drop (snd (decode_rune (c # s))) (c # s), c # s) \<in> measure length"
    using decode_rune_width [of "c # s"] by simp
qed simp

function valid_utf8 :: "string \<Rightarrow> bool" where
  "valid_utf8 [] = True"
| "valid_utf8 (c # s) =
     (decode_rune (c # s) \<noteq> (rune_error, 1) \<and>
      valid_utf8 (drop (snd (decode_rune (c # s))) (c # s)))"
  by pat_completeness auto
termination
proof (relation "measure length")
  fix c :: char and s :: string
  show "(drop (snd (decode_rune (c # s))) (c # s), c # s) \<in> measure length"
    using decode_rune_width [of "c # s"] by simp
qed simp

definition encode_runes :: "nat list \<Rightarrow> string" where
  "encode_runes rs = concat (map encode_rune rs)"

definition to_valid :: "string \<Rightarrow> string" where
  "to_valid s = encode_runes (runes s)"

declare decode_rune.simps(2) [simp del]

lemma to_valid_Nil [simp]: "to_valid [] = []"
  by (simp add: to_valid_def encode_runes_def)

lemma to_valid_Cons:
  "to_valid (c # s) = encode_rune (fst (decode_rune (c # s)))
     @ to_valid (drop (snd (decode_rune (c # s))) (c # s))"
  by (simp add: to_valid_def encode_runes_def)

lemma to_valid_id: "valid_utf8 s \<Longrightarrow> to_valid s = s"
proof (induction s rule: valid_utf8.induct)
  case (2 c s)
  then have "rune_ok (c # s)" by (simp add: rune_ok_def)
  then have "to_valid (c # s) = take (snd (decode_rune (c # s))) (c # s)
      @ drop (snd (decode_rune (c # s))) (c # s)"
    using 2 by (simp add: to_valid_Cons encode_decode_rune)
  then show ?case by simp
qed simp

definition ascii :: "string \<Rightarrow> bool" where
  "ascii s = list_all (\<lambda>c. code c < 0x80) s"

lemma ascii_Cons [simp]: "ascii (c # s) = (code c < 0x80 \<and> ascii s)"
  by (simp add: ascii_def)

lemma ascii_Nil [simp]: "ascii []"
  by (simp add: ascii_def)

lemma ascii_append [simp]: "ascii (s @ t) = (ascii s \<and> ascii t)"
  by (simp add: ascii_def)

lemma decode_rune_ascii_Cons [simp]: "code c < 0x80 \<Longrightarrow> decode_rune (c # s) = (code c, 1)"
  by (simp add: decode_rune.simps)

lemma ascii_valid: "ascii s \<Longrightarrow> valid_utf8 s"
  by (induction s) (auto simp: rune_error_def)

section \<open>Case conversion\<close>

definition ascii_lower :: "char \<Rightarrow> char" where
  "ascii_lower c = (if 65 \<le> code c \<and> code c \<le> 90 then chr_of (code c + 32) else c)"

definition ascii_upper :: "char \<Rightarrow> char" where
  "ascii_upper c = (if 97 \<le> code c \<and> code c \<le> 122 then chr_of (code c - 32) else c)"

text \<open>
  \<open>strings.ToLower\<close>: the byte loop on an ASCII string, otherwise
  \<open>strings.Map(unicode.ToLower, s)\<close>, which maps rune by rune and writes U+FFFD
  for an invalid byte.  \<open>utable\<close> is the Unicode table from 0x80 on.
\<close>

definition to_lower :: "(nat \<Rightarrow> nat) \<Rightarrow> string \<Rightarrow> string" where
  "to_lower utable s =
     (if ascii s then map ascii_lower s
      else encode_runes (map (\<lambda>r. if r < 0x80 then code (ascii_lower (chr_of r)) else utable r)
             (runes s)))"

lemma to_lower_ascii: "ascii s \<Longrightarrow> to_lower u s = map ascii_lower s"
  by (simp add: to_lower_def)

lemma ascii_lower_lower [simp]: "ascii_lower (ascii_lower c) = ascii_lower c"
  by (auto simp: ascii_lower_def)

lemma ascii_lower_upper [simp]: "ascii_lower (ascii_upper c) = ascii_lower c"
  by (auto simp: ascii_lower_def ascii_upper_def intro: chr_of_eqI)

lemma ascii_lower_ascii [simp]: "code c < 0x80 \<Longrightarrow> code (ascii_lower c) < 0x80"
  by (auto simp: ascii_lower_def)

lemma ascii_upper_ascii [simp]: "code c < 0x80 \<Longrightarrow> code (ascii_upper c) < 0x80"
  by (auto simp: ascii_upper_def)

lemma to_lower_upper:
  assumes "ascii s"
  shows "to_lower u (map ascii_upper s) = to_lower u s"
proof -
  have "ascii (map ascii_upper s)" using assms by (induction s) auto
  then show ?thesis using assms by (simp add: to_lower_def comp_def)
qed

lemma to_lower_idem:
  assumes "ascii s"
  shows "to_lower u (to_lower u s) = to_lower u s"
proof -
  have "ascii (map ascii_lower s)" using assms by (induction s) auto
  then show ?thesis using assms by (simp add: to_lower_def comp_def)
qed

lemma encode_rune_nonempty [simp]: "encode_rune r \<noteq> []"
  by (simp add: encode_rune_def Let_def)

lemma to_lower_nonempty [simp]: "(to_lower u s = []) = (s = [])"
  by (cases s) (auto simp: to_lower_def encode_runes_def)

text \<open>
  Simple case folding against an ASCII word, as \<open>strings.EqualFold\<close> and the field
  lookup of \<open>encoding/json\<close> do it.  Only two runes outside ASCII fold to an ASCII
  letter: U+017F to \<open>s\<close> and U+212A to \<open>k\<close>.
\<close>

definition fold_rune :: "nat \<Rightarrow> nat" where
  "fold_rune r =
     (if r = 0x17F then code (CHR ''s'') else if r = 0x212A then code (CHR ''k'')
      else if r < 0x80 then code (ascii_lower (chr_of r)) else r)"

definition equal_fold :: "string \<Rightarrow> string \<Rightarrow> bool" where
  "equal_fold s word = (map fold_rune (runes s) = map fold_rune (runes word))"

lemma runes_ascii: "ascii s \<Longrightarrow> runes s = map (\<lambda>c. code c) s"
  by (induction s) auto

lemma equal_fold_ascii:
  assumes "ascii s" "ascii t"
  shows "equal_fold s t \<longleftrightarrow> map ascii_lower s = map ascii_lower t"
proof -
  have f: "map fold_rune (runes w) = map (\<lambda>c. code (ascii_lower c)) w" if "ascii w" for w
    using that by (induction w) (auto simp: fold_rune_def)
  have "map (\<lambda>c. code (ascii_lower c)) s = map (\<lambda>c. code (ascii_lower c)) t
      \<longleftrightarrow> map ascii_lower s = map ascii_lower t"
    by (metis (mono_tags, lifting) chr_of_code list.map_comp list.map_cong comp_def)
  then show ?thesis using assms f by (simp add: equal_fold_def)
qed

lemma equal_fold_refl [simp]: "equal_fold s s"
  by (simp add: equal_fold_def)

text \<open>A computed character compared with a literal.\<close>

lemma chr_of_eq_iff: "n < 256 \<Longrightarrow> chr_of n = c \<longleftrightarrow> n = code c"
  by auto

end
