(* ===== verification/Goconv.thy ===== *)
theory Goconv
  imports Gostrings
begin

text \<open>
  \<open>strings.TrimSpace\<close>, \<open>strings.SplitN\<close>, \<open>strconv.Atoi\<close>,
  \<open>strconv.Itoa\<close> and \<open>hex.EncodeToString\<close>, with the round trip of the two
  number conversions.
\<close>

section \<open>TrimSpace and SplitN\<close>

definition is_space :: "nat \<Rightarrow> bool" where
  "is_space r \<longleftrightarrow>
     (9 \<le> r \<and> r \<le> 13) \<or> r = 32 \<or> r = 0x85 \<or> r = 0xA0 \<or> r = 0x1680
     \<or> (0x2000 \<le> r \<and> r \<le> 0x200A) \<or> r = 0x2028 \<or> r = 0x2029 \<or> r = 0x202F
     \<or> r = 0x205F \<or> r = 0x3000"

text \<open>A string cut at its rune boundaries; an invalid byte is a piece of its own.\<close>

function chunks :: "string \<Rightarrow> string list" where
  "chunks [] = []"
| "chunks (c # s) =
     take (snd (decode_rune (c # s))) (c # s)
       # chunks (drop (snd (decode_rune (c # s))) (c # s))"
  by pat_completeness auto
termination
proof (relation "measure length")
  fix c :: char and s :: string
  show "(drop (snd (decode_rune (c # s))) (c # s), c # s) \<in> measure length"
    using decode_rune_width [of "c # s"] by simp
qed simp

definition space_chunk :: "string \<Rightarrow> bool" where
  "space_chunk c = is_space (fst (decode_rune c))"

definition trim_space :: "string \<Rightarrow> string" where
  "trim_space s =
     concat (rev (dropWhile space_chunk (rev (dropWhile space_chunk (chunks s)))))"

lemma concat_chunks: "concat (chunks s) = s"
  by (induction s rule: chunks.induct) auto

lemma chunks_ascii: "ascii s \<Longrightarrow> chunks s = map (\<lambda>c. [c]) s"
  by (induction s) auto

text \<open>A string of ASCII bytes without a space at either end is not changed.\<close>

lemma trim_space_id:
  assumes "ascii s" "s \<noteq> []" "\<not> is_space (code (hd s))" "\<not> is_space (code (last s))"
  shows "trim_space s = s"
proof -
  let ?cs = "map (\<lambda>c. [c]) s"
  have sc: "space_chunk [c] = is_space (code c)" if "code c < 0x80" for c
    using that by (simp add: space_chunk_def)
  have mem: "code c < 0x80" if "c \<in> set s" for c
    using assms(1) that by (auto simp: ascii_def list_all_iff)
  have "dropWhile space_chunk ?cs = ?cs"
    using assms sc [OF mem] by (cases s) auto
  moreover have "dropWhile space_chunk (rev ?cs) = rev ?cs"
    using assms sc [OF mem] by (cases s rule: rev_cases) auto
  moreover have "concat ?cs = s" by (induction s) auto
  ultimately show ?thesis using assms by (simp add: trim_space_def chunks_ascii)
qed

text \<open>\<open>strings.SplitN(s, sep, 2)\<close> for a separator of one byte.\<close>

definition split_n2 :: "char \<Rightarrow> string \<Rightarrow> string list" where
  "split_n2 sep s =
     (case dropWhile (\<lambda>c. c \<noteq> sep) s of
        [] \<Rightarrow> [s]
      | _ # rest \<Rightarrow> [takeWhile (\<lambda>c. c \<noteq> sep) s, rest])"

lemma split_n2_append: "sep \<notin> set a \<Longrightarrow> split_n2 sep (a @ sep # b) = [a, b]"
proof -
  assume "sep \<notin> set a"
  then have "\<forall>c\<in>set a. c \<noteq> sep" by auto
  then show ?thesis by (simp add: split_n2_def dropWhile_append2 takeWhile_append2)
qed

section \<open>Decimal numbers\<close>

datatype atoi_error = ErrSyntax | ErrRange

definition is_digit :: "char \<Rightarrow> bool" where
  "is_digit c \<longleftrightarrow> 48 \<le> code c \<and> code c \<le> 57"

text \<open>The loop of \<open>strconv.ParseUint\<close> in base 10 at 64 bits.\<close>

fun parse_uint :: "nat \<Rightarrow> string \<Rightarrow> atoi_error + nat" where
  "parse_uint n [] = Inr n"
| "parse_uint n (c # s) =
     (if \<not> is_digit c then Inl ErrSyntax
      else if 2 ^ 64 div 10 < n then Inl ErrRange
      else if 2 ^ 64 \<le> n * 10 + (code c - 48) then Inl ErrRange
      else parse_uint (n * 10 + (code c - 48)) s)"

text \<open>\<open>strconv.Atoi\<close> on a 64-bit platform.\<close>

definition atoi :: "string \<Rightarrow> atoi_error + int" where
  "atoi s =
     (let neg = (s \<noteq> [] \<and> hd s = CHR ''-'');
          ds = (if s \<noteq> [] \<and> (hd s = CHR ''-'' \<or> hd s = CHR ''+'') then tl s else s)
      in if ds = [] then Inl ErrSyntax
         else case parse_uint 0 ds of
             Inl e \<Rightarrow> Inl e
           | Inr n \<Rightarrow>
               if \<not> neg \<and> 2 ^ 63 \<le> n then Inl ErrRange
               else if neg \<and> 2 ^ 63 < n then Inl ErrRange
               else Inr (if neg then - int n else int n))"

definition digit :: "nat \<Rightarrow> char" where
  "digit d = chr_of (48 + d)"

fun itoa_nat :: "nat \<Rightarrow> string" where
  "itoa_nat n = (if n < 10 then [digit n] else itoa_nat (n div 10) @ [digit (n mod 10)])"

declare itoa_nat.simps [simp del]

definition itoa :: "int \<Rightarrow> string" where
  "itoa i = (if i < 0 then CHR ''-'' # itoa_nat (nat (- i)) else itoa_nat (nat i))"

lemma code_digit [simp]: "d < 10 \<Longrightarrow> code (digit d) = 48 + d"
  by (simp add: digit_def)

lemma is_digit_digit [simp]: "d < 10 \<Longrightarrow> is_digit (digit d)"
  by (simp add: is_digit_def)

lemma itoa_nat_digits: "c \<in> set (itoa_nat n) \<Longrightarrow> is_digit c"
proof (induction n rule: itoa_nat.induct)
  case (1 n)
  then show ?case
    by (cases "n < 10") (auto simp: itoa_nat.simps [of n])
qed

lemma itoa_nat_nonempty [simp]: "itoa_nat n \<noteq> []"
  by (subst itoa_nat.simps) simp

lemma parse_uint_append:
  "parse_uint n (s @ t) = (case parse_uint n s of Inl e \<Rightarrow> Inl e | Inr m \<Rightarrow> parse_uint m t)"
  by (induction s arbitrary: n) auto

lemma parse_uint_itoa: "n < 2 ^ 64 \<Longrightarrow> parse_uint 0 (itoa_nat n) = Inr n"
proof (induction n rule: itoa_nat.induct)
  case (1 n)
  show ?case
  proof (cases "n < 10")
    case True
    then show ?thesis by (simp add: itoa_nat.simps [of n])
  next
    case False
    then have "parse_uint 0 (itoa_nat (n div 10)) = Inr (n div 10)"
      using 1 by simp
    moreover have "n div 10 \<le> 2 ^ 64 div 10" using 1(2) by simp
    moreover have "n div 10 * 10 + n mod 10 = n" by simp
    ultimately show ?thesis
      using False 1(2) by (subst itoa_nat.simps) (simp add: parse_uint_append)
  qed
qed

lemma digit_not_sign: "is_digit c \<Longrightarrow> c \<noteq> CHR ''-'' \<and> c \<noteq> CHR ''+''"
  by (auto simp: is_digit_def)

lemma digit_not_space: "is_digit c \<Longrightarrow> \<not> is_space (code c) \<and> code c < 0x80"
  by (auto simp: is_digit_def is_space_def)

lemma itoa_nat_hd: "is_digit (hd (itoa_nat n))" and itoa_nat_last: "is_digit (last (itoa_nat n))"
  using itoa_nat_digits [of _ n] by simp_all

lemma atoi_itoa_nat: "n < 2 ^ 63 \<Longrightarrow> atoi (itoa_nat n) = Inr (int n)"
  using parse_uint_itoa [of n] digit_not_sign [OF itoa_nat_hd, of n]
  by (simp add: atoi_def)

lemma ascii_itoa_nat: "ascii (itoa_nat n)"
  using itoa_nat_digits digit_not_space by (auto simp: ascii_def list_all_iff)

lemma trim_space_itoa: "trim_space (itoa_nat n) = itoa_nat n"
  using digit_not_space [OF itoa_nat_hd, of n] digit_not_space [OF itoa_nat_last, of n]
  by (intro trim_space_id) (simp_all add: ascii_itoa_nat)

lemma itoa_nat_no_dash: "CHR ''-'' \<notin> set (itoa_nat n)"
  using itoa_nat_digits digit_not_sign by blast

lemma atoi_range: "atoi s = Inr i \<Longrightarrow> - (2 ^ 63) \<le> i \<and> i < 2 ^ 63"
  by (auto simp: atoi_def Let_def split: sum.splits if_splits)

section \<open>Hexadecimal\<close>

definition hex_digit :: "nat \<Rightarrow> char" where
  "hex_digit d = (if d < 10 then chr_of (48 + d) else chr_of (87 + d))"

definition hex_encode :: "bytes \<Rightarrow> string" where
  "hex_encode bs = concat (map (\<lambda>b. [hex_digit (unat b div 16), hex_digit (unat b mod 16)]) bs)"

lemma length_hex_encode [simp]: "length (hex_encode bs) = 2 * length bs"
  by (induction bs) (auto simp: hex_encode_def)

lemma hex_digit_inj: "a < 16 \<Longrightarrow> b < 16 \<Longrightarrow> hex_digit a = hex_digit b \<Longrightarrow> a = b"
  by (auto simp: hex_digit_def chr_of_inject split: if_splits)

lemma unat_byte_div: "unat (b :: byte) div 16 < 16"
  using unsigned_less [of b, where 'a = nat] by simp

lemma hex_encode_inj: "length a = length b \<Longrightarrow> hex_encode a = hex_encode b \<Longrightarrow> a = b"
proof (induction a b rule: list_induct2)
  case (Cons x xs y ys)
  then have "unat x div 16 = unat y div 16" "unat x mod 16 = unat y mod 16"
    using hex_digit_inj unat_byte_div by (auto simp: hex_encode_def)
  then have "unat x = unat y" by (metis div_mult_mod_eq)
  then have "x = y" by (simp add: word_unat_eq_iff)
  then show ?case using Cons by (auto simp: hex_encode_def)
qed simp

lemma ascii_hex_encode: "ascii (hex_encode bs)"
proof (induction bs)
  case (Cons b bs)
  have "code (hex_digit d) < 0x80" if "d < 16" for d
    using that by (auto simp: hex_digit_def)
  then show ?case using Cons unat_byte_div [of b] by (simp add: hex_encode_def)
qed (simp add: hex_encode_def)

end
