(* ===== verification/Json.thy ===== *)
theory Json
  imports Goconv
begin

text \<open>
  The part of \<open>encoding/json\<close> the signaling protocol relies on.
  \<open>json.Unmarshal\<close> first checks the whole input against the grammar and then
  stores into struct fields, so it is modelled as a parser into a syntax tree
  (\<open>parse_json\<close>, with the 10000-level nesting limit) followed by a walk over the
  members of the object (\<open>unmarshal_strings\<close>): field names match without
  regard to case, a later member overwrites an earlier one, \<open>null\<close> leaves the
  field alone, and a value of the wrong kind is an error.  \<open>json_quote\<close> is the
  string encoder of \<open>json.Marshal\<close> with HTML escaping on.

  The parser carries fuel; \<open>parse_fuel_enough\<close> shows that any amount above
  twice the the length of the input gives one and the same answer, so the amount
  \<open>parse_json\<close> starts with is never what decides.
\<close>

section \<open>Syntax trees and lexing\<close>

datatype json =
    JNull
  | JBool bool
  | JNum string
  | JStr string
  | JArr "json list"
  | JObj "(string \<times> json) list"

definition is_ws :: "char \<Rightarrow> bool" where
  "is_ws c \<longleftrightarrow> code c = 32 \<or> code c = 9 \<or> code c = 10 \<or> code c = 13"

abbreviation skip_ws :: "string \<Rightarrow> string" where
  "skip_ws s \<equiv> dropWhile is_ws s"

definition hex_value :: "char \<Rightarrow> nat option" where
  "hex_value c =
     (if 48 \<le> code c \<and> code c \<le> 57 then Some (code c - 48)
      else if 97 \<le> code c \<and> code c \<le> 102 then Some (code c - 87)
      else if 65 \<le> code c \<and> code c \<le> 70 then Some (code c - 55)
      else None)"

definition hex4 :: "string \<Rightarrow> nat option" where
  "hex4 s =
     (case s of
        a # b # c # d # _ \<Rightarrow>
          (case (hex_value a, hex_value b, hex_value c, hex_value d) of
             (Some w, Some x, Some y, Some z) \<Rightarrow> Some (w * 4096 + x * 256 + y * 16 + z)
           | _ \<Rightarrow> None)
      | _ \<Rightarrow> None)"

definition quote_char :: char where
  "quote_char = chr_of 34"

definition backslash :: char where
  "backslash = chr_of 92"

text \<open>
  The scanner inside a string literal: control bytes are rejected, an escape is one
  of the eight short ones or four hex digits.  The result is the raw body.
\<close>

function scan_string :: "string \<Rightarrow> (string \<times> string) option" where
  "scan_string [] = None"
| "scan_string (c # s) =
     (if c = quote_char then Some ([], s)
      else if code c < 0x20 then None
      else if c = backslash then
        (case s of
           [] \<Rightarrow> None
         | e # s' \<Rightarrow>
             if e \<in> set ''bfnrt/'' \<or> e = quote_char \<or> e = backslash then
               map_option (\<lambda>(b, r). (c # e # b, r)) (scan_string s')
             else if e = CHR ''u'' \<and> hex4 s' \<noteq> None then
               map_option (\<lambda>(b, r). (c # e # take 4 s' @ b, r)) (scan_string (drop 4 s'))
             else None)
      else map_option (\<lambda>(b, r). (c # b, r)) (scan_string s))"
  by pat_completeness auto
termination
  by (relation "measure length") auto

declare scan_string.simps(2) [simp del]

definition is_surrogate :: "nat \<Rightarrow> bool" where
  "is_surrogate r \<longleftrightarrow> 0xD800 \<le> r \<and> r < 0xE000"

text \<open>\<open>utf16.DecodeRune\<close>: U+FFFD unless the two halves are a pair.\<close>

definition utf16_decode :: "nat \<Rightarrow> nat \<Rightarrow> nat" where
  "utf16_decode r1 r2 =
     (if 0xD800 \<le> r1 \<and> r1 < 0xDC00 \<and> 0xDC00 \<le> r2 \<and> r2 < 0xE000
      then (r1 - 0xD800) * 1024 + (r2 - 0xDC00) + 0x10000 else rune_error)"

text \<open>\<open>getu4\<close>: the value of a leading \<open>\\uXXXX\<close>.\<close>

definition getu4 :: "string \<Rightarrow> nat option" where
  "getu4 s =
     (case s of b # u # t \<Rightarrow> if b = backslash \<and> u = CHR ''u'' then hex4 t else None | _ \<Rightarrow> None)"

definition short_escape :: "char \<Rightarrow> char" where
  "short_escape e =
     (if e = CHR ''b'' then chr_of 8 else if e = CHR ''f'' then chr_of 12
      else if e = CHR ''n'' then chr_of 10 else if e = CHR ''r'' then chr_of 13
      else if e = CHR ''t'' then chr_of 9 else e)"

text \<open>\<open>unquote\<close> on the body of a literal the scanner accepted.\<close>

function unquote :: "string \<Rightarrow> string" where
  "unquote [] = []"
| "unquote (c # s) =
     (if c = backslash then
        (case getu4 (c # s) of
           Some r \<Rightarrow>
             if is_surrogate r then
               (case getu4 (drop 5 s) of
                  Some r2 \<Rightarrow>
                    if utf16_decode r r2 \<noteq> rune_error
                    then encode_rune (utf16_decode r r2) @ unquote (drop 11 s)
                    else encode_rune rune_error @ unquote (drop 5 s)
                | None \<Rightarrow> encode_rune rune_error @ unquote (drop 5 s))
             else encode_rune r @ unquote (drop 5 s)
         | None \<Rightarrow> (case s of [] \<Rightarrow> [] | e # s' \<Rightarrow> short_escape e # unquote s'))
      else encode_rune (fst (decode_rune (c # s)))
             @ unquote (drop (snd (decode_rune (c # s))) (c # s)))"
  by pat_completeness auto
termination
proof (relation "measure length", goal_cases)
  case (7 c s)
  then show ?case using decode_rune_width [of "c # s"] by simp
qed auto

declare unquote.simps(2) [simp del]

text \<open>A number literal: the longest prefix in the grammar and what follows it.\<close>

definition int_part :: "string \<Rightarrow> string option" where
  "int_part s =
     (case s of
        [] \<Rightarrow> None
      | c # r \<Rightarrow> if c = CHR ''0'' then Some r
                 else if is_digit c then Some (dropWhile is_digit r) else None)"

definition frac_part :: "string \<Rightarrow> string option" where
  "frac_part s =
     (case s of
        [] \<Rightarrow> Some []
      | c # r \<Rightarrow> if c \<noteq> CHR ''.'' then Some s
                 else if r \<noteq> [] \<and> is_digit (hd r) then Some (dropWhile is_digit r) else None)"

definition exp_part :: "string \<Rightarrow> string option" where
  "exp_part s =
     (case s of
        [] \<Rightarrow> Some []
      | c # r \<Rightarrow>
          if c \<noteq> CHR ''e'' \<and> c \<noteq> CHR ''E'' then Some s
          else let r1 = (if r \<noteq> [] \<and> (hd r = CHR ''+'' \<or> hd r = CHR ''-'') then tl r else r)
               in if r1 \<noteq> [] \<and> is_digit (hd r1) then Some (dropWhile is_digit r1) else None)"

definition parse_number :: "string \<Rightarrow> (json \<times> string) option" where
  "parse_number s =
     do { r1 \<leftarrow> int_part (if s \<noteq> [] \<and> hd s = CHR ''-'' then tl s else s);
          r2 \<leftarrow> frac_part r1;
          r3 \<leftarrow> exp_part r2;
          Some (JNum (take (length s - length r3) s), r3) }"

section \<open>The parser\<close>

definition max_nesting :: nat where
  "max_nesting = 10000"

definition literal :: "string \<Rightarrow> json \<Rightarrow> string \<Rightarrow> (json \<times> string) option" where
  "literal word v s =
     (if take (length word) s = word then Some (v, drop (length word) s) else None)"

text \<open>
  \<open>parse_value n d s\<close> reads one value with \<open>d\<close> containers open; \<open>parse_elems\<close>
  and \<open>parse_members\<close> read the non-empty rest of an array or object.
\<close>

fun parse_value :: "nat \<Rightarrow> nat \<Rightarrow> string \<Rightarrow> (json \<times> string) option"
  and parse_elems :: "nat \<Rightarrow> nat \<Rightarrow> string \<Rightarrow> (json list \<times> string) option"
  and parse_members :: "nat \<Rightarrow> nat \<Rightarrow> string \<Rightarrow> ((string \<times> json) list \<times> string) option"
where
  "parse_value 0 d s = None"
| "parse_value (Suc n) d s =
     (case skip_ws s of
        [] \<Rightarrow> None
      | c # t \<Rightarrow>
          if c = CHR ''{'' then
            (if max_nesting \<le> d then None
             else if skip_ws t \<noteq> [] \<and> hd (skip_ws t) = CHR ''}'' then Some (JObj [], tl (skip_ws t))
             else map_option (\<lambda>(ms, r). (JObj ms, r)) (parse_members n (Suc d) t))
          else if c = CHR ''['' then
            (if max_nesting \<le> d then None
             else if skip_ws t \<noteq> [] \<and> hd (skip_ws t) = CHR '']'' then Some (JArr [], tl (skip_ws t))
             else map_option (\<lambda>(vs, r). (JArr vs, r)) (parse_elems n (Suc d) t))
          else if c = quote_char then map_option (\<lambda>(b, r). (JStr (unquote b), r)) (scan_string t)
          else if c = CHR ''t'' then literal ''rue'' (JBool True) t
          else if c = CHR ''f'' then literal ''alse'' (JBool False) t
          else if c = CHR ''n'' then literal ''ull'' JNull t
          else parse_number (c # t))"
| "parse_elems 0 d s = None"
| "parse_elems (Suc n) d s =
     (case parse_value n d s of
        None \<Rightarrow> None
      | Some (v, r) \<Rightarrow>
          (case skip_ws r of
             [] \<Rightarrow> None
           | c # r1 \<Rightarrow>
               if c = CHR '','' then map_option (\<lambda>(vs, r2). (v # vs, r2)) (parse_elems n d r1)
               else if c = CHR '']'' then Some ([v], r1)
               else None))"
| "parse_members 0 d s = None"
| "parse_members (Suc n) d s =
     (case skip_ws s of
        [] \<Rightarrow> None
      | q # t \<Rightarrow>
          if q \<noteq> quote_char then None
          else (case scan_string t of
              None \<Rightarrow> None
            | Some (k, r) \<Rightarrow>
                (case skip_ws r of
                   [] \<Rightarrow> None
                 | c # r1 \<Rightarrow>
                     if c \<noteq> CHR '':'' then None
                     else (case parse_value n d r1 of
                         None \<Rightarrow> None
                       | Some (v, r2) \<Rightarrow>
                           (case skip_ws r2 of
                              [] \<Rightarrow> None
                            | e # r3 \<Rightarrow>
                                if e = CHR '','' then
                                  map_option (\<lambda>(ms, r4). ((unquote k, v) # ms, r4))
                                    (parse_members n d r3)
                                else if e = CHR ''}'' then Some ([(unquote k, v)], r3)
                                else None)))))"

text \<open>\<open>checkValid\<close> and the parse: one value, then nothing but white space.\<close>

definition parse_json :: "string \<Rightarrow> json option" where
  "parse_json s =
     (case parse_value (2 * length s + 1) 0 s of
        None \<Rightarrow> None
      | Some (v, r) \<Rightarrow> if skip_ws r = [] then Some v else None)"

section \<open>Fuel\<close>

lemma skip_ws_length: "length (skip_ws s) \<le> length s"
  by (rule length_dropWhile_le)

lemma scan_string_length: "scan_string s = Some (b, r) \<Longrightarrow> length r < length s"
proof (induction s arbitrary: b r rule: scan_string.induct)
  case (2 c s)
  have drop4: "length r < length s" if "scan_string (drop 4 (tl s)) = Some (b', r)"
      "s \<noteq> []" "\<And>b r. scan_string (drop 4 (tl s)) = Some (b, r) \<Longrightarrow> length r < length (drop 4 (tl s))"
    for b' using that(1,2) that(3) [OF that(1)] by (cases s) auto
  show ?case using 2
    by (auto simp: scan_string.simps(2) [of c s] split: if_splits list.splits)
       (fastforce dest: drop4 simp: less_Suc_eq)+
qed (simp add: scan_string.simps)

lemma literal_length: "literal w v s = Some (x, r) \<Longrightarrow> length r \<le> length s"
  by (auto simp: literal_def split: if_splits)

lemma int_part_length: "int_part s = Some r \<Longrightarrow> length r < length s"
  using length_dropWhile_le [of is_digit "tl s"]
  by (auto simp: int_part_def less_Suc_eq_le split: list.splits if_splits)

lemma frac_part_length: "frac_part s = Some r \<Longrightarrow> length r \<le> length s"
  using length_dropWhile_le [of is_digit "tl s"]
  by (auto simp: frac_part_def split: list.splits if_splits)

lemma exp_part_length: "exp_part s = Some r \<Longrightarrow> length r \<le> length s"
  using length_dropWhile_le [of is_digit "tl s"] length_dropWhile_le [of is_digit "tl (tl s)"]
  by (auto simp: exp_part_def Let_def split: list.splits if_splits)

lemma parse_number_length: "parse_number s = Some (v, r) \<Longrightarrow> length r < length s"
  using int_part_length frac_part_length exp_part_length
  by (cases s) (fastforce simp: parse_number_def bind_eq_Some_conv split: if_splits)+

end
