(* ===== verification/Jsoncodec.thy ===== *)
theory Jsoncodec
  imports Json
begin

text \<open>
  On top of the parser: its fuel is always enough, \<open>json.Unmarshal\<close> into a struct
  of string fields, the string encoder of \<open>json.Marshal\<close>, and the round trip
  between the two.
\<close>

declare dropWhile_eq_Nil_conv [simp del]

section \<open>The fuel of the parser is enough\<close>

lemma value_shorter:
  assumes E: "\<And>d s vs r. parse_elems n d s = Some (vs, r) \<Longrightarrow> length r < length s"
    and M: "\<And>d s ms r. parse_members n d s = Some (ms, r) \<Longrightarrow> length r < length s"
    and v: "parse_value (Suc n) d s = Some (v, r)"
  shows "length r < length s"
proof (cases "skip_ws s")
  case Nil
  then show ?thesis using v by simp
next
  case (Cons c t)
  then have t: "length (c # t) \<le> length s" using skip_ws_length [of s] by simp
  moreover have "skip_ws t \<noteq> [] \<Longrightarrow> length (tl (skip_ws t)) < length s"
    using skip_ws_length [of t] t by simp
  ultimately show ?thesis
    using v Cons
    by (auto split: if_splits dest!: scan_string_length literal_length parse_number_length E M)
qed

lemma elems_shorter:
  assumes V: "\<And>d s v r. parse_value n d s = Some (v, r) \<Longrightarrow> length r < length s"
    and E: "\<And>d s vs r. parse_elems n d s = Some (vs, r) \<Longrightarrow> length r < length s"
    and vs: "parse_elems (Suc n) d s = Some (vs, r)"
  shows "length r < length s"
proof -
  obtain v0 r0 where a: "parse_value n d s = Some (v0, r0)" using vs by (auto split: option.splits)
  have "length (skip_ws r0) < length s" using V [OF a] skip_ws_length [of r0] by simp
  then show ?thesis using vs a by (auto split: list.splits if_splits dest!: E)
qed

text \<open>What a member of an object is made of.\<close>

lemma parse_members_SomeD:
  assumes "parse_members (Suc n) d s = Some (ms, r)"
  obtains t k r1 r2 v r3 e r4 where "skip_ws s = quote_char # t" "scan_string t = Some (k, r1)"
    "skip_ws r1 = CHR '':'' # r2" "parse_value n d r2 = Some (v, r3)" "skip_ws r3 = e # r4"
    "e = CHR '','' \<and> (\<exists>ms'. parse_members n d r4 = Some (ms', r)) \<or> r = r4"
  using assms by (auto split: list.splits if_splits option.splits prod.splits)

lemma members_shorter:
  assumes V: "\<And>d s v r. parse_value n d s = Some (v, r) \<Longrightarrow> length r < length s"
    and M: "\<And>d s ms r. parse_members n d s = Some (ms, r) \<Longrightarrow> length r < length s"
    and ms: "parse_members (Suc n) d s = Some (ms, r)"
  shows "length r < length s"
  using ms
proof (rule parse_members_SomeD)
  fix t k r1 r2 v r3 e r4
  assume a: "skip_ws s = quote_char # t" "scan_string t = Some (k, r1)" "skip_ws r1 = CHR '':'' # r2"
    "parse_value n d r2 = Some (v, r3)" "skip_ws r3 = e # r4"
    "e = CHR '','' \<and> (\<exists>ms'. parse_members n d r4 = Some (ms', r)) \<or> r = r4"
  have "length t < length s" "length r2 < length r1" "length r4 < length r3"
    using a(1,3,5) skip_ws_length [of s] skip_ws_length [of r1] skip_ws_length [of r3] by simp_all
  then have "length r4 < length s" using scan_string_length [OF a(2)] V [OF a(4)] by linarith
  then show ?thesis using a(6) M by fastforce
qed

lemma parse_length:
  "parse_value n d s = Some (v, r) \<Longrightarrow> length r < length s"
  "parse_elems n d s = Some (vs, r) \<Longrightarrow> length r < length s"
  "parse_members n d s = Some (ms, r) \<Longrightarrow> length r < length s"
proof (induction n arbitrary: d s v vs ms r)
  case (Suc n)
  {
    case 1
    then show ?case using value_shorter [of n d s v r] Suc.IH by blast
  next
    case 2
    then show ?case using elems_shorter [of n d s vs r] Suc.IH by blast
  next
    case 3
    then show ?case using members_shorter [of n d s ms r] Suc.IH by blast
  }
qed simp_all

lemmas parse_unfold =
  parse_value.simps(2) parse_elems.simps(2) parse_members.simps(2)

declare parse_unfold [simp del]

text \<open>The same steps, for two amounts of fuel.\<close>

lemma elems_fuel:
  assumes v: "parse_value (Suc n) d s = parse_value n d s"
    and es: "\<And>r. 2 * length r + 1 < n \<Longrightarrow> parse_elems (Suc n) d r = parse_elems n d r"
    and n: "2 * length s + 1 < Suc n"
  shows "parse_elems (Suc (Suc n)) d s = parse_elems (Suc n) d s"
proof (cases "parse_value n d s")
  case None
  then show ?thesis by (simp add: parse_unfold(2) v)
next
  case (Some a)
  then obtain v0 r0 where a: "parse_value n d s = Some (v0, r0)" by (cases a) auto
  then have "length (skip_ws r0) < length s"
    using parse_length(1) [OF a] skip_ws_length [of r0] by simp
  then show ?thesis using n a v es
    by (auto simp: parse_unfold(2) [of "Suc n"] parse_unfold(2) [of n] split: list.splits)
qed

lemma members_fuel:
  assumes v: "\<And>r. 2 * length r < n \<Longrightarrow> parse_value (Suc n) d r = parse_value n d r"
    and ms: "\<And>r. 2 * length r < n \<Longrightarrow> parse_members (Suc n) d r = parse_members n d r"
    and n: "2 * length s < Suc n"
  shows "parse_members (Suc (Suc n)) d s = parse_members (Suc n) d s"
proof (cases "skip_ws s")
  case Nil
  then show ?thesis by (simp add: parse_unfold Nil)
next
  case (Cons q t)
  then have t: "length t < length s" using skip_ws_length [of s] by simp
  have "parse_value (Suc n) d r2 = parse_value n d r2"
    if "scan_string t = Some (k, r1)" "skip_ws r1 = CHR '':'' # r2" for k r1 r2
    using that t n scan_string_length [OF that(1)] skip_ws_length [of r1] by (intro v) simp
  moreover have "parse_members (Suc n) d r4 = parse_members n d r4"
    if "scan_string t = Some (k, r1)" "skip_ws r1 = CHR '':'' # r2" "parse_value n d r2 = Some (u, r3)"
      "skip_ws r3 = CHR '','' # r4" for k r1 r2 u r3 r4
    using that t n scan_string_length [OF that(1)] skip_ws_length [of r1]
      parse_length(1) [OF that(3)] skip_ws_length [of r3] by (intro ms) simp
  ultimately show ?thesis using Cons
    by (auto simp: parse_unfold(3) [of "Suc n"] parse_unfold(3) [of n] split: option.splits list.splits)
qed

lemma parse_fuel_Suc:
  "2 * length s < n \<Longrightarrow> parse_value (Suc n) d s = parse_value n d s"
  "2 * length s + 1 < n \<Longrightarrow> parse_elems (Suc n) d s = parse_elems n d s"
  "2 * length s < n \<Longrightarrow> parse_members (Suc n) d s = parse_members n d s"
proof (induction n arbitrary: d s)
  case (Suc n)
  {
    case 1
    show ?case
    proof (cases "skip_ws s")
      case (Cons c t)
      then have "length t < length s" using skip_ws_length [of s] by simp
      then show ?thesis using Suc.IH 1 Cons by (simp add: parse_unfold(1) [of "Suc n"] parse_unfold(1) [of n])
    qed (simp add: parse_unfold)
  next
    case 2
    then show ?case using Suc.IH(1,2) by (intro elems_fuel) auto
  next
    case 3
    then show ?case using Suc.IH(1,3) by (intro members_fuel) auto
  }
qed simp_all

lemma parse_fuel_add: "2 * length s < n \<Longrightarrow> parse_value (n + k) d s = parse_value n d s"
  by (induction k) (simp_all add: parse_fuel_Suc(1))

lemma parse_fuel_enough:
  assumes "2 * length s < n"
  shows "parse_value n d s = parse_value (2 * length s + 1) d s"
  using parse_fuel_add [of s "2 * length s + 1" "n - (2 * length s + 1)" d] assms by simp

section \<open>json.Unmarshal into string fields\<close>

text \<open>The struct field a member name selects: the exact name, else a case-folded match.\<close>

definition field_of :: "string list \<Rightarrow> string \<Rightarrow> string option" where
  "field_of names key =
     (if key \<in> set names then Some key else find (\<lambda>f. equal_fold key f) names)"

definition store_member ::
  "string list \<Rightarrow> string \<times> json \<Rightarrow> (string \<Rightarrow> string) \<times> bool \<Rightarrow> (string \<Rightarrow> string) \<times> bool" where
  "store_member names m st =
     (case field_of names (fst m) of
        None \<Rightarrow> st
      | Some f \<Rightarrow>
          (case snd m of
             JStr v \<Rightarrow> ((fst st)(f := v), snd st)
           | JNull \<Rightarrow> st
           | _ \<Rightarrow> (fst st, True)))"

text \<open>
  \<open>None\<close> is a non-nil error.  A \<open>null\<close> document is accepted and stores nothing;
  any other document that is not an object is a type error.
\<close>

definition unmarshal_strings :: "string list \<Rightarrow> string \<Rightarrow> (string \<Rightarrow> string) option" where
  "unmarshal_strings names raw =
     (case parse_json raw of
        None \<Rightarrow> None
      | Some JNull \<Rightarrow> Some (\<lambda>_. [])
      | Some (JObj ms) \<Rightarrow>
          (let (vals, failed) = fold (store_member names) ms (\<lambda>_. [], False)
           in if failed then None else Some vals)
      | Some _ \<Rightarrow> None)"

section \<open>json.Marshal of strings\<close>

definition html_safe :: "char \<Rightarrow> bool" where
  "html_safe c \<longleftrightarrow>
     0x20 \<le> code c \<and> code c < 0x80 \<and> c \<noteq> quote_char \<and> c \<noteq> backslash
     \<and> c \<noteq> CHR ''<'' \<and> c \<noteq> CHR ''>'' \<and> c \<noteq> CHR ''&''"

definition escape_ascii :: "char \<Rightarrow> string" where
  "escape_ascii c =
     (if c = backslash \<or> c = quote_char then [backslash, c]
      else if code c = 8 then [backslash, CHR ''b'']
      else if code c = 12 then [backslash, CHR ''f'']
      else if code c = 10 then [backslash, CHR ''n'']
      else if code c = 13 then [backslash, CHR ''r'']
      else if code c = 9 then [backslash, CHR ''t'']
      else [backslash, CHR ''u'', CHR ''0'', CHR ''0'',
            hex_digit (code c div 16), hex_digit (code c mod 16)])"

text \<open>The text that stands for the first rune of a string.\<close>

definition escape_rune :: "string \<Rightarrow> string" where
  "escape_rune s =
     (let (r, n) = decode_rune s in
      if code (hd s) < 0x80 then (if html_safe (hd s) then [hd s] else escape_ascii (hd s))
      else if r = rune_error \<and> n = 1 then backslash # ''ufffd''
      else if r = 0x2028 \<or> r = 0x2029 then backslash # ''u202'' @ [hex_digit (r mod 16)]
      else take n s)"

function json_escape :: "string \<Rightarrow> string" where
  "json_escape [] = []"
| "json_escape (c # s) =
     escape_rune (c # s) @ json_escape (drop (snd (decode_rune (c # s))) (c # s))"
  by pat_completeness auto
termination
proof (relation "measure length")
  fix c :: char and s :: string
  show "(drop (snd (decode_rune (c # s))) (c # s), c # s) \<in> measure length"
    using decode_rune_width [of "c # s"] by simp
qed simp

declare json_escape.simps(2) [simp del]

definition json_quote :: "string \<Rightarrow> string" where
  "json_quote s = quote_char # json_escape s @ [quote_char]"

definition json_bool :: "bool \<Rightarrow> string" where
  "json_bool b = (if b then ''true'' else ''false'')"

text \<open>A struct: its fields in declaration order.\<close>

fun json_fields :: "(string \<times> string) list \<Rightarrow> string" where
  "json_fields [] = []"
| "json_fields [(k, v)] = json_quote k @ CHR '':'' # v"
| "json_fields ((k, v) # fs) = json_quote k @ CHR '':'' # v @ CHR '','' # json_fields fs"

definition json_object :: "(string \<times> string) list \<Rightarrow> string" where
  "json_object fs = CHR ''{'' # json_fields fs @ ''}''"

section \<open>Quoting and scanning are inverse\<close>

lemma scan_plain:
  "\<forall>c\<in>set bs. 0x20 \<le> code c \<and> c \<noteq> quote_char \<and> c \<noteq> backslash \<Longrightarrow>
   scan_string (bs @ t) = map_option (\<lambda>(b, r). (bs @ b, r)) (scan_string t)"
  by (cases "scan_string t"; induction bs) (auto simp: scan_string.simps(2))

lemma high_bytes:
  assumes "rune_ok s" "0x80 \<le> code (hd s)" "c \<in> set (take (snd (decode_rune s)) s)"
  shows "0x80 \<le> code c"
  using assms by (cases rule: rune_ok_cases) (auto simp: accept_range_def split: if_splits)

lemma code_quote [simp]: "code quote_char = 34" and code_backslash [simp]: "code backslash = 92"
  by (simp_all add: quote_char_def backslash_def)

lemma hex_value_digit [simp]: "d < 16 \<Longrightarrow> hex_value (hex_digit d) = Some d"
  by (auto simp: hex_value_def hex_digit_def)

lemma hex_value_consts [simp]:
  "hex_value CHR ''0'' = Some 0" "hex_value CHR ''2'' = Some 2" "hex_value CHR ''f'' = Some 15"
  "hex_value CHR ''d'' = Some 13"
  by (simp_all add: hex_value_def)

lemma hex4_byte [simp]:
  "n < 256 \<Longrightarrow> hex4 (CHR ''0'' # CHR ''0'' # hex_digit (n div 16) # hex_digit (n mod 16) # t) = Some n"
  by (simp add: hex4_def)

lemma char_neqI: "code c \<noteq> code d \<Longrightarrow> c \<noteq> d"
  by auto

lemma escape_chars [simp]:
  "quote_char \<noteq> backslash" "backslash \<noteq> quote_char"
  "CHR ''u'' \<noteq> quote_char" "CHR ''u'' \<noteq> backslash"
  "quote_char \<noteq> CHR ''u''" "backslash \<noteq> CHR ''u''"
  by (rule char_neqI, simp)+

lemma scan_u:
  assumes "hex4 (h @ t) \<noteq> None" "length h = 4"
  shows "scan_string (backslash # CHR ''u'' # h @ t) =
    map_option (\<lambda>(b, r). (backslash # CHR ''u'' # h @ b, r)) (scan_string t)"
  using assms by (simp add: scan_string.simps(2) [of backslash])

lemma scan_short:
  assumes "e \<in> set ''bfnrt/'' \<or> e = quote_char \<or> e = backslash"
  shows "scan_string (backslash # e # t) =
    map_option (\<lambda>(b, r). (backslash # e # b, r)) (scan_string t)"
  using assms by (simp add: scan_string.simps(2) [of backslash])

lemma scan_escape_ascii:
  "code c < 0x80 \<Longrightarrow> \<not> html_safe c \<Longrightarrow>
   scan_string (escape_ascii c @ t) = map_option (\<lambda>(b, r). (escape_ascii c @ b, r)) (scan_string t)"
  using scan_u [of "[CHR ''0'', CHR ''0'', hex_digit (code c div 16), hex_digit (code c mod 16)]" t]
  by (auto simp: escape_ascii_def scan_short)

lemma scan_escape_rune:
  assumes "s \<noteq> []"
  shows "scan_string (escape_rune s @ t) = map_option (\<lambda>(b, r). (escape_rune s @ b, r)) (scan_string t)"
proof -
  obtain r n where d: "decode_rune s = (r, n)" by force
  consider (ascii) "code (hd s) < 0x80" | (bad) "0x80 \<le> code (hd s)" "r = rune_error" "n = 1"
    | (sep) "0x80 \<le> code (hd s)" "r = 0x2028 \<or> r = 0x2029" "\<not> (r = rune_error \<and> n = 1)"
    | (high) "0x80 \<le> code (hd s)" "\<not> (r = 0x2028 \<or> r = 0x2029)" "\<not> (r = rune_error \<and> n = 1)"
    by linarith
  then show ?thesis
  proof cases
    case ascii
    then show ?thesis
      using scan_plain [of "[hd s]" t] scan_escape_ascii [of "hd s" t]
      by (cases "html_safe (hd s)") (auto simp: escape_rune_def d html_safe_def)
  next
    case bad
    then show ?thesis using scan_u [of "''fffd''" t]
      by (simp add: escape_rune_def d hex4_def)
  next
    case sep
    have "hex4 (''202'' @ hex_digit (r mod 16) # t) \<noteq> None"
      by (simp add: hex4_def)
    moreover have "r \<noteq> rune_error" using sep(2) by (auto simp: rune_error_def)
    ultimately show ?thesis using sep scan_u [of "''202'' @ [hex_digit (r mod 16)]" t]
      by (simp add: escape_rune_def d)
  next
    case high
    then have "rune_ok s" using assms d by (simp add: rune_ok_def)
    then have "0x80 \<le> code c" if "c \<in> set (take n s)" for c
      using high_bytes [of s c] high(1) that d by simp
    then have "\<forall>c\<in>set (take n s). 0x20 \<le> code c \<and> c \<noteq> quote_char \<and> c \<noteq> backslash"
      by fastforce
    moreover have "escape_rune s = take n s" using high by (auto simp: escape_rune_def d)
    ultimately show ?thesis using scan_plain [of "take n s" t] by simp
  qed
qed

lemma unquote_u:
  assumes "hex4 (h @ t) = Some v" "length h = 4" "\<not> is_surrogate v"
  shows "unquote (backslash # CHR ''u'' # h @ t) = encode_rune v @ unquote t"
  using assms by (simp add: unquote.simps(2) getu4_def)

lemma unquote_short:
  "e \<noteq> CHR ''u'' \<Longrightarrow> unquote (backslash # e # t) = short_escape e # unquote t"
  by (simp add: unquote.simps(2) getu4_def)

lemma short_escape_self [simp]: "short_escape quote_char = quote_char" "short_escape backslash = backslash"
proof -
  have "quote_char \<noteq> CHR ''b''" "quote_char \<noteq> CHR ''f''" "quote_char \<noteq> CHR ''n''"
    "quote_char \<noteq> CHR ''r''" "quote_char \<noteq> CHR ''t''"
    by (rule char_neqI, simp)+
  then show "short_escape quote_char = quote_char" by (simp add: short_escape_def)
  have "backslash \<noteq> CHR ''b''" "backslash \<noteq> CHR ''f''" "backslash \<noteq> CHR ''n''"
    "backslash \<noteq> CHR ''r''" "backslash \<noteq> CHR ''t''"
    by (rule char_neqI, simp)+
  then show "short_escape backslash = backslash" by (simp add: short_escape_def)
qed

lemma short_escape_consts [simp]:
  "short_escape CHR ''b'' = chr_of 8" "short_escape CHR ''f'' = chr_of 12"
  "short_escape CHR ''n'' = chr_of 10" "short_escape CHR ''r'' = chr_of 13"
  "short_escape CHR ''t'' = chr_of 9"
  by (simp_all add: short_escape_def)

lemma unquote_escape_ascii:
  assumes "code c < 0x80"
  shows "unquote (escape_ascii c @ t) = c # unquote t"
proof -
  have u: "unquote ([backslash, CHR ''u'', CHR ''0'', CHR ''0'',
      hex_digit (code c div 16), hex_digit (code c mod 16)] @ t) = c # unquote t"
    using assms
      unquote_u [of "[CHR ''0'', CHR ''0'', hex_digit (code c div 16), hex_digit (code c mod 16)]" t "code c"]
    by (simp add: is_surrogate_def encode_rune_def)
  have "chr_of n = c" if "code c = n" for n using that by (rule chr_of_eqI)
  then show ?thesis using u escape_chars
    by (auto simp: escape_ascii_def unquote_short intro: chr_of_eqI)
qed

lemma unquote_escape_rune:
  assumes "s \<noteq> []"
  shows "unquote (escape_rune s @ t) = encode_rune (fst (decode_rune s)) @ unquote t"
proof -
  obtain r n where d: "decode_rune s = (r, n)" by force
  consider (ascii) "code (hd s) < 0x80" | (bad) "0x80 \<le> code (hd s)" "r = rune_error" "n = 1"
    | (sep) "0x80 \<le> code (hd s)" "r = 0x2028 \<or> r = 0x2029" "\<not> (r = rune_error \<and> n = 1)"
    | (high) "0x80 \<le> code (hd s)" "\<not> (r = 0x2028 \<or> r = 0x2029)" "\<not> (r = rune_error \<and> n = 1)"
    by linarith
  then show ?thesis
  proof cases
    case ascii
    then have r: "r = code (hd s)" using d assms by (cases s) auto
    have "unquote (hd s # t) = hd s # unquote t" if "html_safe (hd s)"
      using that ascii by (simp add: unquote.simps(2) html_safe_def encode_rune_def)
    then show ?thesis
      using ascii unquote_escape_ascii [of "hd s" t]
      by (cases "html_safe (hd s)") (auto simp: escape_rune_def d r encode_rune_def)
  next
    case bad
    then show ?thesis using unquote_u [of "''fffd''" t rune_error]
      by (simp add: escape_rune_def d hex4_def rune_error_def is_surrogate_def)
  next
    case sep
    have "hex4 (''202'' @ hex_digit (r mod 16) # t) = Some r"
      using sep(2) by (auto simp: hex4_def)
    moreover have "r \<noteq> rune_error" "\<not> is_surrogate r"
      using sep(2) by (auto simp: rune_error_def is_surrogate_def)
    ultimately show ?thesis using sep unquote_u [of "''202'' @ [hex_digit (r mod 16)]" t r]
      by (simp add: escape_rune_def d)
  next
    case high
    then have ok: "rune_ok s" using assms d by (simp add: rune_ok_def)
    have pre: "decode_rune (take n s @ t) = (r, n)"
      using decode_rune_prefix [OF ok, of t] d by simp
    have n: "1 \<le> n" "n \<le> length s" using decode_rune_width [OF assms] d by auto
    then have h: "take n s @ t = hd s # (tl (take n s) @ t)" using assms by (cases s; cases n) auto
    have "hd s \<noteq> backslash" using high(1) by auto
    then have "unquote (take n s @ t) = encode_rune r @ unquote t"
      using pre n unfolding h by (simp add: unquote.simps(2)) (simp flip: h)
    moreover have "escape_rune s = take n s" using high by (auto simp: escape_rune_def d)
    ultimately show ?thesis using d by simp
  qed
qed

theorem scan_json_escape:
  "scan_string (json_escape s @ quote_char # t) = Some (json_escape s, t)"
  by (induction s rule: json_escape.induct)
     (simp_all add: json_escape.simps(2) scan_escape_rune scan_string.simps(2))

theorem unquote_json_escape: "unquote (json_escape s) = to_valid s"
  by (induction s rule: json_escape.induct)
     (simp_all add: json_escape.simps(2) unquote_escape_rune to_valid_Cons)

end
