(* ===== verification/Protocol.thy ===== *)
theory Protocol
  imports Jsoncodec
begin

text \<open>
  \<open>signaling/protocol.go\<close>: the message structs of the signaling endpoint, their
  JSON encodings and the two decoders, \<open>frameType\<close> and the \<open>json.Unmarshal\<close>
  into a join message.  The lemmas give the syntax tree every encoded message
  parses to, hence what a client (or this package) reads back from it.
\<close>

section \<open>Constants and messages\<close>

definition typeJoin :: string where "typeJoin = ''join''"
definition typeJoined :: string where "typeJoined = ''joined''"
definition typeReady :: string where "typeReady = ''ready''"
definition typeOffer :: string where "typeOffer = ''offer''"
definition typeAnswer :: string where "typeAnswer = ''answer''"
definition typeCandidate :: string where "typeCandidate = ''candidate''"
definition typeBye :: string where "typeBye = ''bye''"
definition typeRemoteJoined :: string where "typeRemoteJoined = ''remote_joined''"
definition roleDevice :: string where "roleDevice = ''device''"
definition rolePhone :: string where "rolePhone = ''phone''"
definition modeForward :: string where "modeForward = ''forward''"

lemmas protocol_consts =
  typeJoin_def typeJoined_def typeReady_def typeOffer_def typeAnswer_def typeCandidate_def
  typeBye_def typeRemoteJoined_def roleDevice_def rolePhone_def modeForward_def

record joinMessage =
  jm_Type :: string
  jm_Role :: string
  jm_Session :: string
  jm_Imei :: string

record joinedMessage =
  jd_Type :: string
  jd_Mode :: string

record turnCredential =
  tc_URL :: string
  tc_User :: string
  tc_Pass :: string

record readyMessage =
  rm_Type :: string
  rm_Initiator :: bool
  rm_Stun :: string
  rm_Turn :: "turnCredential option"

record byeMessage =
  bm_Type :: string

record remoteJoinedMessage =
  rj_Type :: string
  rj_Session :: string

section \<open>Encoding (mustMarshal)\<close>

text \<open>
  \<open>json.Marshal\<close> fails on none of these types (they hold strings, booleans and
  pointers only), so the panic of \<open>mustMarshal\<close> is dead code and the encoder is
  a total function per message type.
\<close>

definition marshal_joined :: "joinedMessage \<Rightarrow> string" where
  "marshal_joined m =
     json_object [(''type'', json_quote (jd_Type m)), (''mode'', json_quote (jd_Mode m))]"

definition marshal_turn :: "turnCredential option \<Rightarrow> string" where
  "marshal_turn t =
     (case t of
        None \<Rightarrow> ''null''
      | Some c \<Rightarrow>
          json_object [(''url'', json_quote (tc_URL c)), (''user'', json_quote (tc_User c)),
            (''pass'', json_quote (tc_Pass c))])"

definition marshal_ready :: "readyMessage \<Rightarrow> string" where
  "marshal_ready m =
     json_object [(''type'', json_quote (rm_Type m)), (''initiator'', json_bool (rm_Initiator m)),
       (''stun'', json_quote (rm_Stun m)), (''turn'', marshal_turn (rm_Turn m))]"

definition marshal_bye :: "byeMessage \<Rightarrow> string" where
  "marshal_bye m = json_object [(''type'', json_quote (bm_Type m))]"

definition marshal_remote_joined :: "remoteJoinedMessage \<Rightarrow> string" where
  "marshal_remote_joined m =
     json_object [(''type'', json_quote (rj_Type m)), (''session'', json_quote (rj_Session m))]"

section \<open>Decoding\<close>

text \<open>\<open>frameType\<close>: the "type" field of a frame, and whether the frame decoded at all.\<close>

definition frameType :: "string \<Rightarrow> string \<times> bool" where
  "frameType raw =
     (case unmarshal_strings [''type''] raw of
        None \<Rightarrow> ([], False)
      | Some f \<Rightarrow> (f ''type'', True))"

definition unmarshal_join :: "string \<Rightarrow> joinMessage option" where
  "unmarshal_join raw =
     (case unmarshal_strings [''type'', ''role'', ''session'', ''imei''] raw of
        None \<Rightarrow> None
      | Some f \<Rightarrow> Some \<lparr>jm_Type = f ''type'', jm_Role = f ''role'',
                        jm_Session = f ''session'', jm_Imei = f ''imei''\<rparr>)"

section \<open>Parsing what was encoded\<close>

text \<open>
  \<open>renders t v f h\<close>: the text \<open>t\<close> reads back as the tree \<open>v\<close> in any context that
  has \<open>f\<close> units of fuel and \<open>h\<close> levels of nesting left.
\<close>

definition renders :: "string \<Rightarrow> json \<Rightarrow> nat \<Rightarrow> nat \<Rightarrow> bool" where
  "renders t v f h \<longleftrightarrow>
     (\<forall>n d rest. f \<le> n \<longrightarrow> d + h \<le> max_nesting \<longrightarrow> parse_value n d (t @ rest) = Some (v, rest))"

lemma rendersI:
  "(\<And>n d rest. f \<le> n \<Longrightarrow> d + h \<le> max_nesting \<Longrightarrow> parse_value n d (t @ rest) = Some (v, rest))
   \<Longrightarrow> renders t v f h"
  by (simp add: renders_def)

lemma renders_mono: "renders t v f h \<Longrightarrow> f \<le> f' \<Longrightarrow> h \<le> h' \<Longrightarrow> renders t v f' h'"
  by (fastforce simp: renders_def)

lemma is_ws_char [simp]:
  "\<not> is_ws quote_char" "\<not> is_ws CHR '':''" "\<not> is_ws CHR '',''" "\<not> is_ws CHR ''}''"
  "\<not> is_ws CHR ''{''" "\<not> is_ws CHR ''t''" "\<not> is_ws CHR ''f''" "\<not> is_ws CHR ''n''"
  by (simp_all add: is_ws_def)

lemma quote_neq [simp]:
  "quote_char \<noteq> CHR ''{''" "quote_char \<noteq> CHR ''[''" "quote_char \<noteq> CHR ''}''"
  "CHR ''t'' \<noteq> quote_char" "CHR ''f'' \<noteq> quote_char" "CHR ''n'' \<noteq> quote_char"
  by (rule char_neqI, simp)+

lemma renders_string: "renders (json_quote s) (JStr (to_valid s)) 1 0"
proof (rule rendersI)
  fix n d rest assume "1 \<le> (n :: nat)"
  then obtain n' where "n = Suc n'" by (cases n) auto
  then show "parse_value n d (json_quote s @ rest) = Some (JStr (to_valid s), rest)"
    by (simp add: parse_unfold json_quote_def scan_json_escape unquote_json_escape)
qed

lemma renders_bool: "renders (json_bool b) (JBool b) 1 0"
proof (rule rendersI)
  fix n d rest assume "1 \<le> (n :: nat)"
  then obtain n' where "n = Suc n'" by (cases n) auto
  then show "parse_value n d (json_bool b @ rest) = Some (JBool b, rest)"
    by (cases b) (simp_all add: parse_unfold json_bool_def literal_def)
qed

lemma renders_null: "renders ''null'' JNull 1 0"
proof (rule rendersI)
  fix n d rest assume "1 \<le> (n :: nat)"
  then obtain n' where "n = Suc n'" by (cases n) auto
  then show "parse_value n d (''null'' @ rest) = Some (JNull, rest)"
    by (simp add: parse_unfold literal_def)
qed

lemma parse_members_fields:
  assumes "fs \<noteq> []" "\<forall>(k, t, v)\<in>set fs. renders t v f h" "d + h \<le> max_nesting"
    "f + length fs \<le> n"
  shows "parse_members n d (json_fields (map (\<lambda>(k, t, v). (k, t)) fs) @ CHR ''}'' # rest) =
    Some (map (\<lambda>(k, t, v). (to_valid k, v)) fs, rest)"
  using assms
proof (induction fs arbitrary: n)
  case (Cons a fs)
  obtain k t v where a: "a = (k, t, v)" by (cases a)
  from Cons.prems(4) obtain n' where n: "n = Suc n'" "f + length fs \<le> n'" by (cases n) auto
  have t: "parse_value n' d (t @ r) = Some (v, r)" for r
    using Cons.prems(2,3) n a by (auto simp: renders_def)
  show ?case
  proof (cases fs)
    case Nil
    then show ?thesis
      by (simp add: a n parse_unfold(3) json_quote_def scan_json_escape unquote_json_escape t)
  next
    case (Cons b bs)
    obtain kb tb vb where b: "b = (kb, tb, vb)" by (cases b)
    have "parse_members n' d (json_fields (map (\<lambda>(k, t, v). (k, t)) fs) @ CHR ''}'' # rest) =
        Some (map (\<lambda>(k, t, v). (to_valid k, v)) fs, rest)"
      using Cons.IH [of n'] Cons.prems(2,3) n Cons by simp
    then show ?thesis using Cons b
      by (simp add: a n parse_unfold(3) json_quote_def scan_json_escape unquote_json_escape t)
  qed
qed simp

lemma json_fields_hd: "fs \<noteq> [] \<Longrightarrow> \<exists>r. json_fields fs = quote_char # r"
  by (cases fs rule: json_fields.cases) (auto simp: json_quote_def)

lemma renders_object:
  assumes "fs \<noteq> []" "\<forall>(k, t, v)\<in>set fs. renders t v f h"
  shows "renders (json_object (map (\<lambda>(k, t, v). (k, t)) fs))
    (JObj (map (\<lambda>(k, t, v). (to_valid k, v)) fs)) (Suc (f + length fs)) (Suc h)"
proof (rule rendersI)
  fix n d rest
  assume "Suc (f + length fs) \<le> n" and d: "d + Suc h \<le> max_nesting"
  then obtain n' where n: "n = Suc n'" "f + length fs \<le> n'" by (cases n) auto
  let ?fs = "map (\<lambda>(k, t, v). (k, t)) fs"
  obtain r where r: "json_fields ?fs = quote_char # r"
    using json_fields_hd [of ?fs] assms(1) by auto
  have "parse_members n' (Suc d) (json_fields ?fs @ CHR ''}'' # rest) =
      Some (map (\<lambda>(k, t, v). (to_valid k, v)) fs, rest)"
    using parse_members_fields [OF assms, of "Suc d" n' rest] d n by simp
  then show "parse_value n d (json_object ?fs @ rest) =
      Some (JObj (map (\<lambda>(k, t, v). (to_valid k, v)) fs), rest)"
    using d n by (simp add: parse_unfold(1) json_object_def r)
qed

lemma renders_parse_json:
  assumes "renders t v f h" "h \<le> max_nesting"
  shows "parse_json t = Some v"
proof -
  let ?n = "max f (2 * length t + 1)"
  have "parse_value ?n 0 (t @ []) = Some (v, [])"
    using assms unfolding renders_def by (metis add_0 max.cobounded1)
  moreover have "parse_value ?n 0 t = parse_value (2 * length t + 1) 0 t"
    by (rule parse_fuel_enough) simp
  ultimately have "parse_value (2 * length t + 1) 0 t = Some (v, [])" by simp
  then show ?thesis unfolding parse_json_def by simp
qed

section \<open>The trees of the server's messages\<close>

lemma to_valid_ascii [simp]: "ascii s \<Longrightarrow> to_valid s = s"
  by (simp add: to_valid_id ascii_valid)

lemma nesting_small [simp]: "h \<le> 10 \<Longrightarrow> h \<le> max_nesting" "Suc (Suc 0) \<le> max_nesting"
  "Suc 0 \<le> max_nesting"
  by (simp_all add: max_nesting_def)

definition turn_tree :: "turnCredential option \<Rightarrow> json" where
  "turn_tree t =
     (case t of
        None \<Rightarrow> JNull
      | Some c \<Rightarrow> JObj [(''url'', JStr (to_valid (tc_URL c))), (''user'', JStr (to_valid (tc_User c))),
                      (''pass'', JStr (to_valid (tc_Pass c)))])"

lemma renders_turn: "renders (marshal_turn t) (turn_tree t) 5 1"
proof (cases t)
  case None
  then show ?thesis
    using renders_mono [OF renders_null, of 5 1] by (simp add: marshal_turn_def turn_tree_def)
next
  case (Some c)
  let ?fs = "[(''url'', json_quote (tc_URL c), JStr (to_valid (tc_URL c))),
    (''user'', json_quote (tc_User c), JStr (to_valid (tc_User c))),
    (''pass'', json_quote (tc_Pass c), JStr (to_valid (tc_Pass c)))]"
  have "\<forall>(k, t, v)\<in>set ?fs. renders t v 1 0" by (simp add: renders_string [unfolded One_nat_def])
  from renders_object [OF _ this] show ?thesis using Some
    by (simp add: marshal_turn_def turn_tree_def) (erule renders_mono, simp_all)
qed

lemma parse_ready:
  "parse_json (marshal_ready m) =
     Some (JObj [(''type'', JStr (to_valid (rm_Type m))), (''initiator'', JBool (rm_Initiator m)),
       (''stun'', JStr (to_valid (rm_Stun m))), (''turn'', turn_tree (rm_Turn m))])"
proof -
  let ?fs = "[(''type'', json_quote (rm_Type m), JStr (to_valid (rm_Type m))),
    (''initiator'', json_bool (rm_Initiator m), JBool (rm_Initiator m)),
    (''stun'', json_quote (rm_Stun m), JStr (to_valid (rm_Stun m))),
    (''turn'', marshal_turn (rm_Turn m), turn_tree (rm_Turn m))]"
  have "\<forall>(k, t, v)\<in>set ?fs. renders t v 5 1"
    using renders_mono [OF renders_string, of 5 1] renders_mono [OF renders_bool, of 5 1]
      renders_turn by simp
  from renders_object [OF _ this] have
    "renders (marshal_ready m) (JObj (map (\<lambda>(k, t, v). (to_valid k, v)) ?fs)) 10 2"
    by (simp add: marshal_ready_def) (erule renders_mono, simp_all)
  from renders_parse_json [OF this] show ?thesis by simp
qed

lemma parse_two_strings:
  "parse_json (json_object [(k1, json_quote v1), (k2, json_quote v2)]) =
     Some (JObj [(to_valid k1, JStr (to_valid v1)), (to_valid k2, JStr (to_valid v2))])"
proof -
  let ?fs = "[(k1, json_quote v1, JStr (to_valid v1)), (k2, json_quote v2, JStr (to_valid v2))]"
  have "\<forall>(k, t, v)\<in>set ?fs. renders t v 1 0" by (simp add: renders_string [unfolded One_nat_def])
  from renders_parse_json [OF renders_object [OF _ this]] show ?thesis by simp
qed

lemma parse_one_string:
  "parse_json (json_object [(k, json_quote v)]) = Some (JObj [(to_valid k, JStr (to_valid v))])"
proof -
  let ?fs = "[(k, json_quote v, JStr (to_valid v))]"
  have "\<forall>(k, t, v)\<in>set ?fs. renders t v 1 0" by (simp add: renders_string [unfolded One_nat_def])
  from renders_parse_json [OF renders_object [OF _ this]] show ?thesis by simp
qed

text \<open>The tag of each message the server sends, as \<open>frameType\<close> reads it.\<close>

lemma field_of_consts:
  "field_of [''type''] ''type'' = Some ''type''"
  "field_of [''type''] ''mode'' = None" "field_of [''type''] ''initiator'' = None"
  "field_of [''type''] ''stun'' = None" "field_of [''type''] ''turn'' = None"
  "field_of [''type''] ''session'' = None"
  by (simp_all add: field_of_def equal_fold_ascii ascii_lower_def chr_of_def)

lemma frameType_joined:
  "frameType (marshal_joined m) = (to_valid (jd_Type m), True)"
  by (simp add: frameType_def unmarshal_strings_def marshal_joined_def parse_two_strings
      store_member_def field_of_consts)

lemma frameType_ready:
  "frameType (marshal_ready m) = (to_valid (rm_Type m), True)"
  by (simp add: frameType_def unmarshal_strings_def parse_ready store_member_def field_of_consts)

lemma frameType_bye:
  "frameType (marshal_bye m) = (to_valid (bm_Type m), True)"
  by (simp add: frameType_def unmarshal_strings_def marshal_bye_def parse_one_string
      store_member_def field_of_consts)

lemma frameType_remote_joined:
  "frameType (marshal_remote_joined m) = (to_valid (rj_Type m), True)"
  by (simp add: frameType_def unmarshal_strings_def marshal_remote_joined_def parse_two_strings
      store_member_def field_of_consts)

lemmas frameType_server = frameType_joined frameType_ready frameType_bye frameType_remote_joined

text \<open>A ready frame determines its initiator flag and its TURN field.\<close>

lemma marshal_ready_inject:
  assumes "marshal_ready m = marshal_ready m'"
  shows "rm_Initiator m = rm_Initiator m' \<and> turn_tree (rm_Turn m) = turn_tree (rm_Turn m')"
  using assms parse_ready [of m] parse_ready [of m'] by simp

end
