(* ===== verification/ProtocolProps.thy ===== *)
theory ProtocolProps
  imports Protocol
begin

text \<open>
  What the two ends of a socket make of each other's messages: the round trips of the
  server's messages and of a client's join, and a complete account of \<open>frameType\<close>.
\<close>

section \<open>The type field of an arbitrary frame\<close>

definition type_members :: "(string \<times> json) list \<Rightarrow> json list" where
  "type_members ms = map snd (List.filter (\<lambda>m. equal_fold (fst m) ''type'') ms)"

definition stringy :: "json \<Rightarrow> bool" where
  "stringy v = (case v of JStr _ \<Rightarrow> True | JNull \<Rightarrow> True | _ \<Rightarrow> False)"

fun last_string :: "json list \<Rightarrow> string \<Rightarrow> string" where
  "last_string [] acc = acc"
| "last_string (JStr s # vs) acc = last_string vs s"
| "last_string (_ # vs) acc = last_string vs acc"

lemma field_of_type:
  "field_of [''type''] key = (if equal_fold key ''type'' then Some ''type'' else None)"
  by (auto simp: field_of_def)

lemma store_member_type:
  "store_member [''type''] m (vals, bad) =
      (if equal_fold (fst m) ''type'' then
         (case snd m of JStr v \<Rightarrow> (vals(''type'' := v), bad) | JNull \<Rightarrow> (vals, bad) | _ \<Rightarrow> (vals, True))
       else (vals, bad))"
  by (simp add: store_member_def field_of_type split: json.split)

lemma type_members_Cons:
  "type_members (m # ms) = (if equal_fold (fst m) ''type'' then [snd m] else []) @ type_members ms"
  by (simp add: type_members_def)

lemma store_failed:
  "snd (fold (store_member [''type'']) ms (vals, bad)) = (bad \<or> \<not> list_all stringy (type_members ms))"
proof (induction ms arbitrary: vals bad)
  case (Cons m ms)
  show ?case
    by (cases "snd m") (simp_all add: store_member_type type_members_Cons Cons.IH stringy_def)
qed (simp add: type_members_def)

lemma store_value:
  "fst (fold (store_member [''type'']) ms (vals, bad)) ''type''
     = last_string (type_members ms) (vals ''type'')"
proof (induction ms arbitrary: vals bad)
  case (Cons m ms)
  show ?case by (cases "snd m") (simp_all add: store_member_type type_members_Cons Cons.IH)
qed (simp add: type_members_def)

section \<open>Properties\<close>

text \<open>What \<open>frameType\<close> answers for every possible frame: an unparsable frame and a
  document that is neither an object nor null are rejected; an object is accepted exactly when
  each of its members whose name folds to "type" is a string or null, and then the last string
  among them is the type.  So null is accepted, and an object with a number for its type is
  not.\<close>

theorem frameType_classification:
  "frameType raw =
     (case parse_json raw of
        Some JNull \<Rightarrow> ([], True)
      | Some (JObj ms) \<Rightarrow>
          if list_all stringy (type_members ms) then (last_string (type_members ms) [], True)
          else ([], False)
      | _ \<Rightarrow> ([], False))"
proof (cases "parse_json raw")
  case (Some v)
  show ?thesis
  proof (cases v)
    case (JObj ms)
    then show ?thesis
      by (simp add: frameType_def unmarshal_strings_def Some split_beta store_failed store_value)
  qed (simp_all add: frameType_def unmarshal_strings_def Some)
qed (simp add: frameType_def unmarshal_strings_def)

text \<open>C11: Every message the server writes parses back to exactly the fields it was made from,
  whatever bytes they hold (a byte that is not UTF-8 reads as U+FFFD): no quoting error can
  turn one field into another or break a frame.\<close>

theorem server_messages_roundtrip:
  "parse_json (marshal_joined \<lparr>jd_Type = t, jd_Mode = m\<rparr>)
     = Some (JObj [(''type'', JStr (to_valid t)), (''mode'', JStr (to_valid m))])
   \<and> parse_json (marshal_bye \<lparr>bm_Type = t\<rparr>) = Some (JObj [(''type'', JStr (to_valid t))])
   \<and> parse_json (marshal_remote_joined \<lparr>rj_Type = t, rj_Session = sid\<rparr>)
     = Some (JObj [(''type'', JStr (to_valid t)), (''session'', JStr (to_valid sid))])
   \<and> parse_json (marshal_ready \<lparr>rm_Type = t, rm_Initiator = b, rm_Stun = stun,
        rm_Turn = Some \<lparr>tc_URL = url, tc_User = user, tc_Pass = pass\<rparr>\<rparr>)
     = Some (JObj [(''type'', JStr (to_valid t)), (''initiator'', JBool b), (''stun'', JStr (to_valid stun)),
         (''turn'', JObj [(''url'', JStr (to_valid url)), (''user'', JStr (to_valid user)),
            (''pass'', JStr (to_valid pass))])])
   \<and> parse_json (marshal_ready \<lparr>rm_Type = t, rm_Initiator = b, rm_Stun = stun, rm_Turn = None\<rparr>)
     = Some (JObj [(''type'', JStr (to_valid t)), (''initiator'', JBool b), (''stun'', JStr (to_valid stun)),
         (''turn'', JNull)])"
  by (simp add: parse_ready turn_tree_def marshal_joined_def marshal_bye_def marshal_remote_joined_def
      parse_two_strings parse_one_string)

text \<open>A join as a client encodes it.\<close>

lemma parse_strings:
  assumes "fs \<noteq> []"
  shows "parse_json (json_object (map (\<lambda>(k, v). (k, json_quote v)) fs)) =
     Some (JObj (map (\<lambda>(k, v). (to_valid k, JStr (to_valid v))) fs))"
proof -
  let ?fs = "map (\<lambda>(k, v). (k, json_quote v, JStr (to_valid v))) fs"
  have "\<forall>(k, t, v)\<in>set ?fs. renders t v 1 0" by (auto simp: renders_string [unfolded One_nat_def])
  from renders_parse_json [OF renders_object [OF _ this]] assms show ?thesis
    by (simp add: comp_def case_prod_unfold)
qed

lemma join_fields:
  "field_of [''type'', ''role'', ''session'', ''imei''] ''type'' = Some ''type''"
  "field_of [''type'', ''role'', ''session'', ''imei''] ''role'' = Some ''role''"
  "field_of [''type'', ''role'', ''session'', ''imei''] ''session'' = Some ''session''"
  "field_of [''type'', ''role'', ''session'', ''imei''] ''imei'' = Some ''imei''"
  by (simp_all add: field_of_def)

text \<open>C12: A join that a client encodes as a JSON object is read back as the join message with
  those fields, its members in any order, so the session and role the hub registers are the
  ones the client meant.\<close>

theorem join_message_roundtrip:
  assumes "distinct (map fst fs)" "set (map fst fs) \<subseteq> {''type'', ''role'', ''session'', ''imei''}"
    and "fs \<noteq> []"
  shows "unmarshal_join (json_object (map (\<lambda>(k, v). (k, json_quote v)) fs)) =
     (let get = (\<lambda>k. case map_of fs k of None \<Rightarrow> [] | Some v \<Rightarrow> to_valid v)
      in Some \<lparr>jm_Type = get ''type'', jm_Role = get ''role'', jm_Session = get ''session'',
               jm_Imei = get ''imei''\<rparr>)"
proof -
  let ?names = "[''type'', ''role'', ''session'', ''imei'']"
  have f: "fold (store_member ?names) (map (\<lambda>(k, v). (to_valid k, JStr (to_valid v))) fs) (vals, False)
      = (\<lambda>k. case map_of fs k of None \<Rightarrow> vals k | Some v \<Rightarrow> to_valid v, False)" for vals
    using assms(1,2)
  proof (induction fs arbitrary: vals)
    case (Cons a fs)
    obtain k v where a: "a = (k, v)" by (cases a)
    have k: "field_of ?names k = Some k" "to_valid k = k"
      using Cons.prems(2) join_fields by (auto simp: a)
    have none: "map_of fs k = None" using Cons.prems(1) by (auto simp: a map_of_eq_None_iff)
    have "store_member ?names (to_valid k, JStr (to_valid v)) (vals, False)
        = (vals(k := to_valid v), False)" by (simp add: store_member_def k)
    moreover have "fold (store_member ?names) (map (\<lambda>(k, v). (to_valid k, JStr (to_valid v))) fs)
        (vals(k := to_valid v), False)
      = (\<lambda>j. case map_of fs j of None \<Rightarrow> (vals(k := to_valid v)) j | Some v \<Rightarrow> to_valid v, False)"
      using Cons.prems by (intro Cons.IH) auto
    ultimately show ?case
      using none by (auto simp: a fun_eq_iff split: option.split)
  qed simp
  show ?thesis
    using parse_strings [OF assms(3)] f [of "\<lambda>_. []"]
    by (simp add: unmarshal_join_def unmarshal_strings_def Let_def cong: option.case_cong)
qed

theorem join_message_roundtrip_witness:
  "unmarshal_join (json_object [(''session'', json_quote ''A''), (''type'', json_quote typeJoin)])
     = Some \<lparr>jm_Type = ''join'', jm_Role = [], jm_Session = ''A'', jm_Imei = []\<rparr>"
  using join_message_roundtrip [of "[(''session'', ''A''), (''type'', typeJoin)]"]
  by (simp add: Let_def protocol_consts)

end
