(* ===== verification/Hub.thy ===== *)
theory Hub
  imports Protocol
begin

text \<open>
  \<open>signaling/hub.go\<close>, \<open>config.go\<close>, \<open>credentials.go\<close> and \<open>metrics.go\<close>: the
  pairing state of every live session and its operations.

  The state has two halves, as the code's design rule has it.  The registry
  (\<open>hub\<close>) is what the mutex guards: the session table, the peers and the
  lonely timers, which the code reaches through pointers and the model through
  indices into two heaps.  The outside (\<open>net\<close>) is what an operation may touch
  without holding the mutex: each peer's buffered channel and close request, the
  counters and the log.  An operation changes the registry and lists what it does
  to the outside as \<open>effect\<close>s in program order; \<open>perform\<close> is one effect.
  A critical section never reads the outside, so running its effects after its
  registry updates gives what the code computes; the theory \<open>Relay\<close> runs them one
  at a time, interleaved with everything else.
\<close>

section \<open>Configuration\<close>

definition time_second :: int where "time_second = 1000000000"

definition defaultSendBuffer :: int where "defaultSendBuffer = 16"

definition defaultPingTimeout :: int where "defaultPingTimeout = 10 * time_second"

text \<open>Durations are nanoseconds.\<close>

record config =
  cfg_StunURL :: string
  cfg_TurnURL :: string
  cfg_TurnSecret :: string
  cfg_TurnCredentialTTL :: int
  cfg_NoReceiverTimeout :: int
  cfg_PingInterval :: int
  cfg_PingTimeout :: int
  cfg_SendBuffer :: int

section \<open>Registry\<close>

text \<open>The immutable fields of a peer; its channel and close func are a \<open>mailbox\<close>.\<close>

record peer =
  p_role :: string
  p_sessionID :: string
  p_label :: string
  p_imei :: string
  p_addr :: string

datatype timer_state = Armed | Stopped | Firing | Fired

record timer =
  tm_peer :: nat
  tm_after :: int
  tm_state :: timer_state

record session =
  s_id :: string
  s_label :: string
  s_imei :: string
  s_device :: "nat option"
  s_phone :: "nat option"
  s_turnToken :: string
  s_readySent :: bool
  s_lonely :: "nat option"

record hub =
  hb_cfg :: config
  hb_sessions :: "(string \<times> session) list"
  hb_peers :: "nat \<Rightarrow> peer"
  hb_npeers :: nat
  hb_timers :: "nat \<Rightarrow> timer"
  hb_ntimers :: nat
  hb_active :: "64 word"
  hb_closed :: bool

definition blank_peer :: peer where
  "blank_peer = \<lparr>p_role = [], p_sessionID = [], p_label = [], p_imei = [], p_addr = []\<rparr>"

definition blank_timer :: timer where
  "blank_timer = \<lparr>tm_peer = 0, tm_after = 0, tm_state = Stopped\<rparr>"

section \<open>The outside: channels, counters, log\<close>

text \<open>
  \<open>mb_out\<close> is the buffered channel, \<open>mb_once\<close> says whether the peer's
  \<open>closeOnce\<close> has run, and \<open>mb_closing\<close> is the channel of capacity one that the
  connection's \<open>requestClose\<close> writes.
\<close>

record mailbox =
  mb_out :: "string list"
  mb_cap :: nat
  mb_once :: bool
  mb_closing :: "string list"

record net =
  n_box :: "nat \<Rightarrow> mailbox"
  n_slowDrops :: "64 word"
  n_noReceiver :: "64 word"
  n_peersTotal :: "(string \<times> 64 word) list"
  n_msgsTotal :: "(string \<times> 64 word) list"
  n_log :: "log_line list"

definition empty_box :: "nat \<Rightarrow> mailbox" where
  "empty_box cap = \<lparr>mb_out = [], mb_cap = cap, mb_once = False, mb_closing = []\<rparr>"

definition empty_net :: net where
  "empty_net = \<lparr>n_box = (\<lambda>_. empty_box 0), n_slowDrops = 0, n_noReceiver = 0,
     n_peersTotal = [], n_msgsTotal = [], n_log = []\<rparr>"

datatype effect =
    Send nat string
  | ClosePeer nat string
  | CountJoined string
  | CountForwarded string
  | CountNoReceiver
  | LogLine log_line

text \<open>\<open>conn.requestClose\<close>: a send that does nothing when the channel is full.\<close>

definition requestClose :: "string \<Rightarrow> string list \<Rightarrow> string list" where
  "requestClose reason q = (if length q < 1 then q @ [reason] else q)"

text \<open>\<open>peer.close\<close>: the close func runs at most once.\<close>

definition peer_close :: "string \<Rightarrow> mailbox \<Rightarrow> mailbox" where
  "peer_close reason b =
     (let (d, q) = once_do (mb_once b) (requestClose reason) (mb_closing b)
      in b\<lparr>mb_once := d, mb_closing := q\<rparr>)"

text \<open>\<open>peer.send\<close>: queue the frame, or close the peer when its buffer is full.\<close>

definition box_has_room :: "mailbox \<Rightarrow> bool" where
  "box_has_room b \<longleftrightarrow> length (mb_out b) < mb_cap b"

definition peer_send :: "string \<Rightarrow> mailbox \<Rightarrow> mailbox" where
  "peer_send msg b =
     (if box_has_room b then b\<lparr>mb_out := mb_out b @ [msg]\<rparr>
      else peer_close ''send buffer full'' b)"

definition bump :: "string \<Rightarrow> (string \<times> 64 word) list \<Rightarrow> (string \<times> 64 word) list" where
  "bump name t = tbl_put name (case tbl_get t name of None \<Rightarrow> 1 | Some n \<Rightarrow> n + 1) t"

text \<open>\<open>countPeerJoined\<close> and \<open>countMessageForwarded\<close>: the full metric names.\<close>

definition peersTotalName :: "string \<Rightarrow> string" where
  "peersTotalName role =
     ''signaling_peers_total{role='' @ [quote_char] @ role @ [quote_char] @ ''}''"

definition messagesTotalName :: "string \<Rightarrow> string" where
  "messagesTotalName ft =
     ''signaling_messages_total{type='' @ [quote_char] @ ft @ [quote_char] @ ''}''"

definition countPeerJoined :: "string \<Rightarrow> net \<Rightarrow> net" where
  "countPeerJoined role n = n\<lparr>n_peersTotal := bump (peersTotalName role) (n_peersTotal n)\<rparr>"

definition countMessageForwarded :: "string \<Rightarrow> net \<Rightarrow> net" where
  "countMessageForwarded ft n = n\<lparr>n_msgsTotal := bump (messagesTotalName ft) (n_msgsTotal n)\<rparr>"

fun perform :: "effect \<Rightarrow> net \<Rightarrow> net" where
  "perform (Send p msg) n =
     n\<lparr>n_box := (n_box n)(p := peer_send msg (n_box n p)),
       n_slowDrops := (if box_has_room (n_box n p) then n_slowDrops n else n_slowDrops n + 1)\<rparr>"
| "perform (ClosePeer p reason) n = n\<lparr>n_box := (n_box n)(p := peer_close reason (n_box n p))\<rparr>"
| "perform (CountJoined role) n = countPeerJoined role n"
| "perform (CountForwarded ft) n = countMessageForwarded ft n"
| "perform CountNoReceiver n = n\<lparr>n_noReceiver := n_noReceiver n + 1\<rparr>"
| "perform (LogLine l) n = n\<lparr>n_log := n_log n @ [l]\<rparr>"

definition perform_all :: "effect list \<Rightarrow> net \<Rightarrow> net" where
  "perform_all es n = fold perform es n"

section \<open>New\<close>

datatype hub_error = NilConfig | TurnSecretUnimplemented

text \<open>
  \<open>New\<close>.  \<open>sessionsActive\<close> is process-wide, so a hub starts from the value
  \<open>active\<close> the gauge already has.
\<close>

definition hub_new :: "config option \<Rightarrow> 64 word \<Rightarrow> hub_error + hub" where
  "hub_new oc active =
     (case oc of
        None \<Rightarrow> Inl NilConfig
      | Some c0 \<Rightarrow>
          if cfg_TurnSecret c0 \<noteq> [] then Inl TurnSecretUnimplemented
          else
            let c1 = (if cfg_SendBuffer c0 \<le> 0 then c0\<lparr>cfg_SendBuffer := defaultSendBuffer\<rparr> else c0);
                c2 = (if cfg_PingTimeout c1 \<le> 0 then c1\<lparr>cfg_PingTimeout := defaultPingTimeout\<rparr> else c1)
            in Inr \<lparr>hb_cfg = c2, hb_sessions = [], hb_peers = (\<lambda>_. blank_peer), hb_npeers = 0,
                    hb_timers = (\<lambda>_. blank_timer), hb_ntimers = 0, hb_active = active,
                    hb_closed = False\<rparr>)"

section \<open>Session accessors\<close>

definition slot :: "string \<Rightarrow> session \<Rightarrow> nat option" where
  "slot role s = (if role = roleDevice then s_device s else s_phone s)"

definition setSlot :: "string \<Rightarrow> nat option \<Rightarrow> session \<Rightarrow> session" where
  "setSlot role p s = (if role = roleDevice then s\<lparr>s_device := p\<rparr> else s\<lparr>s_phone := p\<rparr>)"

definition other :: "string \<Rightarrow> session \<Rightarrow> nat option" where
  "other role s = (if role = roleDevice then s_phone s else s_device s)"

definition isEmpty :: "session \<Rightarrow> bool" where
  "isEmpty s \<longleftrightarrow> s_device s = None \<and> s_phone s = None"

text \<open>\<open>Timer.Stop\<close>: it prevents a run that has not started.\<close>

definition timer_stop :: "timer \<Rightarrow> timer" where
  "timer_stop t = (if tm_state t = Armed then t\<lparr>tm_state := Stopped\<rparr> else t)"

definition stopLonely :: "session \<Rightarrow> (nat \<Rightarrow> timer) \<Rightarrow> session \<times> (nat \<Rightarrow> timer)" where
  "stopLonely s ts =
     (case s_lonely s of
        None \<Rightarrow> (s, ts)
      | Some t \<Rightarrow> (s\<lparr>s_lonely := None\<rparr>, ts(t := timer_stop (ts t))))"

section \<open>Credentials and frames\<close>

text \<open>
  \<open>newTurnToken\<close> on the 16 bytes \<open>rand.Read\<close> delivered (since Go 1.24 that call
  does not return an error, so the panic branch is dead).
\<close>

definition newTurnToken :: "bytes \<Rightarrow> string" where
  "newTurnToken buf = hex_encode buf"

definition credentialFor :: "config \<Rightarrow> session \<Rightarrow> turnCredential option" where
  "credentialFor c s =
     (if cfg_TurnURL c = [] then None
      else Some \<lparr>tc_URL = cfg_TurnURL c, tc_User = s_turnToken s, tc_Pass = s_turnToken s\<rparr>)"

definition readyFrame :: "config \<Rightarrow> session \<Rightarrow> bool \<Rightarrow> string" where
  "readyFrame c s initiator =
     marshal_ready \<lparr>rm_Type = typeReady, rm_Initiator = initiator, rm_Stun = cfg_StunURL c,
       rm_Turn = credentialFor c s\<rparr>"

definition joinedFrame :: string where
  "joinedFrame = marshal_joined \<lparr>jd_Type = typeJoined, jd_Mode = modeForward\<rparr>"

definition byeFrame :: string where
  "byeFrame = marshal_bye \<lparr>bm_Type = typeBye\<rparr>"

definition remoteJoinedFrame :: "string \<Rightarrow> string" where
  "remoteJoinedFrame session =
     marshal_remote_joined \<lparr>rj_Type = typeRemoteJoined, rj_Session = session\<rparr>"

section \<open>join\<close>

datatype join_error = EmptySession | UnknownRole string

text \<open>
  What a join takes from its surroundings: the Unicode table behind
  \<open>strings.ToLower\<close>, the order in which this iteration over the session map visits
  the keys (Go leaves it open), and the random bytes for a new token.
\<close>

record join_env =
  je_utable :: "nat \<Rightarrow> nat"
  je_visit :: "string list \<Rightarrow> string list"
  je_rand :: bytes

text \<open>The checks before the lock.\<close>

definition join_check :: "joinMessage \<Rightarrow> join_error option" where
  "join_check m =
     (if jm_Session m = [] then Some EmptySession
      else if jm_Role m \<noteq> roleDevice \<and> jm_Role m \<noteq> rolePhone then Some (UnknownRole (jm_Role m))
      else None)"

text \<open>The peer record; its index is the next free one.\<close>

definition new_peer :: "join_env \<Rightarrow> joinMessage \<Rightarrow> string \<Rightarrow> hub \<Rightarrow> nat \<times> hub" where
  "new_peer env m addr h =
     (hb_npeers h,
      h\<lparr>hb_peers := (hb_peers h)(hb_npeers h :=
            \<lparr>p_role = jm_Role m, p_sessionID = to_lower (je_utable env) (jm_Session m),
             p_label = jm_Session m, p_imei = jm_Imei m, p_addr = addr\<rparr>),
        hb_npeers := Suc (hb_npeers h)\<rparr>)"

definition new_box :: "hub \<Rightarrow> mailbox" where
  "new_box h = empty_box (nat (cfg_SendBuffer (hb_cfg h)))"

text \<open>\<open>announceJoin\<close>: the sends, session by session in the order of this iteration.\<close>

definition session_peers :: "session \<Rightarrow> nat list" where
  "session_peers s =
     (case s_device s of None \<Rightarrow> [] | Some d \<Rightarrow> [d]) @ (case s_phone s of None \<Rightarrow> [] | Some q \<Rightarrow> [q])"

definition announceJoin ::
  "(string list \<Rightarrow> string list) \<Rightarrow> nat \<Rightarrow> string \<Rightarrow> (string \<times> session) list \<Rightarrow> effect list" where
  "announceJoin visit joiner session ss =
     concat (map (\<lambda>k. case tbl_get ss k of
         None \<Rightarrow> []
       | Some s \<Rightarrow> map (\<lambda>q. Send q (remoteJoinedFrame session))
                     (List.filter (\<lambda>q. q \<noteq> joiner) (session_peers s)))
       (visit (tbl_keys ss)))"

text \<open>The session a key has, created when there is none.\<close>

definition find_session :: "join_env \<Rightarrow> string \<Rightarrow> string \<Rightarrow> hub \<Rightarrow> session \<times> hub" where
  "find_session env key label h =
     (case tbl_get (hb_sessions h) key of
        Some s \<Rightarrow> (s, h)
      | None \<Rightarrow>
          (let s = \<lparr>s_id = key, s_label = label, s_imei = [], s_device = None, s_phone = None,
                    s_turnToken = newTurnToken (je_rand env), s_readySent = False, s_lonely = None\<rparr>
           in (s, h\<lparr>hb_sessions := tbl_put key s (hb_sessions h), hb_active := hb_active h + 1\<rparr>)))"

text \<open>
  The pairing decision: both sides present stops the lonely timer and sends ready
  once per pairing, the phone being the initiator; a device alone arms the timer.
  The session is written back by the caller, where the code mutates it in place.
\<close>

definition pair_up ::
  "nat \<Rightarrow> session \<Rightarrow> hub \<Rightarrow> session \<times> hub \<times> effect list" where
  "pair_up p s h =
     (case (s_device s, s_phone s) of
        (Some d, Some q) \<Rightarrow>
          (let (s1, ts) = stopLonely s (hb_timers h); h1 = h\<lparr>hb_timers := ts\<rparr>
           in if s_readySent s1 then (s1, h1, [])
              else (let s2 = s1\<lparr>s_readySent := True\<rparr>
                    in (s2, h1, [Send d (readyFrame (hb_cfg h) s2 False),
                                 Send q (readyFrame (hb_cfg h) s2 True)])))
      | _ \<Rightarrow>
          if p_role (hb_peers h p) = roleDevice \<and> cfg_NoReceiverTimeout (hb_cfg h) > 0
          then (s\<lparr>s_lonely := Some (hb_ntimers h)\<rparr>,
                h\<lparr>hb_timers := (hb_timers h)(hb_ntimers h :=
                     \<lparr>tm_peer = p, tm_after = cfg_NoReceiverTimeout (hb_cfg h), tm_state = Armed\<rparr>),
                  hb_ntimers := Suc (hb_ntimers h)\<rparr>, [])
          else (s, h, []))"

text \<open>
  The critical section of \<open>join\<close>: the new registry, the sends made under the lock
  in program order, and the peer that was replaced.
\<close>

definition join_locked ::
  "join_env \<Rightarrow> nat \<Rightarrow> joinMessage \<Rightarrow> hub \<Rightarrow> hub \<times> effect list \<times> nat option" where
  "join_locked env p m h =
     (let pr = hb_peers h p;
          (s0, h0) = find_session env (p_sessionID pr) (jm_Session m) h;
          s1 = (if jm_Imei m \<noteq> [] then s0\<lparr>s_imei := jm_Imei m\<rparr> else s0);
          replaced = slot (p_role pr) s1;
          s2 = setSlot (p_role pr) (Some p) s1;
          s3 = (if replaced \<noteq> None then s2\<lparr>s_readySent := False\<rparr> else s2);
          (s4, h1, ready) = pair_up p s3 h0;
          h2 = h1\<lparr>hb_sessions := tbl_put (p_sessionID pr) s4 (hb_sessions h1)\<rparr>
      in (h2,
          Send p joinedFrame # ready
            @ announceJoin (je_visit env) p (jm_Session m) (hb_sessions h2),
          replaced))"

text \<open>What \<open>join\<close> does after releasing the lock.\<close>

definition join_unlocked :: "nat \<Rightarrow> nat option \<Rightarrow> hub \<Rightarrow> effect list" where
  "join_unlocked p replaced h =
     (let pr = hb_peers h p in
      (case replaced of None \<Rightarrow> [] | Some r \<Rightarrow> [ClosePeer r (''replaced by a new '' @ p_role pr)])
      @ [CountJoined (p_role pr),
         LogLine (log_at LInfo ''signaling peer joined''
           [(''role'', VStr (p_role pr)), (''session'', VStr (p_label pr)),
            (''imei'', VStr (p_imei pr)), (''remoteAddr'', VStr (p_addr pr))])])"

section \<open>leave, forward, expireLonely, Close\<close>

definition leave_locked :: "nat \<Rightarrow> hub \<Rightarrow> hub \<times> effect list" where
  "leave_locked p h =
     (let pr = hb_peers h p in
      case tbl_get (hb_sessions h) (p_sessionID pr) of
        None \<Rightarrow> (h, [])
      | Some s0 \<Rightarrow>
          if slot (p_role pr) s0 \<noteq> Some p then (h, [])
          else
            let s1 = setSlot (p_role pr) None s0;
                (s2, ts) = stopLonely s1 (hb_timers h);
                s3 = s2\<lparr>s_readySent := False\<rparr>;
                oth = other (p_role pr) s3;
                h1 = h\<lparr>hb_timers := ts\<rparr>;
                h2 = (if isEmpty s3
                      then h1\<lparr>hb_sessions := tbl_del (p_sessionID pr) (hb_sessions h1),
                              hb_active := hb_active h1 - 1\<rparr>
                      else h1\<lparr>hb_sessions := tbl_put (p_sessionID pr) s3 (hb_sessions h1)\<rparr>)
            in (h2,
                (case oth of None \<Rightarrow> [] | Some q \<Rightarrow> [Send q byeFrame])
                @ [LogLine (log_at LInfo ''signaling peer left''
                     [(''role'', VStr (p_role pr)), (''session'', VStr (p_label pr)),
                      (''remoteAddr'', VStr (p_addr pr))])]))"

text \<open>\<open>forward\<close> changes no registry state; what it does follows from one lookup.\<close>

definition forward_effects :: "nat \<Rightarrow> string \<Rightarrow> string \<Rightarrow> hub \<Rightarrow> effect list" where
  "forward_effects p frame_type raw h =
     (let pr = hb_peers h p in
      case tbl_get (hb_sessions h) (p_sessionID pr) of
        None \<Rightarrow> []
      | Some s \<Rightarrow>
          if slot (p_role pr) s \<noteq> Some p then []
          else (case other (p_role pr) s of
              None \<Rightarrow>
                [LogLine (log_at LDebug ''signaling frame dropped: no counterpart''
                   [(''role'', VStr (p_role pr)), (''session'', VStr (p_label pr)),
                    (''bytes'', VInt (int (length raw)))])]
            | Some q \<Rightarrow> [CountForwarded frame_type, Send q raw]))"

definition expire_locked :: "nat \<Rightarrow> hub \<Rightarrow> hub \<times> effect list" where
  "expire_locked device h =
     (let pr = hb_peers h device in
      case tbl_get (hb_sessions h) (p_sessionID pr) of
        None \<Rightarrow> (h, [])
      | Some s0 \<Rightarrow>
          if s_device s0 \<noteq> Some device \<or> s_phone s0 \<noteq> None then (h, [])
          else
            let s1 = s0\<lparr>s_lonely := None, s_device := None\<rparr>;
                h1 = (if isEmpty s1
                      then h\<lparr>hb_sessions := tbl_del (p_sessionID pr) (hb_sessions h),
                             hb_active := hb_active h - 1\<rparr>
                      else h\<lparr>hb_sessions := tbl_put (p_sessionID pr) s1 (hb_sessions h)\<rparr>)
            in (h1,
                [CountNoReceiver,
                 LogLine (log_at LInfo ''signaling device had no receiver''
                   [(''session'', VStr (p_label pr)), (''remoteAddr'', VStr (p_addr pr)),
                    (''timeout'', VInt (cfg_NoReceiverTimeout (hb_cfg h)))]),
                 Send device byeFrame, ClosePeer device ''no receiver'']))"

text \<open>\<open>Close\<close>, once the connection goroutines have been waited for.\<close>

definition stop_all :: "(string \<times> session) list \<Rightarrow> (nat \<Rightarrow> timer) \<Rightarrow> (nat \<Rightarrow> timer)" where
  "stop_all ss ts = fold (\<lambda>(k, s) ts. snd (stopLonely s ts)) ss ts"

definition hub_close_body :: "hub \<Rightarrow> hub" where
  "hub_close_body h =
     (let remaining = length (hb_sessions h)
      in h\<lparr>hb_timers := stop_all (hb_sessions h) (hb_timers h), hb_sessions := [],
           hb_active := hb_active h + of_int (- int remaining)\<rparr>)"

definition hub_close :: "hub \<Rightarrow> hub" where
  "hub_close h =
     (let (d, h') = once_do (hb_closed h) hub_close_body h in h'\<lparr>hb_closed := d\<rparr>)"

definition sessionCount :: "hub \<Rightarrow> nat" where
  "sessionCount h = length (hb_sessions h)"

section \<open>The operations as the caller sees them\<close>

record world =
  w_hub :: hub
  w_net :: net

definition hub_join ::
  "join_env \<Rightarrow> joinMessage \<Rightarrow> string \<Rightarrow> world \<Rightarrow> (join_error + nat) \<times> world" where
  "hub_join env m addr w =
     (case join_check m of
        Some e \<Rightarrow> (Inl e, w)
      | None \<Rightarrow>
          let (p, h0) = new_peer env m addr (w_hub w);
              n0 = (w_net w)\<lparr>n_box := (n_box (w_net w))(p := new_box (w_hub w))\<rparr>;
              (h1, locked, replaced) = join_locked env p m h0
          in (Inr p, \<lparr>w_hub = h1, w_net = perform_all (locked @ join_unlocked p replaced h1) n0\<rparr>))"

definition hub_leave :: "nat \<Rightarrow> world \<Rightarrow> world" where
  "hub_leave p w =
     (let (h, es) = leave_locked p (w_hub w) in \<lparr>w_hub = h, w_net = perform_all es (w_net w)\<rparr>)"

definition hub_forward :: "nat \<Rightarrow> string \<Rightarrow> string \<Rightarrow> world \<Rightarrow> world" where
  "hub_forward p frame_type raw w =
     w\<lparr>w_net := perform_all (forward_effects p frame_type raw (w_hub w)) (w_net w)\<rparr>"

definition hub_expire :: "nat \<Rightarrow> world \<Rightarrow> world" where
  "hub_expire p w =
     (let (h, es) = expire_locked p (w_hub w) in \<lparr>w_hub = h, w_net = perform_all es (w_net w)\<rparr>)"

interpretation box_close: one_shot mb_once peer_close
  by unfold_locales (auto simp: peer_close_def once_do_def split_beta)

interpretation box_out: bounded_queue mb_out mb_cap peer_send
  by unfold_locales
     (auto simp: peer_send_def peer_close_def box_has_room_def split_beta)

interpretation box_closing: bounded_queue "\<lambda>q. q" "\<lambda>_. 1" requestClose
  by unfold_locales (auto simp: requestClose_def)

end
