(* ===== verification/HubInv.thy ===== *)
theory HubInv
  imports Hub
begin

text \<open>
  The invariant of the registry and that every operation keeps it: keys are
  distinct, each session is filed under its id and holds a device and a phone that
  are of that role and of that session, no session is empty, ready has been sent
  exactly when both sides are there, a lonely timer belongs to a device that waits
  alone, and the active-session gauge counts the table.
\<close>

section \<open>The invariant\<close>

definition peer_ok :: "hub \<Rightarrow> string \<Rightarrow> string \<Rightarrow> nat \<Rightarrow> bool" where
  "peer_ok h role k p \<longleftrightarrow>
     p < hb_npeers h \<and> p_role (hb_peers h p) = role \<and> p_sessionID (hb_peers h p) = k"

definition lonely_ok :: "hub \<Rightarrow> session \<Rightarrow> bool" where
  "lonely_ok h s \<longleftrightarrow>
     (\<forall>t. s_lonely s = Some t \<longrightarrow>
        s_phone s = None \<and> t < hb_ntimers h \<and> s_device s = Some (tm_peer (hb_timers h t))
        \<and> tm_state (hb_timers h t) \<in> {Armed, Firing}
        \<and> cfg_NoReceiverTimeout (hb_cfg h) > 0)"

definition slots_ok :: "hub \<Rightarrow> string \<Rightarrow> session \<Rightarrow> bool" where
  "slots_ok h k s \<longleftrightarrow>
     s_id s = k
     \<and> (\<forall>d. s_device s = Some d \<longrightarrow> peer_ok h roleDevice k d)
     \<and> (\<forall>q. s_phone s = Some q \<longrightarrow> peer_ok h rolePhone k q)"

definition session_ok :: "hub \<Rightarrow> string \<Rightarrow> session \<Rightarrow> bool" where
  "session_ok h k s \<longleftrightarrow>
     slots_ok h k s \<and> lonely_ok h s \<and> \<not> isEmpty s
     \<and> (s_readySent s \<longleftrightarrow> s_device s \<noteq> None \<and> s_phone s \<noteq> None)"

definition hub_inv :: "64 word \<Rightarrow> hub \<Rightarrow> bool" where
  "hub_inv base h \<longleftrightarrow>
     tbl_wf (hb_sessions h)
     \<and> (\<forall>k s. tbl_get (hb_sessions h) k = Some s \<longrightarrow> session_ok h k s)
     \<and> hb_active h = base + of_nat (length (hb_sessions h))"

text \<open>The peers a registry can reach.\<close>

definition in_slot :: "hub \<Rightarrow> nat \<Rightarrow> bool" where
  "in_slot h p \<longleftrightarrow>
     (\<exists>k s. tbl_get (hb_sessions h) k = Some s \<and> (s_device s = Some p \<or> s_phone s = Some p))"

lemma roles_differ [simp]: "roleDevice \<noteq> rolePhone" "rolePhone \<noteq> roleDevice"
  by (simp_all add: protocol_consts)

lemma hub_invD:
  assumes "hub_inv base h"
  shows "tbl_wf (hb_sessions h)"
    and "tbl_get (hb_sessions h) k = Some s \<Longrightarrow> session_ok h k s"
    and "hb_active h = base + of_nat (length (hb_sessions h))"
  using assms by (auto simp: hub_inv_def)

lemma in_slot_allocated: "hub_inv base h \<Longrightarrow> in_slot h p \<Longrightarrow> p < hb_npeers h"
  by (fastforce simp: hub_inv_def in_slot_def session_ok_def slots_ok_def peer_ok_def)

text \<open>A peer in a slot is in the slot of its own role in its own session, and in no other.\<close>

lemma in_slot_iff:
  assumes "hub_inv base h"
  shows "in_slot h p \<longleftrightarrow>
    (\<exists>s. tbl_get (hb_sessions h) (p_sessionID (hb_peers h p)) = Some s
       \<and> slot (p_role (hb_peers h p)) s = Some p)"
proof
  assume "in_slot h p"
  then obtain k s where k: "tbl_get (hb_sessions h) k = Some s"
    and p: "s_device s = Some p \<or> s_phone s = Some p"
    by (auto simp: in_slot_def)
  from hub_invD(2) [OF assms k] p show "\<exists>s. tbl_get (hb_sessions h) (p_sessionID (hb_peers h p)) = Some s
       \<and> slot (p_role (hb_peers h p)) s = Some p"
    using k by (auto simp: session_ok_def slots_ok_def peer_ok_def slot_def)
next
  assume "\<exists>s. tbl_get (hb_sessions h) (p_sessionID (hb_peers h p)) = Some s
       \<and> slot (p_role (hb_peers h p)) s = Some p"
  then show "in_slot h p" by (auto simp: in_slot_def slot_def split: if_splits)
qed

lemma slot_unique:
  assumes "hub_inv base h"
    "tbl_get (hb_sessions h) k = Some s" "s_device s = Some p \<or> s_phone s = Some p"
    "tbl_get (hb_sessions h) k' = Some s'" "s_device s' = Some p \<or> s_phone s' = Some p"
  shows "k = k'"
  using hub_invD(2) [OF assms(1,2)] hub_invD(2) [OF assms(1,4)] assms(3,5)
  by (auto simp: session_ok_def slots_ok_def peer_ok_def)

text \<open>What a session's invariant reads of the heaps.\<close>

lemma session_ok_frame:
  assumes "session_ok h k s"
    and "\<And>p. p < hb_npeers h \<Longrightarrow> hb_peers h' p = hb_peers h p" "hb_npeers h \<le> hb_npeers h'"
    and "\<And>t. s_lonely s = Some t \<Longrightarrow> t < hb_ntimers h \<Longrightarrow> hb_timers h' t = hb_timers h t"
    and "hb_ntimers h \<le> hb_ntimers h'" "hb_cfg h' = hb_cfg h"
  shows "session_ok h' k s"
  using assms by (fastforce simp: session_ok_def slots_ok_def peer_ok_def lonely_ok_def)

section \<open>New, new peers\<close>

lemma hub_new_inv: "hub_new oc active = Inr h \<Longrightarrow> hub_inv active h"
  by (auto simp: hub_new_def hub_inv_def Let_def split: option.splits if_splits)

lemma new_peer_inv:
  assumes "hub_inv base h" "new_peer env m addr h = (p, h0)"
  shows "hub_inv base h0" "p < hb_npeers h0" "\<not> in_slot h0 p" "p_role (hb_peers h0 p) = jm_Role m"
proof -
  have h0: "hb_sessions h0 = hb_sessions h" "hb_active h0 = hb_active h" "p = hb_npeers h"
    "hb_timers h0 = hb_timers h" "hb_ntimers h0 = hb_ntimers h" "hb_cfg h0 = hb_cfg h"
    "\<And>q. q < hb_npeers h \<Longrightarrow> hb_peers h0 q = hb_peers h q" "hb_npeers h \<le> hb_npeers h0"
    using assms(2) by (auto simp: new_peer_def)
  have "session_ok h0 k s" if "tbl_get (hb_sessions h) k = Some s" for k s
    using hub_invD(2) [OF assms(1) that] h0 by (elim session_ok_frame) auto
  then show "hub_inv base h0" using assms(1) h0 by (simp add: hub_inv_def)
  show "p < hb_npeers h0" "p_role (hb_peers h0 p) = jm_Role m"
    using assms(2) by (auto simp: new_peer_def)
  have "\<not> in_slot h p" using in_slot_allocated [OF assms(1)] h0(3) by blast
  then show "\<not> in_slot h0 p" by (simp add: in_slot_def h0)
qed

section \<open>join\<close>

lemma find_session_spec:
  assumes "hub_inv base h" "find_session env k label h = (s, h0)"
  shows "hb_peers h0 = hb_peers h" "hb_npeers h0 = hb_npeers h" "hb_timers h0 = hb_timers h"
    "hb_ntimers h0 = hb_ntimers h" "hb_cfg h0 = hb_cfg h"
    "tbl_wf (hb_sessions h0)" "tbl_get (hb_sessions h0) k = Some s"
    "j \<noteq> k \<Longrightarrow> tbl_get (hb_sessions h0) j = tbl_get (hb_sessions h) j"
    "hb_active h0 = base + of_nat (length (hb_sessions h0))"
    "slots_ok h k s" "lonely_ok h s"
    "s_readySent s \<longleftrightarrow> s_device s \<noteq> None \<and> s_phone s \<noteq> None"
    "tbl_get (hb_sessions h) k \<noteq> None \<Longrightarrow> tbl_get (hb_sessions h) k = Some s"
    "tbl_get (hb_sessions h) k = None \<Longrightarrow> s_device s = None \<and> s_phone s = None"
proof -
  note inv = hub_invD [OF assms(1)]
  have "length (tbl_put k x (hb_sessions h)) = Suc (length (hb_sessions h))"
    if "tbl_get (hb_sessions h) k = None" for x
    using tbl.size_put_new [OF inv(1) that, of x] by simp
  then show "hb_active h0 = base + of_nat (length (hb_sessions h0))"
    using assms(2) inv(3)
    by (auto simp: find_session_def Let_def add.assoc split: option.splits)
qed (use assms(2) hub_invD [OF assms(1)] in
      \<open>auto simp: find_session_def Let_def tbl.get_put tbl.wf_put session_ok_def slots_ok_def lonely_ok_def
         split: option.splits\<close>)

text \<open>The three outcomes of the pairing decision.\<close>

lemma pair_up_cases:
  assumes "pair_up p s h = (s', h', es)"
  obtains
    (paired) d q where "s_device s = Some d" "s_phone s = Some q"
      "s' = s\<lparr>s_lonely := None, s_readySent := True\<rparr>"
      "h' = h\<lparr>hb_timers := snd (stopLonely s (hb_timers h))\<rparr>"
      "es = (if s_readySent s then []
             else [Send d (readyFrame (hb_cfg h) s' False), Send q (readyFrame (hb_cfg h) s' True)])"
  | (armed) "s_device s = None \<or> s_phone s = None"
      "p_role (hb_peers h p) = roleDevice" "cfg_NoReceiverTimeout (hb_cfg h) > 0"
      "s' = s\<lparr>s_lonely := Some (hb_ntimers h)\<rparr>"
      "h' = h\<lparr>hb_timers := (hb_timers h)(hb_ntimers h :=
               \<lparr>tm_peer = p, tm_after = cfg_NoReceiverTimeout (hb_cfg h), tm_state = Armed\<rparr>),
             hb_ntimers := Suc (hb_ntimers h)\<rparr>" "es = []"
  | (waits) "s_device s = None \<or> s_phone s = None"
      "\<not> (p_role (hb_peers h p) = roleDevice \<and> cfg_NoReceiverTimeout (hb_cfg h) > 0)"
      "s' = s" "h' = h" "es = []"
proof (cases "s_device s = None \<or> s_phone s = None")
  case True
  then have "pair_up p s h =
      (if p_role (hb_peers h p) = roleDevice \<and> cfg_NoReceiverTimeout (hb_cfg h) > 0
       then (s\<lparr>s_lonely := Some (hb_ntimers h)\<rparr>,
             h\<lparr>hb_timers := (hb_timers h)(hb_ntimers h :=
                 \<lparr>tm_peer = p, tm_after = cfg_NoReceiverTimeout (hb_cfg h), tm_state = Armed\<rparr>),
               hb_ntimers := Suc (hb_ntimers h)\<rparr>, [])
       else (s, h, []))"
    by (auto simp: pair_up_def split: option.splits)
  then show ?thesis using True assms armed waits by (auto split: if_splits)
next
  case False
  then obtain d q where dq: "s_device s = Some d" "s_phone s = Some q" by auto
  obtain ts where st: "stopLonely s (hb_timers h) = (s\<lparr>s_lonely := None\<rparr>, ts)"
    by (cases "s_lonely s") (simp_all add: stopLonely_def)
  have rs: "s\<lparr>s_lonely := None\<rparr> = s\<lparr>s_lonely := None, s_readySent := True\<rparr>" if "s_readySent s"
    using that by (cases s) simp
  have pu: "pair_up p s h =
      (if s_readySent s then (s\<lparr>s_lonely := None\<rparr>, h\<lparr>hb_timers := ts\<rparr>, [])
       else (s\<lparr>s_lonely := None, s_readySent := True\<rparr>, h\<lparr>hb_timers := ts\<rparr>,
             [Send d (readyFrame (hb_cfg h) (s\<lparr>s_lonely := None, s_readySent := True\<rparr>) False),
              Send q (readyFrame (hb_cfg h) (s\<lparr>s_lonely := None, s_readySent := True\<rparr>) True)]))"
    by (simp add: pair_up_def dq st Let_def)
  show ?thesis
    by (rule paired [OF dq]) (use assms pu st rs in \<open>auto split: if_splits\<close>)
qed

lemma stopLonely_other: "s_lonely s \<noteq> Some t \<Longrightarrow> snd (stopLonely s ts) t = ts t"
  by (auto simp: stopLonely_def split: option.splits)

lemma pair_up_frame:
  assumes "pair_up p s h = (s', h', es)"
  shows "hb_peers h' = hb_peers h" "hb_npeers h' = hb_npeers h" "hb_sessions h' = hb_sessions h"
    "hb_active h' = hb_active h" "hb_cfg h' = hb_cfg h" "hb_ntimers h \<le> hb_ntimers h'"
    "s_device s' = s_device s" "s_phone s' = s_phone s" "s_id s' = s_id s"
    "s_turnToken s' = s_turnToken s"
    "t < hb_ntimers h \<Longrightarrow> s_lonely s \<noteq> Some t \<Longrightarrow> hb_timers h' t = hb_timers h t"
  using assms by (auto elim!: pair_up_cases simp: stopLonely_other)

lemma pair_up_ok:
  assumes "pair_up p s h = (s', h', es)" "slots_ok h k s"
    and "slot (p_role (hb_peers h p)) s = Some p" "p_role (hb_peers h p) \<in> {roleDevice, rolePhone}"
    and "s_device s = None \<Longrightarrow> s_lonely s = None"
    and "s_readySent s \<Longrightarrow> s_device s \<noteq> None \<and> s_phone s \<noteq> None"
    and "s_lonely s \<noteq> None \<Longrightarrow> cfg_NoReceiverTimeout (hb_cfg h) > 0"
  shows "session_ok h' k s'"
  using assms(1)
proof (cases rule: pair_up_cases)
  case (paired d q)
  then show ?thesis using assms(2)
    by (auto simp: session_ok_def slots_ok_def peer_ok_def lonely_ok_def isEmpty_def)
next
  case armed
  then have "s_device s = Some p" "s_phone s = None"
    using assms(3) by (auto simp: slot_def)
  then show ?thesis using armed assms(2,6)
    by (auto simp: session_ok_def slots_ok_def peer_ok_def lonely_ok_def isEmpty_def)
next
  case waits
  have "s_lonely s = None"
  proof (cases "p_role (hb_peers h p) = roleDevice")
    case True then show ?thesis using waits assms(7) by blast
  next
    case False
    then have "s_phone s = Some p" using assms(3) by (simp add: slot_def)
    then show ?thesis using waits assms(5) by simp
  qed
  moreover have "\<not> isEmpty s" using assms(3) by (auto simp: slot_def isEmpty_def split: if_splits)
  ultimately show ?thesis using waits assms(2,6)
    by (auto simp: session_ok_def lonely_ok_def)
qed

text \<open>The registry after the critical section of a join, in one statement.\<close>

lemma slot_setSlot [simp]: "slot role (setSlot role p s) = p"
  by (simp add: slot_def setSlot_def)

lemma setSlot_fields [simp]:
  "s_id (setSlot role p s) = s_id s" "s_lonely (setSlot role p s) = s_lonely s"
  "s_readySent (setSlot role p s) = s_readySent s" "s_turnToken (setSlot role p s) = s_turnToken s"
  "s_imei (setSlot role p s) = s_imei s" "s_label (setSlot role p s) = s_label s"
  by (simp_all add: setSlot_def)

definition join_slots ::
  "joinMessage \<Rightarrow> peer \<Rightarrow> nat \<Rightarrow> session \<Rightarrow> session" where
  "join_slots m pr p s0 =
     (let s1 = (if jm_Imei m \<noteq> [] then s0\<lparr>s_imei := jm_Imei m\<rparr> else s0);
          s2 = setSlot (p_role pr) (Some p) s1
      in if slot (p_role pr) s1 \<noteq> None then s2\<lparr>s_readySent := False\<rparr> else s2)"

lemma join_slots_fields [simp]:
  "s_id (join_slots m pr p s) = s_id s" "s_lonely (join_slots m pr p s) = s_lonely s"
  "s_turnToken (join_slots m pr p s) = s_turnToken s"
  "slot (p_role pr) (join_slots m pr p s) = Some p"
  by (auto simp: join_slots_def Let_def slot_def setSlot_def)

lemma join_slots_sides:
  "p_role pr = roleDevice \<Longrightarrow> s_device (join_slots m pr p s) = Some p \<and> s_phone (join_slots m pr p s) = s_phone s"
  "p_role pr \<noteq> roleDevice \<Longrightarrow> s_phone (join_slots m pr p s) = Some p \<and> s_device (join_slots m pr p s) = s_device s"
  by (auto simp: join_slots_def Let_def setSlot_def)

lemma join_slots_ready:
  "s_readySent (join_slots m pr p s) \<longleftrightarrow> s_readySent s \<and> slot (p_role pr) s = None"
  by (auto simp: join_slots_def Let_def slot_def)

lemma join_locked_eq:
  assumes "find_session env (p_sessionID (hb_peers h p)) (jm_Session m) h = (s0, h0)"
    "pair_up p (join_slots m (hb_peers h p) p s0) h0 = (s4, h1, ready)"
  shows "join_locked env p m h =
    (h1\<lparr>hb_sessions := tbl_put (p_sessionID (hb_peers h p)) s4 (hb_sessions h1)\<rparr>,
     Send p joinedFrame # ready
       @ announceJoin (je_visit env) p (jm_Session m)
           (tbl_put (p_sessionID (hb_peers h p)) s4 (hb_sessions h1)),
     slot (p_role (hb_peers h p)) s0)"
proof -
  have "slot r (if b then s0\<lparr>s_imei := i\<rparr> else s0) = slot r s0" for r b i
    by (simp add: slot_def)
  then show ?thesis
    using assms by (simp add: join_locked_def join_slots_def Let_def cong: if_cong)
qed

text \<open>A session the join is not about keeps its timer: the device it waits for is another one.\<close>

lemma other_timer_kept:
  assumes inv: "hub_inv base h" and f: "find_session env k label h = (s0, h0)"
    and j: "j \<noteq> k" "tbl_get (hb_sessions h) j = Some s" and t: "s_lonely s = Some t"
  shows "s_lonely s0 \<noteq> Some t"
proof
  note fs = find_session_spec [OF inv f] and so = hub_invD(2) [OF inv j(2)]
  assume "s_lonely s0 = Some t"
  then have "s_device s0 = Some (tm_peer (hb_timers h t))" using fs(11) by (simp add: lonely_ok_def)
  moreover have "s_device s = Some (tm_peer (hb_timers h t))"
    using so t by (simp add: session_ok_def lonely_ok_def)
  ultimately show False
    using fs(10) so j(1) by (auto simp: session_ok_def slots_ok_def peer_ok_def)
qed

text \<open>The session of the join.\<close>

lemma joined_session_ok:
  assumes inv: "hub_inv base h" and p: "p < hb_npeers h"
    and role: "p_role (hb_peers h p) \<in> {roleDevice, rolePhone}"
    and f: "find_session env (p_sessionID (hb_peers h p)) label h = (s0, h0)"
    and pu: "pair_up p (join_slots m (hb_peers h p) p s0) h0 = (s4, h1, ready)"
  shows "session_ok h1 (p_sessionID (hb_peers h p)) s4"
proof -
  let ?pr = "hb_peers h p" and ?k = "p_sessionID (hb_peers h p)"
  let ?s3 = "join_slots m ?pr p s0"
  note fs = find_session_spec [OF inv f]
  have slots: "slots_ok h0 ?k ?s3"
    using fs(10) p role fs(1,2) join_slots_sides [of ?pr m p s0]
    by (cases "p_role ?pr = roleDevice") (auto simp: slots_ok_def peer_ok_def)
  show ?thesis
  proof (rule pair_up_ok [OF pu slots])
    show "slot (p_role (hb_peers h0 p)) ?s3 = Some p" by (simp add: fs(1))
    show "p_role (hb_peers h0 p) \<in> {roleDevice, rolePhone}" using role by (simp add: fs(1))
    show "s_device ?s3 = None \<Longrightarrow> s_lonely ?s3 = None"
      using fs(11) join_slots_sides [of ?pr m p s0]
      by (cases "p_role ?pr = roleDevice"; cases "s_lonely s0") (auto simp: lonely_ok_def)
    show "s_readySent ?s3 \<Longrightarrow> s_device ?s3 \<noteq> None \<and> s_phone ?s3 \<noteq> None"
      using fs(12) by (auto simp: join_slots_ready slot_def split: if_splits)
    show "s_lonely ?s3 \<noteq> None \<Longrightarrow> 0 < cfg_NoReceiverTimeout (hb_cfg h0)"
      using fs(5,11) by (auto simp: lonely_ok_def)
  qed
qed

lemma join_locked_inv:
  assumes inv: "hub_inv base h" and p: "p < hb_npeers h"
    and role: "p_role (hb_peers h p) \<in> {roleDevice, rolePhone}"
  shows "hub_inv base (fst (join_locked env p m h))"
proof -
  let ?pr = "hb_peers h p" and ?k = "p_sessionID (hb_peers h p)"
  obtain s0 h0 where f: "find_session env ?k (jm_Session m) h = (s0, h0)" by force
  let ?s3 = "join_slots m ?pr p s0"
  obtain s4 h1 ready where pu: "pair_up p ?s3 h0 = (s4, h1, ready)" by (metis prod_cases3)
  note fs = find_session_spec [OF inv f]
  note pf = pair_up_frame [OF pu]
  have ok: "session_ok h1 ?k s4" by (rule joined_session_ok [OF inv p role f pu])
  have others: "session_ok h1 j s" if j: "j \<noteq> ?k" "tbl_get (hb_sessions h) j = Some s" for j s
  proof (rule session_ok_frame [OF hub_invD(2) [OF inv j(2)]])
    fix t assume t: "s_lonely s = Some t" "t < hb_ntimers h"
    have "s_lonely s0 \<noteq> Some t" by (rule other_timer_kept [OF inv f j t(1)])
    then show "hb_timers h1 t = hb_timers h t"
      using pf(11) [of t] t fs(3,4) by simp
  qed (use pf fs in auto)
  let ?ss = "tbl_put ?k s4 (hb_sessions h1)"
  have wf: "tbl_wf ?ss" using fs(6) pf(3) by (simp add: tbl.wf_put)
  have len: "length ?ss = length (hb_sessions h0)"
    using tbl.size_put_old [OF fs(6), of ?k s4] fs(7) pf(3) by simp
  have "session_ok (h1\<lparr>hb_sessions := ?ss\<rparr>) j s" if "tbl_get ?ss j = Some s" for j s
  proof -
    have "session_ok h1 j s"
    proof (cases "j = ?k")
      case True then show ?thesis using ok that by (simp add: tbl.get_put)
    next
      case False
      then have "tbl_get (hb_sessions h) j = Some s"
        using that fs(8) pf(3) by (simp add: tbl.get_put)
      then show ?thesis using others [OF False] by simp
    qed
    then show ?thesis by (rule session_ok_frame) auto
  qed
  then show ?thesis
    using wf len fs(9) pf(4) by (simp add: join_locked_eq [OF f pu] hub_inv_def)
qed

text \<open>The heap fields and the configuration are never changed by a critical section.\<close>

lemma find_session_frame:
  "find_session env k label h = (s, h0) \<Longrightarrow>
   hb_peers h0 = hb_peers h \<and> hb_npeers h0 = hb_npeers h \<and> hb_cfg h0 = hb_cfg h
   \<and> hb_closed h0 = hb_closed h \<and> hb_timers h0 = hb_timers h \<and> hb_ntimers h0 = hb_ntimers h"
  by (auto simp: find_session_def Let_def split: option.splits)

lemma join_locked_frame:
  "hb_peers (fst (join_locked env p m h)) = hb_peers h"
  "hb_npeers (fst (join_locked env p m h)) = hb_npeers h"
  "hb_cfg (fst (join_locked env p m h)) = hb_cfg h"
  "hb_closed (fst (join_locked env p m h)) = hb_closed h"
proof -
  obtain s0 h0 where f: "find_session env (p_sessionID (hb_peers h p)) (jm_Session m) h = (s0, h0)"
    by force
  obtain s4 h1 ready where pu: "pair_up p (join_slots m (hb_peers h p) p s0) h0 = (s4, h1, ready)"
    by (metis prod_cases3)
  have c: "hb_closed h1 = hb_closed h0" using pu by (auto elim!: pair_up_cases)
  show "hb_peers (fst (join_locked env p m h)) = hb_peers h"
    "hb_npeers (fst (join_locked env p m h)) = hb_npeers h"
    "hb_cfg (fst (join_locked env p m h)) = hb_cfg h"
    "hb_closed (fst (join_locked env p m h)) = hb_closed h"
    using find_session_frame [OF f] pair_up_frame [OF pu] c by (simp_all add: join_locked_eq [OF f pu])
qed

section \<open>leave and expireLonely\<close>

text \<open>
  Both remove one peer from its slot and drop the session when nobody is left in it.
  \<open>drop_or_keep\<close> is that last step.
\<close>

definition drop_or_keep :: "string \<Rightarrow> session \<Rightarrow> hub \<Rightarrow> hub" where
  "drop_or_keep k s h =
     (if isEmpty s
      then h\<lparr>hb_sessions := tbl_del k (hb_sessions h), hb_active := hb_active h - 1\<rparr>
      else h\<lparr>hb_sessions := tbl_put k s (hb_sessions h)\<rparr>)"

lemma drop_or_keep_inv:
  assumes wf: "tbl_wf (hb_sessions h)" and act: "hb_active h = base + of_nat (length (hb_sessions h))"
    and old: "tbl_get (hb_sessions h) k \<noteq> None"
    and ok: "\<not> isEmpty s \<Longrightarrow> session_ok h k s"
    and others: "\<And>j t. j \<noteq> k \<Longrightarrow> tbl_get (hb_sessions h) j = Some t \<Longrightarrow> session_ok h j t"
  shows "hub_inv base (drop_or_keep k s h)"
proof -
  have frame: "session_ok (drop_or_keep k s h) j t" if "session_ok h j t" for j t
    using that by (rule session_ok_frame) (auto simp: drop_or_keep_def)
  have get: "tbl_get (hb_sessions (drop_or_keep k s h)) j = Some t \<Longrightarrow> session_ok h j t" for j t
    using ok others by (auto simp: drop_or_keep_def tbl.get_put tbl.get_del split: if_splits)
  have "length (tbl_put k s (hb_sessions h)) = length (hb_sessions h)"
    using tbl.size_put_old [OF wf old, of s] by simp
  moreover have "of_nat (length (hb_sessions h)) = of_nat (length (tbl_del k (hb_sessions h))) + (1 :: 64 word)"
    using tbl.size_del [OF wf old] by (metis length_tbl_keys of_nat_Suc add.commute)
  ultimately have "hb_active (drop_or_keep k s h) = base + of_nat (length (hb_sessions (drop_or_keep k s h)))"
    using act by (simp add: drop_or_keep_def)
  then show ?thesis
    using frame get wf by (auto simp: hub_inv_def) (simp add: drop_or_keep_def tbl.wf_put tbl.wf_del)
qed

text \<open>The state of \<open>leave\<close> once the peer is found in its slot.\<close>

definition leave_session :: "peer \<Rightarrow> session \<Rightarrow> session" where
  "leave_session pr s0 = (setSlot (p_role pr) None s0)\<lparr>s_lonely := None, s_readySent := False\<rparr>"

lemma leave_locked_hit:
  assumes "tbl_get (hb_sessions h) (p_sessionID (hb_peers h p)) = Some s0"
    "slot (p_role (hb_peers h p)) s0 = Some p"
  shows "leave_locked p h =
    (drop_or_keep (p_sessionID (hb_peers h p)) (leave_session (hb_peers h p) s0)
       (h\<lparr>hb_timers := snd (stopLonely s0 (hb_timers h))\<rparr>),
     (case other (p_role (hb_peers h p)) s0 of None \<Rightarrow> [] | Some q \<Rightarrow> [Send q byeFrame])
       @ [LogLine (log_at LInfo ''signaling peer left''
            [(''role'', VStr (p_role (hb_peers h p))), (''session'', VStr (p_label (hb_peers h p))),
             (''remoteAddr'', VStr (p_addr (hb_peers h p)))])])"
proof -
  have st: "stopLonely (setSlot r None s0) ts =
      ((setSlot r None s0)\<lparr>s_lonely := None\<rparr>, snd (stopLonely s0 ts))" for r ts
    by (cases s0) (simp add: stopLonely_def setSlot_def split: option.splits)
  have o: "other r (leave_session (hb_peers h p) s0) = other r s0" if "r = p_role (hb_peers h p)" for r
    using that by (simp add: other_def leave_session_def setSlot_def)
  show ?thesis
    using assms o by (simp add: leave_locked_def Let_def st drop_or_keep_def leave_session_def)
qed

lemma leave_locked_miss:
  assumes "\<And>s. tbl_get (hb_sessions h) (p_sessionID (hb_peers h p)) = Some s \<Longrightarrow>
    slot (p_role (hb_peers h p)) s \<noteq> Some p"
  shows "leave_locked p h = (h, [])"
  using assms by (simp add: leave_locked_def Let_def split: option.splits)

text \<open>No other session holds the lonely timer of this one.\<close>

lemma lonely_unique:
  assumes "hub_inv base h" "tbl_get (hb_sessions h) k = Some s" "s_lonely s = Some t"
    "tbl_get (hb_sessions h) j = Some s'" "s_lonely s' = Some t"
  shows "j = k"
proof -
  have "s_device s = Some (tm_peer (hb_timers h t))" "s_device s' = Some (tm_peer (hb_timers h t))"
    using hub_invD(2) [OF assms(1,2)] hub_invD(2) [OF assms(1,4)] assms(3,5)
    by (auto simp: session_ok_def lonely_ok_def)
  then show ?thesis using slot_unique [OF assms(1,4) _ assms(2)] by blast
qed

lemma leave_locked_inv:
  assumes inv: "hub_inv base h"
  shows "hub_inv base (fst (leave_locked p h))"
proof (cases "\<exists>s. tbl_get (hb_sessions h) (p_sessionID (hb_peers h p)) = Some s
    \<and> slot (p_role (hb_peers h p)) s = Some p")
  case False
  then have "leave_locked p h = (h, [])" by (intro leave_locked_miss) auto
  then show ?thesis using inv by simp
next
  case True
  let ?pr = "hb_peers h p" and ?k = "p_sessionID (hb_peers h p)"
  from True obtain s0 where s0: "tbl_get (hb_sessions h) ?k = Some s0" "slot (p_role ?pr) s0 = Some p"
    by blast
  let ?h1 = "h\<lparr>hb_timers := snd (stopLonely s0 (hb_timers h))\<rparr>"
  have "session_ok ?h1 ?k (leave_session ?pr s0)" if "\<not> isEmpty (leave_session ?pr s0)"
    using hub_invD(2) [OF inv s0(1)] that
    by (auto simp: leave_session_def session_ok_def slots_ok_def peer_ok_def lonely_ok_def
        setSlot_def isEmpty_def split: if_splits)
  moreover have "session_ok ?h1 j t" if j: "j \<noteq> ?k" "tbl_get (hb_sessions h) j = Some t" for j t
    using hub_invD(2) [OF inv j(2)]
  proof (rule session_ok_frame)
    fix u assume "s_lonely t = Some u"
    then have "s_lonely s0 \<noteq> Some u" using lonely_unique [OF inv s0(1) _ j(2)] j(1) by blast
    then show "hb_timers ?h1 u = hb_timers h u" by (simp add: stopLonely_other)
  qed auto
  ultimately have "hub_inv base (drop_or_keep ?k (leave_session ?pr s0) ?h1)"
    using hub_invD [OF inv] s0(1) by (intro drop_or_keep_inv) auto
  then show ?thesis by (simp add: leave_locked_hit [OF s0])
qed

lemma expire_locked_hit:
  assumes "tbl_get (hb_sessions h) (p_sessionID (hb_peers h p)) = Some s0"
    "s_device s0 = Some p" "s_phone s0 = None"
  shows "expire_locked p h =
    (h\<lparr>hb_sessions := tbl_del (p_sessionID (hb_peers h p)) (hb_sessions h),
       hb_active := hb_active h - 1\<rparr>,
     [CountNoReceiver,
      LogLine (log_at LInfo ''signaling device had no receiver''
        [(''session'', VStr (p_label (hb_peers h p))), (''remoteAddr'', VStr (p_addr (hb_peers h p))),
         (''timeout'', VInt (cfg_NoReceiverTimeout (hb_cfg h)))]),
      Send p byeFrame, ClosePeer p ''no receiver''])"
  using assms by (simp add: expire_locked_def Let_def isEmpty_def)

lemma expire_locked_miss:
  assumes "\<And>s. tbl_get (hb_sessions h) (p_sessionID (hb_peers h p)) = Some s \<Longrightarrow>
    \<not> (s_device s = Some p \<and> s_phone s = None)"
  shows "expire_locked p h = (h, [])"
  using assms by (auto simp: expire_locked_def Let_def split: option.splits)

lemma expire_locked_inv:
  assumes inv: "hub_inv base h"
  shows "hub_inv base (fst (expire_locked p h))"
proof (cases "\<exists>s. tbl_get (hb_sessions h) (p_sessionID (hb_peers h p)) = Some s
    \<and> s_device s = Some p \<and> s_phone s = None")
  case False
  then have "expire_locked p h = (h, [])" by (intro expire_locked_miss) auto
  then show ?thesis using inv by simp
next
  case True
  let ?k = "p_sessionID (hb_peers h p)"
  from True obtain s0 where s0: "tbl_get (hb_sessions h) ?k = Some s0"
    "s_device s0 = Some p" "s_phone s0 = None" by blast
  let ?s1 = "s0\<lparr>s_lonely := None, s_device := None\<rparr>"
  have "hub_inv base (drop_or_keep ?k ?s1 h)"
    using hub_invD [OF inv] s0 by (intro drop_or_keep_inv) (auto simp: isEmpty_def)
  moreover have "fst (expire_locked p h) = drop_or_keep ?k ?s1 h"
    using s0 by (simp add: expire_locked_hit drop_or_keep_def isEmpty_def)
  ultimately show ?thesis by simp
qed

lemma leave_locked_frame:
  "hb_peers (fst (leave_locked p h)) = hb_peers h"
  "hb_npeers (fst (leave_locked p h)) = hb_npeers h"
  "hb_cfg (fst (leave_locked p h)) = hb_cfg h"
  "hb_closed (fst (leave_locked p h)) = hb_closed h"
  by (cases "\<exists>s. tbl_get (hb_sessions h) (p_sessionID (hb_peers h p)) = Some s
        \<and> slot (p_role (hb_peers h p)) s = Some p";
      force simp: leave_locked_hit leave_locked_miss drop_or_keep_def)+

lemma expire_locked_frame:
  "hb_peers (fst (expire_locked p h)) = hb_peers h"
  "hb_npeers (fst (expire_locked p h)) = hb_npeers h"
  "hb_timers (fst (expire_locked p h)) = hb_timers h"
  "hb_cfg (fst (expire_locked p h)) = hb_cfg h"
  "hb_closed (fst (expire_locked p h)) = hb_closed h"
  by (cases "\<exists>s. tbl_get (hb_sessions h) (p_sessionID (hb_peers h p)) = Some s
        \<and> s_device s = Some p \<and> s_phone s = None";
      force simp: expire_locked_hit expire_locked_miss)+

section \<open>Close and the operations on the world\<close>

lemma hub_close_inv:
  assumes "hub_inv base h"
  shows "hub_inv base (hub_close h)"
proof (cases "hb_closed h")
  case True
  have "session_ok (h\<lparr>hb_closed := True\<rparr>) k s" if "session_ok h k s" for k s
    using that by (rule session_ok_frame) auto
  then show ?thesis using assms True by (auto simp: hub_close_def once_do_def hub_inv_def)
next
  case False
  have "hb_active h + of_int (- int (length (hb_sessions h))) = base"
    using hub_invD(3) [OF assms] by simp
  then show ?thesis using False
    by (simp add: hub_close_def once_do_def hub_close_body_def Let_def hub_inv_def)
qed

lemma join_check_None:
  "join_check m = None \<longleftrightarrow> jm_Session m \<noteq> [] \<and> jm_Role m \<in> {roleDevice, rolePhone}"
  by (auto simp: join_check_def)

lemma hub_join_eq:
  assumes "join_check m = None" "new_peer env m addr (w_hub w) = (p, h0)"
  shows "hub_join env m addr w =
    (Inr p,
     \<lparr>w_hub = fst (join_locked env p m h0),
      w_net = perform_all (fst (snd (join_locked env p m h0))
                @ join_unlocked p (snd (snd (join_locked env p m h0))) (fst (join_locked env p m h0)))
              ((w_net w)\<lparr>n_box := (n_box (w_net w))(p := new_box (w_hub w))\<rparr>)\<rparr>)"
  using assms by (simp add: hub_join_def split_beta)

lemma hub_join_inv:
  assumes "hub_inv base (w_hub w)"
  shows "hub_inv base (w_hub (snd (hub_join env m addr w)))"
proof (cases "join_check m")
  case None
  obtain p h0 where np: "new_peer env m addr (w_hub w) = (p, h0)" by force
  note n = new_peer_inv [OF assms np]
  have "p_role (hb_peers h0 p) \<in> {roleDevice, rolePhone}"
    using None n(4) by (simp add: join_check_None)
  then show ?thesis using join_locked_inv [OF n(1,2)] by (simp add: hub_join_eq [OF None np])
next
  case (Some e)
  then show ?thesis using assms by (simp add: hub_join_def)
qed

lemma hub_leave_inv: "hub_inv base (w_hub w) \<Longrightarrow> hub_inv base (w_hub (hub_leave p w))"
  using leave_locked_inv [of base "w_hub w" p] by (simp add: hub_leave_def split_beta)

lemma hub_expire_inv: "hub_inv base (w_hub w) \<Longrightarrow> hub_inv base (w_hub (hub_expire p w))"
  using expire_locked_inv [of base "w_hub w" p] by (simp add: hub_expire_def split_beta)

lemma hub_forward_hub [simp]: "w_hub (hub_forward p ft raw w) = w_hub w"
  by (simp add: hub_forward_def)

end
