(* ===== verification/HubProps.thy ===== *)
theory HubProps
  imports HubInv "HOL-Library.Multiset"
begin

text \<open>
  What each hub operation does, stated against an abstract pairing table: which
  device and phone every session id has.  The refinement lemmas say how join, leave
  and the lonely timeout move that table, the functional lemmas which frames go to
  whom, and the mailbox lemmas what a burst of frames does to a peer that does not
  drain its queue.
\<close>

section \<open>The abstract pairing table\<close>

type_synonym pairing = "string \<Rightarrow> nat option \<times> nat option"

definition pairing :: "hub \<Rightarrow> pairing" where
  "pairing h k =
     (case tbl_get (hb_sessions h) k of None \<Rightarrow> (None, None) | Some s \<Rightarrow> (s_device s, s_phone s))"

definition side :: "string \<Rightarrow> nat option \<times> nat option \<Rightarrow> nat option" where
  "side role pq = (if role = roleDevice then fst pq else snd pq)"

definition set_side :: "string \<Rightarrow> nat option \<Rightarrow> nat option \<times> nat option \<Rightarrow> nat option \<times> nat option" where
  "set_side role p pq = (if role = roleDevice then (p, snd pq) else (fst pq, p))"

definition spec_join :: "string \<Rightarrow> string \<Rightarrow> nat \<Rightarrow> pairing \<Rightarrow> pairing" where
  "spec_join role k p A = A(k := set_side role (Some p) (A k))"

definition spec_leave :: "string \<Rightarrow> string \<Rightarrow> nat \<Rightarrow> pairing \<Rightarrow> pairing" where
  "spec_leave role k p A =
     (if side role (A k) = Some p then A(k := set_side role None (A k)) else A)"

definition spec_expire :: "string \<Rightarrow> nat \<Rightarrow> pairing \<Rightarrow> pairing" where
  "spec_expire k p A = (if A k = (Some p, None) then A(k := (None, None)) else A)"

lemma side_slot: "tbl_get (hb_sessions h) k = Some s \<Longrightarrow> side role (pairing h k) = slot role s"
  by (simp add: side_def pairing_def slot_def)

lemma pairing_put:
  "pairing (h\<lparr>hb_sessions := tbl_put k s ss\<rparr>) =
     (\<lambda>j. if j = k then (s_device s, s_phone s)
          else case tbl_get ss j of None \<Rightarrow> (None, None) | Some s \<Rightarrow> (s_device s, s_phone s))"
  by (auto simp: pairing_def tbl.get_put)

lemma join_refines:
  assumes inv: "hub_inv base h"
  shows "pairing (fst (join_locked env p m h)) =
    spec_join (p_role (hb_peers h p)) (p_sessionID (hb_peers h p)) p (pairing h)"
proof -
  let ?pr = "hb_peers h p" and ?k = "p_sessionID (hb_peers h p)"
  obtain s0 h0 where f: "find_session env ?k (jm_Session m) h = (s0, h0)" by force
  obtain s4 h1 ready where pu: "pair_up p (join_slots m ?pr p s0) h0 = (s4, h1, ready)"
    by (metis prod_cases3)
  note fs = find_session_spec [OF inv f]
  note pf = pair_up_frame [OF pu]
  have k: "(s_device s0, s_phone s0) = pairing h ?k"
    using fs(13,14) by (cases "tbl_get (hb_sessions h) ?k") (auto simp: pairing_def)
  have "(s_device s4, s_phone s4) = set_side (p_role ?pr) (Some p) (pairing h ?k)"
    using pf(7,8) join_slots_sides [of ?pr m p s0]
    by (cases "p_role ?pr = roleDevice") (simp_all add: set_side_def k [symmetric])
  then show ?thesis
    using fs(8) pf(3)
    by (auto simp: join_locked_eq [OF f pu] spec_join_def fun_eq_iff pairing_put)
       (auto simp: pairing_def)
qed

lemma pairing_drop_or_keep:
  "pairing (drop_or_keep k s h) = (pairing h)(k := (s_device s, s_phone s))"
  by (auto simp: drop_or_keep_def pairing_def fun_eq_iff tbl.get_put tbl.get_del isEmpty_def)

lemma pairing_timers [simp]: "pairing (h\<lparr>hb_timers := ts\<rparr>) = pairing h"
  by (auto simp: pairing_def)

lemma leave_refines:
  "pairing (fst (leave_locked p h)) =
    spec_leave (p_role (hb_peers h p)) (p_sessionID (hb_peers h p)) p (pairing h)"
proof (cases "side (p_role (hb_peers h p)) (pairing h (p_sessionID (hb_peers h p))) = Some p")
  case True
  then obtain s where s: "tbl_get (hb_sessions h) (p_sessionID (hb_peers h p)) = Some s"
    by (cases "tbl_get (hb_sessions h) (p_sessionID (hb_peers h p))")
       (auto simp: pairing_def side_def split: if_splits)
  have "slot (p_role (hb_peers h p)) s = Some p" using True side_slot [OF s] by simp
  then show ?thesis using True s
    by (auto simp: leave_locked_hit pairing_drop_or_keep spec_leave_def leave_session_def
        setSlot_def set_side_def pairing_def fun_eq_iff)
next
  case False
  then have "leave_locked p h = (h, [])"
    by (intro leave_locked_miss) (metis side_slot)
  then show ?thesis using False by (simp add: spec_leave_def)
qed

lemma expire_refines:
  "pairing (fst (expire_locked p h)) = spec_expire (p_sessionID (hb_peers h p)) p (pairing h)"
proof (cases "pairing h (p_sessionID (hb_peers h p)) = (Some p, None)")
  case True
  then obtain s where s: "tbl_get (hb_sessions h) (p_sessionID (hb_peers h p)) = Some s"
    "s_device s = Some p" "s_phone s = None"
    by (cases "tbl_get (hb_sessions h) (p_sessionID (hb_peers h p))") (auto simp: pairing_def)
  then show ?thesis using True
    by (auto simp: expire_locked_hit spec_expire_def pairing_def fun_eq_iff tbl.get_del)
next
  case False
  then have "expire_locked p h = (h, [])"
    by (intro expire_locked_miss) (auto simp: pairing_def)
  then show ?thesis using False by (simp add: spec_expire_def)
qed

section \<open>Frames of a join\<close>

definition ready_frames :: "config \<Rightarrow> session \<Rightarrow> effect list" where
  "ready_frames c s =
     (case (s_device s, s_phone s) of
        (Some d, Some q) \<Rightarrow> [Send d (readyFrame c s False), Send q (readyFrame c s True)]
      | _ \<Rightarrow> [])"

text \<open>A credential depends on the session's token only.\<close>

lemma readyFrame_cong: "s_turnToken s = s_turnToken s' \<Longrightarrow> readyFrame c s b = readyFrame c s' b"
  by (simp add: readyFrame_def credentialFor_def)

lemma join_frames:
  fixes p :: nat and h :: hub
  assumes inv: "hub_inv base h"
  defines "k \<equiv> p_sessionID (hb_peers h p)"
  obtains s where "tbl_get (hb_sessions (fst (join_locked env p m h))) k = Some s"
    "slot (p_role (hb_peers h p)) s = Some p"
    "fst (snd (join_locked env p m h)) =
       Send p joinedFrame # ready_frames (hb_cfg h) s
         @ announceJoin (je_visit env) p (jm_Session m) (hb_sessions (fst (join_locked env p m h)))"
    "snd (snd (join_locked env p m h)) = side (p_role (hb_peers h p)) (pairing h k)"
    "\<And>s'. tbl_get (hb_sessions h) k = Some s' \<Longrightarrow> s_turnToken s = s_turnToken s'"
    "tbl_get (hb_sessions h) k = None \<Longrightarrow> s_turnToken s = newTurnToken (je_rand env)"
proof -
  let ?pr = "hb_peers h p"
  obtain s0 h0 where f: "find_session env k (jm_Session m) h = (s0, h0)" by force
  let ?s3 = "join_slots m ?pr p s0"
  obtain s4 h1 ready where pu: "pair_up p ?s3 h0 = (s4, h1, ready)"
    by (metis prod_cases3)
  note fs = find_session_spec [OF inv f]
  note pf = pair_up_frame [OF pu]
  note jl = join_locked_eq [OF f [unfolded k_def] pu, folded k_def]
  have "\<not> s_readySent ?s3" using fs(12) by (auto simp: join_slots_ready slot_def split: if_splits)
  then have ready: "ready = ready_frames (hb_cfg h) s4"
    using pu fs(5) by (auto elim!: pair_up_cases simp: ready_frames_def split: option.splits)
  show thesis
  proof (rule that [of s4])
    show "tbl_get (hb_sessions (fst (join_locked env p m h))) k = Some s4"
      by (simp add: jl tbl.get_put)
    show "slot (p_role ?pr) s4 = Some p"
      using pf(7,8) join_slots_sides [of ?pr m p s0] by (auto simp: slot_def)
    show "fst (snd (join_locked env p m h)) = Send p joinedFrame # ready_frames (hb_cfg h) s4
        @ announceJoin (je_visit env) p (jm_Session m) (hb_sessions (fst (join_locked env p m h)))"
      using ready by (simp add: jl)
    have "slot (p_role ?pr) s0 = side (p_role ?pr) (pairing h k)"
    proof (cases "tbl_get (hb_sessions h) k")
      case None
      then show ?thesis using fs(14) by (simp add: side_def pairing_def slot_def)
    next
      case (Some a)
      then show ?thesis using fs(13) side_slot [of h k s0] by simp
    qed
    then show "snd (snd (join_locked env p m h)) = side (p_role ?pr) (pairing h k)"
      by (simp add: jl)
    show "s_turnToken s4 = s_turnToken s'" if "tbl_get (hb_sessions h) k = Some s'" for s'
      using that fs(13) pf(10) by simp
    show "s_turnToken s4 = newTurnToken (je_rand env)" if "tbl_get (hb_sessions h) k = None"
      using that f pf(10) by (auto simp: find_session_def Let_def)
  qed
qed

section \<open>The announcement\<close>

definition slots_of :: "(string \<times> session) list \<Rightarrow> string \<Rightarrow> nat list" where
  "slots_of ss k = (case tbl_get ss k of None \<Rightarrow> [] | Some s \<Rightarrow> session_peers s)"

lemma announceJoin_eq:
  "announceJoin visit p session ss =
     map (\<lambda>q. Send q (remoteJoinedFrame session))
       (List.filter (\<lambda>q. q \<noteq> p) (concat (map (slots_of ss) (visit (tbl_keys ss)))))"
proof -
  have "concat (map (\<lambda>k. case tbl_get ss k of None \<Rightarrow> []
          | Some s \<Rightarrow> map (\<lambda>q. Send q (remoteJoinedFrame session))
              (List.filter (\<lambda>q. q \<noteq> p) (session_peers s))) ks)
      = map (\<lambda>q. Send q (remoteJoinedFrame session))
          (List.filter (\<lambda>q. q \<noteq> p) (concat (map (slots_of ss) ks)))" for ks
    by (induction ks) (auto simp: slots_of_def split: option.splits)
  then show ?thesis by (simp add: announceJoin_def)
qed

lemma set_slots_of:
  "q \<in> set (slots_of ss k) \<longleftrightarrow>
     (\<exists>s. tbl_get ss k = Some s \<and> (s_device s = Some q \<or> s_phone s = Some q))"
proof (cases "tbl_get ss k")
  case (Some s)
  then show ?thesis
    by (cases "s_device s"; cases "s_phone s") (auto simp: slots_of_def session_peers_def)
qed (simp add: slots_of_def)

lemma slots_of_distinct:
  assumes inv: "hub_inv base h" and ks: "distinct ks"
  shows "distinct (concat (map (slots_of (hb_sessions h)) ks))"
  using ks
proof (induction ks)
  case (Cons k ks)
  have d: "distinct (slots_of (hb_sessions h) k)"
  proof (cases "tbl_get (hb_sessions h) k")
    case (Some s)
    then show ?thesis using hub_invD(2) [OF inv Some]
      by (auto simp: slots_of_def session_peers_def session_ok_def slots_ok_def peer_ok_def
          split: option.splits)
  qed (simp add: slots_of_def)
  have "k = j" if "q \<in> set (slots_of (hb_sessions h) k)" "q \<in> set (slots_of (hb_sessions h) j)" for q j
    using that slot_unique [OF inv, of k _ q j] by (metis set_slots_of)
  then show ?case using Cons d by auto
qed simp

lemma in_slots_of:
  "q \<in> set (concat (map (slots_of (hb_sessions h)) (tbl_keys (hb_sessions h)))) \<longleftrightarrow> in_slot h q"
  by (auto simp: set_slots_of in_slot_def tbl.set_keys dom_def)

lemma mset_concat_map: "mset (concat (map f xs)) = \<Sum>\<^sub># (image_mset (\<lambda>x. mset (f x)) (mset xs))"
  by (induction xs) simp_all

text \<open>Exactly one notice to every registered peer but the joiner, in whatever order.\<close>

lemma announce_recipients:
  assumes inv: "hub_inv base h" and visit: "\<And>ks. mset (visit ks) = mset ks"
  shows "mset (List.filter (\<lambda>q. q \<noteq> p)
      (concat (map (slots_of (hb_sessions h)) (visit (tbl_keys (hb_sessions h))))))
    = mset_set {q. in_slot h q \<and> q \<noteq> p}"
proof -
  let ?ss = "hb_sessions h" let ?ks = "tbl_keys ?ss"
  let ?qs = "concat (map (slots_of ?ss) ?ks)"
  have v: "mset (concat (map (slots_of ?ss) (visit ?ks))) = mset ?qs"
    by (simp add: mset_concat_map visit)
  have "distinct ?qs"
    using slots_of_distinct [OF inv] tbl.distinct_keys hub_invD(1) [OF inv] by blast
  then have "mset (List.filter (\<lambda>q. q \<noteq> p) ?qs) = mset_set (set (List.filter (\<lambda>q. q \<noteq> p) ?qs))"
    by (metis distinct_filter mset_set_set)
  moreover have "set (List.filter (\<lambda>q. q \<noteq> p) ?qs) = {q. in_slot h q \<and> q \<noteq> p}"
    using in_slots_of [of _ h] by auto
  ultimately have "filter_mset (\<lambda>q. q \<noteq> p) (mset ?qs) = mset_set {q. in_slot h q \<and> q \<noteq> p}"
    by simp
  then show ?thesis by (simp add: v [symmetric] del: mset_concat)
qed

lemma announce_exact:
  assumes "hub_inv base h" "\<And>ks. mset (visit ks) = mset ks"
  shows "mset (announceJoin visit p session (hb_sessions h)) =
    image_mset (\<lambda>q. Send q (remoteJoinedFrame session)) (mset_set {q. in_slot h q \<and> q \<noteq> p})"
  using announce_recipients [OF assms, of p] by (simp add: announceJoin_eq del: mset_concat mset_filter)

text \<open>Whom an announcement may reach, whatever keys the iteration visits.\<close>

lemma announce_to_slots:
  "Send q f \<in> set (announceJoin visit p session (hb_sessions h)) \<Longrightarrow>
     in_slot h q \<and> q \<noteq> p \<and> f = remoteJoinedFrame session"
  by (auto simp: announceJoin_eq set_slots_of in_slot_def)

section \<open>Joining, at the level of the caller\<close>

lemma new_peer_frame:
  assumes "new_peer env m addr h = (p, h0)"
  shows "pairing h0 = pairing h" "hb_sessions h0 = hb_sessions h" "hb_cfg h0 = hb_cfg h"
    "p = hb_npeers h" "hb_timers h0 = hb_timers h" "hb_ntimers h0 = hb_ntimers h"
    "p_sessionID (hb_peers h0 p) = to_lower (je_utable env) (jm_Session m)"
    "p_role (hb_peers h0 p) = jm_Role m" "p_label (hb_peers h0 p) = jm_Session m"
  using assms by (auto simp: new_peer_def pairing_def)

text \<open>
  One accepted join: the frames queued under the lock, who was replaced, and the
  abstract table afterwards.
\<close>

lemma hub_join_accepted:
  fixes env :: join_env and m :: joinMessage and addr :: string and w :: world
  assumes inv: "hub_inv base (w_hub w)" and ok: "join_check m = None"
  obtains s replaced h0 where
    "fst (hub_join env m addr w) = Inr (hb_npeers (w_hub w))"
    "tbl_get (hb_sessions (w_hub (snd (hub_join env m addr w))))
       (to_lower (je_utable env) (jm_Session m)) = Some s"
    "slot (jm_Role m) s = Some (hb_npeers (w_hub w))"
    "replaced = side (jm_Role m) (pairing (w_hub w) (to_lower (je_utable env) (jm_Session m)))"
    "w_net (snd (hub_join env m addr w)) =
       perform_all
         (Send (hb_npeers (w_hub w)) joinedFrame # ready_frames (hb_cfg (w_hub w)) s
           @ announceJoin (je_visit env) (hb_npeers (w_hub w)) (jm_Session m)
               (hb_sessions (w_hub (snd (hub_join env m addr w))))
           @ join_unlocked (hb_npeers (w_hub w)) replaced (w_hub (snd (hub_join env m addr w))))
         ((w_net w)\<lparr>n_box := (n_box (w_net w))(hb_npeers (w_hub w) := new_box (w_hub w))\<rparr>)"
    "w_hub (snd (hub_join env m addr w)) = fst (join_locked env (hb_npeers (w_hub w)) m h0)"
    "new_peer env m addr (w_hub w) = (hb_npeers (w_hub w), h0)"
    "\<And>s'. tbl_get (hb_sessions (w_hub w)) (to_lower (je_utable env) (jm_Session m)) = Some s' \<Longrightarrow>
       s_turnToken s = s_turnToken s'"
    "hub_inv base (w_hub (snd (hub_join env m addr w)))"
proof -
  let ?k = "to_lower (je_utable env) (jm_Session m)"
  obtain p h0 where np: "new_peer env m addr (w_hub w) = (p, h0)" by force
  note n = new_peer_inv [OF inv np]
  note nf = new_peer_frame [OF np]
  note je = hub_join_eq [OF ok np]
  from join_frames [OF n(1), of env p m, unfolded nf(7)] obtain s where
    s: "tbl_get (hb_sessions (fst (join_locked env p m h0))) ?k = Some s"
      "slot (p_role (hb_peers h0 p)) s = Some p"
      "fst (snd (join_locked env p m h0)) = Send p joinedFrame # ready_frames (hb_cfg h0) s
         @ announceJoin (je_visit env) p (jm_Session m) (hb_sessions (fst (join_locked env p m h0)))"
      "snd (snd (join_locked env p m h0)) = side (p_role (hb_peers h0 p)) (pairing h0 ?k)"
      "\<And>s'. tbl_get (hb_sessions h0) ?k = Some s' \<Longrightarrow> s_turnToken s = s_turnToken s'"
    by blast
  show thesis
    by (rule that [of s "side (jm_Role m) (pairing (w_hub w) ?k)" h0])
       (use s nf je np hub_join_inv [OF inv, of env m addr] in \<open>simp_all\<close>)
qed

text \<open>Frames of the four server messages are told apart by their tag.\<close>

lemma ascii_consts [simp]:
  "ascii typeJoined" "ascii typeReady" "ascii typeBye" "ascii typeRemoteJoined"
  by (simp_all add: protocol_consts)

lemma frame_tags:
  "frameType joinedFrame = (typeJoined, True)" "frameType byeFrame = (typeBye, True)"
  "frameType (readyFrame c s b) = (typeReady, True)"
  "frameType (remoteJoinedFrame x) = (typeRemoteJoined, True)"
  by (simp_all add: joinedFrame_def byeFrame_def readyFrame_def remoteJoinedFrame_def frameType_server)

lemma tags_differ:
  "typeJoined \<noteq> typeBye" "typeReady \<noteq> typeBye" "typeRemoteJoined \<noteq> typeBye"
  "typeJoined \<noteq> typeReady" "typeRemoteJoined \<noteq> typeReady" "typeJoined \<noteq> typeRemoteJoined"
  by (simp_all add: protocol_consts)

lemma frames_differ:
  "joinedFrame \<noteq> byeFrame" "readyFrame c s b \<noteq> byeFrame" "remoteJoinedFrame x \<noteq> byeFrame"
  "joinedFrame \<noteq> readyFrame c s b" "remoteJoinedFrame x \<noteq> readyFrame c s b"
  "byeFrame \<noteq> readyFrame c s b" "joinedFrame \<noteq> remoteJoinedFrame x"
  using frame_tags tags_differ by (metis prod.inject)+

lemma readyFrame_flag: "readyFrame c s b = readyFrame c s' b' \<Longrightarrow> b = b'"
  using marshal_ready_inject by (fastforce simp: readyFrame_def)

section \<open>Sends and mailboxes\<close>

lemma perform_all_simps [simp]:
  "perform_all [] n = n" "perform_all (e # es) n = perform_all es (perform e n)"
  "perform_all (es @ fs) n = perform_all fs (perform_all es n)"
  by (simp_all add: perform_all_def)

text \<open>Sends of one and the same frame commute.\<close>

lemma perform_send_commute:
  "perform (Send p msg) (perform (Send q msg) n) = perform (Send q msg) (perform (Send p msg) n)"
  by (cases "p = q") (simp_all add: fun_upd_twist)

lemma perform_all_perm:
  assumes "mset es = mset fs" "\<And>e. e \<in> set es \<Longrightarrow> \<exists>q. e = Send q msg"
  shows "perform_all es n = perform_all fs n"
proof -
  have "perform e \<circ> perform f = perform f \<circ> perform e" if "e \<in> set es" "f \<in> set es" for e f
    using assms(2) [OF that(1)] assms(2) [OF that(2)] perform_send_commute
    by (auto simp: fun_eq_iff simp del: perform.simps)
  then have "fold perform es = fold perform fs"
    using assms(1) by (intro fold_multiset_equiv) auto
  then show ?thesis by (simp add: perform_all_def)
qed

lemma burst_box:
  "n_box (perform_all (map (Send p) ms) n) p = fold peer_send ms (n_box n p)"
  by (induction ms arbitrary: n) simp_all

lemma peer_send_fields [simp]:
  "mb_cap (peer_send msg b) = mb_cap b" "mb_cap (peer_close r b) = mb_cap b"
  "mb_out (peer_close r b) = mb_out b"
  by (simp_all add: peer_send_def peer_close_def split_beta)

lemma burst_drops:
  "length (mb_out (n_box n p)) \<le> mb_cap (n_box n p) \<Longrightarrow>
   n_slowDrops (perform_all (map (Send p) ms) n) =
     n_slowDrops n + of_nat (length ms - (mb_cap (n_box n p) - length (mb_out (n_box n p))))"
proof (induction ms arbitrary: n)
  case (Cons a ms)
  show ?case
  proof (cases "box_has_room (n_box n p)")
    case True
    then show ?thesis using Cons
      by (simp add: box_has_room_def peer_send_def Suc_diff_Suc flip: diff_Suc_eq_diff_pred)
  next
    case False
    then show ?thesis using Cons by (simp add: box_has_room_def peer_send_def)
  qed
qed simp

lemma send_closed:
  "mb_once b \<Longrightarrow> mb_once (peer_send msg b)" "mb_once b \<Longrightarrow> mb_closing (peer_send msg b) = mb_closing b"
  by (auto simp: peer_send_def peer_close_def once_do_def split_beta)

lemma burst_closed:
  "length (mb_out b) \<le> mb_cap b \<Longrightarrow> mb_cap b - length (mb_out b) < length ms \<Longrightarrow>
   mb_once (fold peer_send ms b)"
proof (induction ms arbitrary: b)
  case (Cons a ms)
  have keep: "mb_once c \<Longrightarrow> mb_once (fold peer_send xs c)" for xs c
    by (induction xs arbitrary: c) (auto simp: send_closed)
  show ?case
  proof (cases "box_has_room b")
    case True
    then show ?thesis using Cons by (simp add: box_has_room_def peer_send_def)
  next
    case False
    then have "mb_once (peer_send a b)" by (simp add: peer_send_def box_close.sets_flag)
    then show ?thesis using keep by simp
  qed
qed simp

section \<open>The sends among a list of effects\<close>

fun sends :: "effect list \<Rightarrow> (nat \<times> string) list" where
  "sends [] = []"
| "sends (Send p f # es) = (p, f) # sends es"
| "sends (_ # es) = sends es"

lemma sends_append [simp]: "sends (es @ fs) = sends es @ sends fs"
  by (induction es rule: sends.induct) auto

lemma in_sends: "(p, f) \<in> set (sends es) \<longleftrightarrow> Send p f \<in> set es"
  by (induction es rule: sends.induct) auto

text \<open>The frames of \<open>es\<close> that go to one peer, and what they do to its mailbox.\<close>

definition frames_to :: "nat \<Rightarrow> effect list \<Rightarrow> string list" where
  "frames_to q es = map snd (List.filter (\<lambda>(r, _). r = q) (sends es))"

lemma frames_to_simps [simp]:
  "frames_to q [] = []" "frames_to q (es @ fs) = frames_to q es @ frames_to q fs"
  "frames_to q (e # es) = (case e of Send r f \<Rightarrow> if r = q then [f] else [] | _ \<Rightarrow> []) @ frames_to q es"
  by (simp_all add: frames_to_def split: effect.split)

lemma frames_to_none: "(\<And>f. Send q f \<notin> set es) \<Longrightarrow> frames_to q es = []"
  by (auto simp: frames_to_def in_sends filter_empty_conv)

lemma box_of_effects:
  "(\<And>r. ClosePeer q r \<notin> set es) \<Longrightarrow>
     n_box (perform_all es n) q = fold peer_send (frames_to q es) (n_box n q)"
proof (induction es arbitrary: n)
  case (Cons e es)
  then have "\<And>r. e \<noteq> ClosePeer q r" by auto
  then have "n_box (perform e n) q = fold peer_send (frames_to q [e]) (n_box n q)"
    by (cases e) (auto simp: countPeerJoined_def countMessageForwarded_def)
  then show ?case using Cons by simp
qed simp

text \<open>Whatever the effects, a queue only grows, and only by frames that were sent to it.\<close>

lemma outs_extend:
  "\<exists>fs. mb_out (n_box (perform_all es n) q) = mb_out (n_box n q) @ fs \<and> set fs \<subseteq> {f. Send q f \<in> set es}"
proof (induction es arbitrary: n)
  case (Cons e es)
  obtain fs where fs: "mb_out (n_box (perform_all es (perform e n)) q) = mb_out (n_box (perform e n) q) @ fs"
    "set fs \<subseteq> {f. Send q f \<in> set es}" using Cons.IH by blast
  have "\<exists>gs. mb_out (n_box (perform e n) q) = mb_out (n_box n q) @ gs \<and> set gs \<subseteq> {f. Send q f = e}"
    by (cases e) (auto simp: countPeerJoined_def countMessageForwarded_def peer_send_def)
  then obtain gs where "mb_out (n_box (perform e n) q) = mb_out (n_box n q) @ gs"
    "set gs \<subseteq> {f. Send q f = e}" by blast
  then show ?case using fs by (intro exI [of _ "gs @ fs"]) auto
qed simp

text \<open>One accepted join on the pairing table.\<close>

lemma hub_join_pairing:
  assumes "hub_inv base (w_hub w)" "join_check m = None"
  shows "pairing (w_hub (snd (hub_join env m addr w))) =
      spec_join (jm_Role m) (to_lower (je_utable env) (jm_Session m)) (hb_npeers (w_hub w))
        (pairing (w_hub w))"
proof -
  obtain q h0 where np: "new_peer env m addr (w_hub w) = (q, h0)" by force
  show ?thesis
    using join_refines [OF new_peer_inv(1) [OF assms(1) np], of env q m] new_peer_frame [OF np]
    by (simp add: hub_join_eq [OF assms(2) np])
qed

text \<open>The close request a burst makes, and that it makes none when everything fits.\<close>

lemma sends_closed: "mb_once b \<Longrightarrow> mb_once (fold peer_send ms b) \<and> mb_closing (fold peer_send ms b) = mb_closing b"
  by (induction ms arbitrary: b) (auto simp: send_closed)

lemma burst_close_request:
  "length (mb_out b) \<le> mb_cap b \<Longrightarrow>
   if mb_cap b - length (mb_out b) < length ms \<and> \<not> mb_once b
   then mb_once (fold peer_send ms b)
     \<and> (mb_closing b = [] \<longrightarrow> mb_closing (fold peer_send ms b) = [''send buffer full''])
   else mb_once (fold peer_send ms b) = mb_once b \<and> mb_closing (fold peer_send ms b) = mb_closing b"
proof (induction ms arbitrary: b)
  case (Cons a ms)
  show ?case
  proof (cases "box_has_room b")
    case True
    then show ?thesis using Cons.IH [of "peer_send a b"] Cons.prems
      by (simp add: box_has_room_def peer_send_def split: if_splits)
  next
    case False
    then have c: "peer_send a b = peer_close ''send buffer full'' b" by (simp add: peer_send_def)
    show ?thesis
    proof (cases "mb_once b")
      case True
      then show ?thesis using sends_closed [OF True, of "a # ms"] by simp
    next
      case once: False
      then have "mb_once (peer_send a b)"
        "mb_closing b = [] \<Longrightarrow> mb_closing (peer_send a b) = [''send buffer full'']"
        by (simp_all add: c peer_close_def once_do_def requestClose_def split_beta)
      then show ?thesis using False once sends_closed [of "peer_send a b" ms]
        by (simp add: box_has_room_def)
    qed
  qed
qed simp

section \<open>A peer that has lost its slot\<close>

lemma in_slot_pairing:
  "in_slot h q \<longleftrightarrow> (\<exists>k. side roleDevice (pairing h k) = Some q \<or> side rolePhone (pairing h k) = Some q)"
  by (force simp: in_slot_def side_def pairing_def split: option.splits)

lemma pairing_slots:
  assumes "hub_inv base h" "side role (pairing h k) = Some q" "role \<in> {roleDevice, rolePhone}"
  shows "peer_ok h role k q"
proof -
  obtain s where s: "tbl_get (hb_sessions h) k = Some s"
    using assms(2) by (cases "tbl_get (hb_sessions h) k") (auto simp: pairing_def side_def split: if_splits)
  then show ?thesis using hub_invD(2) [OF assms(1) s] assms(2,3) side_slot [OF s, of role]
    by (auto simp: session_ok_def slots_ok_def slot_def)
qed

text \<open>Whoever is in a slot after a join is the joiner or was in one before, and not the replaced peer.\<close>

lemma join_in_slot:
  assumes inv: "hub_inv base (w_hub w)" and ok: "join_check m = None"
    and i: "in_slot (w_hub (snd (hub_join env m addr w))) q"
  shows "q = hb_npeers (w_hub w) \<or> in_slot (w_hub w) q
    \<and> side (jm_Role m) (pairing (w_hub w) (to_lower (je_utable env) (jm_Session m))) \<noteq> Some q"
proof -
  let ?A = "pairing (w_hub w)" let ?k = "to_lower (je_utable env) (jm_Session m)"
  have role: "jm_Role m \<in> {roleDevice, rolePhone}" using ok by (simp add: join_check_None)
  have same: "j = ?k \<and> r = jm_Role m"
    if "side r (?A j) = Some q" "r \<in> {roleDevice, rolePhone}" "side (jm_Role m) (?A ?k) = Some q" for r j
    using pairing_slots [OF inv that(1,2)] pairing_slots [OF inv that(3) role] by (simp add: peer_ok_def)
  obtain j r where j: "side r (pairing (w_hub (snd (hub_join env m addr w))) j) = Some q"
    "r \<in> {roleDevice, rolePhone}" using i by (auto simp: in_slot_pairing)
  show ?thesis
  proof (cases "j = ?k \<and> r = jm_Role m")
    case True
    then show ?thesis using j role hub_join_pairing [OF inv ok, of env addr]
      by (auto simp: spec_join_def side_def set_side_def split: if_splits)
  next
    case False
    then have "side r (?A j) = Some q"
      using j role hub_join_pairing [OF inv ok, of env addr]
      by (auto simp: spec_join_def side_def set_side_def split: if_splits)
    then show ?thesis using same [OF _ j(2)] j(2) False by (auto simp: in_slot_pairing)
  qed
qed

text \<open>The hub's operations as data, and any sequence of them.\<close>

datatype hub_op =
    OpJoin join_env joinMessage string
  | OpLeave nat
  | OpForward nat string string
  | OpExpire nat
  | OpClose

fun run_op :: "hub_op \<Rightarrow> world \<Rightarrow> world" where
  "run_op (OpJoin env m addr) w = snd (hub_join env m addr w)"
| "run_op (OpLeave p) w = hub_leave p w"
| "run_op (OpForward p ft raw) w = hub_forward p ft raw w"
| "run_op (OpExpire p) w = hub_expire p w"
| "run_op OpClose w = w\<lparr>w_hub := hub_close (w_hub w)\<rparr>"

definition gone :: "64 word \<Rightarrow> hub \<Rightarrow> nat \<Rightarrow> bool" where
  "gone base h r \<longleftrightarrow> hub_inv base h \<and> r < hb_npeers h \<and> \<not> in_slot h r"

lemma hub_join_refused: "join_check m \<noteq> None \<Longrightarrow> snd (hub_join env m addr w) = w"
  by (auto simp: hub_join_def)

lemma gone_join: "gone base (w_hub w) r \<Longrightarrow> gone base (w_hub (snd (hub_join env m addr w))) r"
proof (cases "join_check m")
  case None
  assume g: "gone base (w_hub w) r"
  obtain p h0 where np: "new_peer env m addr (w_hub w) = (p, h0)" by force
  then have "hb_npeers (w_hub (snd (hub_join env m addr w))) = Suc (hb_npeers (w_hub w))"
    by (auto simp: hub_join_eq [OF None np] join_locked_frame new_peer_def)
  then show ?thesis using g hub_join_inv [of base w] join_in_slot [OF _ None, of base w env addr r]
    by (auto simp: gone_def)
qed (simp add: hub_join_refused)

lemma gone_op: "gone base (w_hub w) r \<Longrightarrow> gone base (w_hub (run_op c w)) r"
proof (induction c w rule: run_op.induct)
  case (1 env m addr w)
  then show ?case using gone_join by simp
next
  case (2 p w)
  then show ?case using leave_refines [of p "w_hub w"] leave_locked_inv
    by (auto simp: gone_def hub_leave_def split_beta leave_locked_frame in_slot_pairing spec_leave_def
        side_def set_side_def split: if_splits)
next
  case (4 p w)
  then show ?case using expire_refines [of p "w_hub w"] expire_locked_inv
    by (auto simp: gone_def hub_expire_def split_beta expire_locked_frame in_slot_pairing spec_expire_def
        side_def split: if_splits)
next
  case (5 w)
  then show ?case using hub_close_inv
    by (auto simp: gone_def hub_close_def once_do_def split_beta hub_close_body_def Let_def in_slot_def)
qed simp

lemma gone_ops: "gone base (w_hub w) r \<Longrightarrow> gone base (w_hub (fold run_op cs w)) r"
  by (induction cs arbitrary: w) (auto intro: gone_op)

lemma gone_silent:
  assumes "gone base h r"
  shows "leave_locked r h = (h, [])" "forward_effects r ft raw h = []"
proof -
  have s: "slot (p_role (hb_peers h r)) s \<noteq> Some r"
    if "tbl_get (hb_sessions h) (p_sessionID (hb_peers h r)) = Some s" for s
    using that assms in_slot_iff [of base h r] by (auto simp: gone_def)
  then show "leave_locked r h = (h, [])" by (rule leave_locked_miss)
  show "forward_effects r ft raw h = []" using s by (auto simp: forward_effects_def Let_def split: option.split)
qed

section \<open>A concrete hub\<close>

text \<open>A hub with one paired session, on which the properties below are instantiated.\<close>

definition demo_config :: config where
  "demo_config = \<lparr>cfg_StunURL = ''stun:h:3478'', cfg_TurnURL = ''turn:h:3478'', cfg_TurnSecret = [],
     cfg_TurnCredentialTTL = 0, cfg_NoReceiverTimeout = 20 * time_second,
     cfg_PingInterval = 30 * time_second, cfg_PingTimeout = 0, cfg_SendBuffer = 2\<rparr>"

definition demo_env :: join_env where
  "demo_env = \<lparr>je_utable = (\<lambda>r. r), je_visit = (\<lambda>ks. ks), je_rand = replicate 16 7\<rparr>"

definition demo_msg :: "string \<Rightarrow> joinMessage" where
  "demo_msg role = \<lparr>jm_Type = typeJoin, jm_Role = role, jm_Session = ''S1'', jm_Imei = []\<rparr>"

definition demo_hub :: hub where
  "demo_hub = \<lparr>hb_cfg = demo_config\<lparr>cfg_PingTimeout := defaultPingTimeout\<rparr>, hb_sessions = [],
     hb_peers = (\<lambda>_. blank_peer), hb_npeers = 0, hb_timers = (\<lambda>_. blank_timer), hb_ntimers = 0,
     hb_active = 0, hb_closed = False\<rparr>"

definition demo_world0 :: world where
  "demo_world0 = \<lparr>w_hub = demo_hub, w_net = empty_net\<rparr>"

definition demo_world1 :: world where
  "demo_world1 = snd (hub_join demo_env (demo_msg roleDevice) ''a:1'' demo_world0)"

definition demo_world2 :: world where
  "demo_world2 = snd (hub_join demo_env (demo_msg rolePhone) ''b:2'' demo_world1)"

lemma demo_hub_new: "hub_new (Some demo_config) 0 = Inr demo_hub"
  by (simp add: hub_new_def demo_config_def demo_hub_def defaultPingTimeout_def)

lemma demo_inv0: "hub_inv 0 (w_hub demo_world0)"
  using hub_new_inv [OF demo_hub_new] by (simp add: demo_world0_def)

lemma demo_inv1: "hub_inv 0 (w_hub demo_world1)"
  unfolding demo_world1_def by (rule hub_join_inv [OF demo_inv0])

lemma demo_inv2: "hub_inv 0 (w_hub demo_world2)"
  unfolding demo_world2_def by (rule hub_join_inv [OF demo_inv1])

lemma demo_check [simp]: "join_check (demo_msg roleDevice) = None" "join_check (demo_msg rolePhone) = None"
  by (simp_all add: join_check_def demo_msg_def)

lemma demo_visit: "mset (je_visit demo_env ks) = mset ks"
  by (simp add: demo_env_def)

lemma demo_key: "to_lower (je_utable demo_env) (jm_Session (demo_msg r)) = ''s1''"
  by (simp add: demo_env_def demo_msg_def to_lower_def ascii_lower_def chr_of_eq_iff)

lemma demo_pairing1: "pairing (w_hub demo_world1) ''s1'' = (Some 0, None)"
proof -
  have "pairing (w_hub demo_world0) = (\<lambda>_. (None, None))"
    by (simp add: fun_eq_iff pairing_def demo_world0_def demo_hub_def)
  then show ?thesis
    using hub_join_pairing [OF demo_inv0 demo_check(1), of demo_env "''a:1''"]
    by (simp add: demo_world1_def demo_key spec_join_def set_side_def)
       (simp add: demo_msg_def demo_world0_def demo_hub_def)
qed

lemma demo_peers: "hb_npeers (w_hub demo_world1) = 1"
proof -
  obtain p h0 where np: "new_peer demo_env (demo_msg roleDevice) ''a:1'' (w_hub demo_world0) = (p, h0)"
    by force
  then have "hb_npeers h0 = 1"
    by (auto simp: new_peer_def demo_world0_def demo_hub_def)
  then show ?thesis
    by (simp add: demo_world1_def hub_join_eq [OF demo_check(1) np] join_locked_frame)
qed

lemma demo_pairing2: "pairing (w_hub demo_world2) ''s1'' = (Some 0, Some 1)"
  using hub_join_pairing [OF demo_inv1 demo_check(2), of demo_env "''b:2''"]
  by (simp add: demo_world2_def demo_key spec_join_def set_side_def demo_pairing1)
     (simp add: demo_msg_def demo_peers)

lemma demo_phone:
  "p_sessionID (hb_peers (w_hub demo_world2) 1) = ''s1''"
  "p_role (hb_peers (w_hub demo_world2) 1) = rolePhone"
proof -
  obtain s where s: "tbl_get (hb_sessions (w_hub demo_world2)) ''s1'' = Some s" "s_phone s = Some 1"
    using demo_pairing2 by (cases "tbl_get (hb_sessions (w_hub demo_world2)) ''s1''") (auto simp: pairing_def)
  then have "peer_ok (w_hub demo_world2) rolePhone ''s1'' 1"
    using hub_invD(2) [OF demo_inv2 s(1)] by (auto simp: session_ok_def slots_ok_def)
  then show "p_sessionID (hb_peers (w_hub demo_world2) 1) = ''s1''"
    "p_role (hb_peers (w_hub demo_world2) 1) = rolePhone" by (auto simp: peer_ok_def)
qed

section \<open>Properties of the hub\<close>

text \<open>C1: Every operation of the hub keeps the registry invariant: distinct session keys,
  each slot holding a registered peer of that role and session, no empty session, ready sent
  exactly when both sides are present, a lonely timer only behind a device that waits alone,
  and the active-session gauge equal to the number of sessions.\<close>

theorem hub_operations_keep_invariant:
  assumes "hub_inv base (w_hub w)"
  shows "hub_inv base (w_hub (snd (hub_join env m addr w)))
    \<and> hub_inv base (w_hub (hub_leave p w))
    \<and> hub_inv base (w_hub (hub_forward p ft raw w))
    \<and> hub_inv base (w_hub (hub_expire p w))
    \<and> hub_inv base (hub_close (w_hub w))"
  using assms hub_join_inv hub_leave_inv hub_expire_inv hub_close_inv by simp

theorem hub_operations_keep_invariant_witness:
  "hub_inv 0 (w_hub (hub_leave 0 demo_world2)) \<and> hub_inv 0 (hub_close (w_hub demo_world2))"
  using hub_operations_keep_invariant [OF demo_inv2, of demo_env "demo_msg roleDevice" "[]" 0 "[]" "[]"]
  by blast

text \<open>A join is refused exactly when the session id is empty or the role is neither
  device nor phone, the session check coming first, and a refused join changes nothing; an
  accepted join registers a new peer.\<close>

theorem join_acceptance:
  "fst (hub_join env m addr w) =
     (if jm_Session m = [] then Inl EmptySession
      else if jm_Role m \<noteq> ''device'' \<and> jm_Role m \<noteq> ''phone'' then Inl (UnknownRole (jm_Role m))
      else Inr (hb_npeers (w_hub w)))
   \<and> (\<forall>e. fst (hub_join env m addr w) = Inl e \<longrightarrow> snd (hub_join env m addr w) = w)"
  by (auto simp: hub_join_def join_check_def new_peer_def split_beta protocol_consts)

theorem join_acceptance_witness:
  "snd (hub_join demo_env (demo_msg ''operator'') [] demo_world2) = demo_world2"
  using join_acceptance [of demo_env "demo_msg ''operator''" "[]" demo_world2]
  by (simp add: demo_msg_def)

text \<open>C2: The registry implements an abstract pairing table: an accepted join puts the new
  peer into the slot of its role in the session with that lowercased id and leaves every
  other slot alone, a leave empties the slot only if that very peer is in it, and the lonely
  timeout removes a device only while it is alone.\<close>

theorem hub_refines_pairing:
  assumes "hub_inv base (w_hub w)" "join_check m = None"
  shows "pairing (w_hub (snd (hub_join env m addr w))) =
      spec_join (jm_Role m) (to_lower (je_utable env) (jm_Session m)) (hb_npeers (w_hub w))
        (pairing (w_hub w))
    \<and> pairing (w_hub (hub_leave p w)) =
      spec_leave (p_role (hb_peers (w_hub w) p)) (p_sessionID (hb_peers (w_hub w) p)) p
        (pairing (w_hub w))
    \<and> pairing (w_hub (hub_expire p w)) =
      spec_expire (p_sessionID (hb_peers (w_hub w) p)) p (pairing (w_hub w))"
  using hub_join_pairing [OF assms, of env addr] leave_refines [of p "w_hub w"]
    expire_refines [of p "w_hub w"]
  by (simp add: hub_leave_def hub_expire_def split_beta)

theorem hub_refines_pairing_witness:
  "pairing (w_hub (snd (hub_join demo_env (demo_msg rolePhone) [] demo_world1))) ''s1''
     = (Some 0, Some 1)"
  using hub_refines_pairing [OF demo_inv1 demo_check(2), of demo_env "[]"]
  by (simp add: demo_key spec_join_def set_side_def demo_pairing1)
     (simp add: demo_msg_def demo_peers)

text \<open>C3: Ready is sent once per pairing and with the right roles: an accepted join queues the
  joined acknowledgement for the joiner first, then, exactly when both sides of the session are
  now present, a ready frame to the device with initiator false followed by one to the phone
  with initiator true, then the announcements.  Nothing else the hub does sends a ready frame: a
  leave and a timeout send byes only, \<open>Close\<close> sends nothing, and a forward sends nothing but the
  very frame it was given, which is no ready frame when its type is the one it is forwarded under.\<close>

theorem ready_once_per_pairing:
  assumes "hub_inv base (w_hub w)" "join_check m = None"
  shows "(\<exists>s rest. tbl_get (hb_sessions (w_hub (snd (hub_join env m addr w))))
        (to_lower (je_utable env) (jm_Session m)) = Some s
    \<and> slot (jm_Role m) s = Some (hb_npeers (w_hub w))
    \<and> w_net (snd (hub_join env m addr w)) =
        perform_all (Send (hb_npeers (w_hub w)) joinedFrame # ready_frames (hb_cfg (w_hub w)) s @ rest)
          ((w_net w)\<lparr>n_box := (n_box (w_net w))(hb_npeers (w_hub w) := new_box (w_hub w))\<rparr>)
    \<and> (\<forall>q f. Send q f \<in> set rest \<longrightarrow> frameType f = (typeRemoteJoined, True)))
    \<and> (\<forall>q f. Send q f \<in> set (snd (leave_locked p (w_hub w)))
                \<union> set (snd (expire_locked p (w_hub w))) \<longrightarrow> frameType f = (typeBye, True))
    \<and> (\<forall>q f. Send q f \<in> set (forward_effects p ft raw (w_hub w)) \<longrightarrow> f = raw
          \<and> (\<forall>c s b. frameType raw = (ft, True) \<and> ft \<in> {typeOffer, typeAnswer, typeCandidate} \<longrightarrow>
               f \<noteq> readyFrame c s b))"
proof -
  obtain s replaced h0 where s:
    "tbl_get (hb_sessions (w_hub (snd (hub_join env m addr w))))
       (to_lower (je_utable env) (jm_Session m)) = Some s"
    "slot (jm_Role m) s = Some (hb_npeers (w_hub w))"
    "w_net (snd (hub_join env m addr w)) =
       perform_all
         (Send (hb_npeers (w_hub w)) joinedFrame # ready_frames (hb_cfg (w_hub w)) s
           @ announceJoin (je_visit env) (hb_npeers (w_hub w)) (jm_Session m)
               (hb_sessions (w_hub (snd (hub_join env m addr w))))
           @ join_unlocked (hb_npeers (w_hub w)) replaced (w_hub (snd (hub_join env m addr w))))
         ((w_net w)\<lparr>n_box := (n_box (w_net w))(hb_npeers (w_hub w) := new_box (w_hub w))\<rparr>)"
    using hub_join_accepted [OF assms, of env addr] by metis
  have rest: "frameType f = (typeRemoteJoined, True)"
    if "Send q f \<in> set (announceJoin (je_visit env) (hb_npeers (w_hub w)) (jm_Session m)
               (hb_sessions (w_hub (snd (hub_join env m addr w))))
           @ join_unlocked (hb_npeers (w_hub w)) replaced (w_hub (snd (hub_join env m addr w))))"
    for q f using that frame_tags
    by (auto simp: announceJoin_eq join_unlocked_def Let_def split: option.splits)
  have bye: "frameType f = (typeBye, True)"
    if "Send q f \<in> set (snd (leave_locked p (w_hub w))) \<union> set (snd (expire_locked p (w_hub w)))"
    for q f using that frame_tags
    by (auto simp: leave_locked_def expire_locked_def Let_def split: option.splits if_splits prod.splits)
  have fwd: "f = raw" if "Send q f \<in> set (forward_effects p ft raw (w_hub w))" for q f
    using that by (auto simp: forward_effects_def Let_def split: option.splits if_splits)
  have "raw \<noteq> readyFrame c s b"
    if "frameType raw = (ft, True)" "ft \<in> {typeOffer, typeAnswer, typeCandidate}" for c s b
    using that frame_tags(3) [of c s b] by (auto simp: protocol_consts)
  then show ?thesis using s rest bye fwd by blast
qed

theorem ready_once_per_pairing_witness:
  "\<exists>s. tbl_get (hb_sessions (w_hub demo_world2)) ''s1'' = Some s \<and> s_phone s = Some (hb_npeers (w_hub demo_world1))"
  using ready_once_per_pairing [OF demo_inv1 demo_check(2), of demo_env "''b:2''" 0 "[]" "[]"]
  by (simp add: demo_key flip: demo_world2_def) (auto simp: demo_msg_def slot_def)

text \<open>The ready frame, if any, that a session's side gets when its pair completes.\<close>

definition ready_to :: "config \<Rightarrow> session \<Rightarrow> nat \<Rightarrow> string list" where
  "ready_to c s q =
     (if s_device s = None \<or> s_phone s = None then []
      else if s_device s = Some q then [readyFrame c s False]
      else if s_phone s = Some q then [readyFrame c s True] else [])"

lemma frames_to_ready:
  "session_ok h k s \<Longrightarrow> frames_to q (ready_frames c s) = ready_to c s q"
  by (auto simp: ready_frames_def ready_to_def session_ok_def slots_ok_def peer_ok_def split: option.split)

lemma frames_to_announce:
  assumes "hub_inv base h" "\<And>ks. mset (visit ks) = mset ks"
  shows "frames_to q (announceJoin visit p session (hb_sessions h)) =
    (if in_slot h q \<and> q \<noteq> p then [remoteJoinedFrame session] else [])"
proof -
  let ?A = "{q. in_slot h q \<and> q \<noteq> p}"
  let ?L = "List.filter (\<lambda>q. q \<noteq> p) (concat (map (slots_of (hb_sessions h)) (visit (tbl_keys (hb_sessions h)))))"
  have "frames_to q (map (\<lambda>r. Send r f) L) = replicate (count (mset L) q) f" for f L
    by (induction L) auto
  then have "frames_to q (announceJoin visit p session (hb_sessions h))
      = replicate (count (mset_set ?A) q) (remoteJoinedFrame session)"
    unfolding announceJoin_eq by (simp only: announce_recipients [OF assms])
  moreover have "finite ?A"
    using in_slot_allocated [OF assms(1)] by (auto intro: finite_subset [of _ "{..< hb_npeers h}"])
  ultimately show ?thesis by simp
qed

text \<open>C7: What an accepted join puts into each queue.  Every other registered peer is told exactly
  once that a peer joined, with the session id as the joiner wrote it, in whatever order the
  session map is visited; the counterpart gets that notice after its ready frame.  The joiner
  gets the joined acknowledgement and its ready frame and no notice, and the mailbox of a peer that
  is in no slot, the replaced one apart, is not touched.\<close>

theorem announcement_reaches_everyone_once:
  assumes inv: "hub_inv base (w_hub w)" and ok: "join_check m = None"
    and visit: "\<And>ks. mset (je_visit env ks) = mset ks"
  shows "let w' = snd (hub_join env m addr w); p = hb_npeers (w_hub w);
             key = to_lower (je_utable env) (jm_Session m); box = n_box (w_net w) in
    \<exists>s. tbl_get (hb_sessions (w_hub w')) key = Some s
      \<and> n_box (w_net w') p =
          fold peer_send (joinedFrame # ready_to (hb_cfg (w_hub w)) s p) (new_box (w_hub w))
      \<and> (\<forall>q. q \<noteq> p \<longrightarrow> in_slot (w_hub w') q \<longrightarrow> n_box (w_net w') q =
          fold peer_send (ready_to (hb_cfg (w_hub w)) s q @ [remoteJoinedFrame (jm_Session m)]) (box q))
      \<and> (\<forall>q. \<not> in_slot (w_hub w') q \<longrightarrow> side (jm_Role m) (pairing (w_hub w) key) \<noteq> Some q \<longrightarrow>
          n_box (w_net w') q = box q)"
proof -
  let ?k = "to_lower (je_utable env) (jm_Session m)" let ?p = "hb_npeers (w_hub w)"
  let ?w' = "snd (hub_join env m addr w)"
  let ?n0 = "(w_net w)\<lparr>n_box := (n_box (w_net w))(?p := new_box (w_hub w))\<rparr>"
  obtain s h0 where s: "tbl_get (hb_sessions (w_hub ?w')) ?k = Some s" "slot (jm_Role m) s = Some ?p"
    and net: "w_net ?w' = perform_all
         (Send ?p joinedFrame # ready_frames (hb_cfg (w_hub w)) s
           @ announceJoin (je_visit env) ?p (jm_Session m) (hb_sessions (w_hub ?w'))
           @ join_unlocked ?p (side (jm_Role m) (pairing (w_hub w) ?k)) (w_hub ?w'))
         ((w_net w)\<lparr>n_box := (n_box (w_net w))(?p := new_box (w_hub w))\<rparr>)"
    and inv': "hub_inv base (w_hub ?w')"
    using hub_join_accepted [OF inv ok, of env addr] by metis
  note sok = hub_invD(2) [OF inv' s(1)]
  have p: "in_slot (w_hub ?w') ?p" using s by (auto simp: in_slot_def slot_def split: if_splits)
  have gone: "side (jm_Role m) (pairing (w_hub w) ?k) \<noteq> Some q" if "in_slot (w_hub ?w') q" for q
  proof (cases "q = ?p")
    case True
    have "jm_Role m \<in> {roleDevice, rolePhone}" using ok by (simp add: join_check_None)
    then show ?thesis using True pairing_slots [OF inv, of "jm_Role m" ?k ?p] by (auto simp: peer_ok_def)
  next
    case False
    then show ?thesis using join_in_slot [OF inv ok that] by blast
  qed
  have box: "n_box (w_net ?w') q = fold peer_send
      ((if q = ?p then [joinedFrame] else []) @ ready_to (hb_cfg (w_hub w)) s q
        @ (if in_slot (w_hub ?w') q \<and> q \<noteq> ?p then [remoteJoinedFrame (jm_Session m)] else []))
      (if q = ?p then new_box (w_hub w) else n_box (w_net w) q)"
    if "side (jm_Role m) (pairing (w_hub w) ?k) \<noteq> Some q" for q
  proof -
    let ?es = "Send ?p joinedFrame # ready_frames (hb_cfg (w_hub w)) s
           @ announceJoin (je_visit env) ?p (jm_Session m) (hb_sessions (w_hub ?w'))
           @ join_unlocked ?p (side (jm_Role m) (pairing (w_hub w) ?k)) (w_hub ?w')"
    have "frames_to q (join_unlocked ?p r h) = []" for r h
      by (simp add: join_unlocked_def Let_def split: option.split)
    then have fs: "frames_to q ?es = (if q = ?p then [joinedFrame] else []) @ ready_to (hb_cfg (w_hub w)) s q
        @ (if in_slot (w_hub ?w') q \<and> q \<noteq> ?p then [remoteJoinedFrame (jm_Session m)] else [])"
      by (simp add: frames_to_ready [OF sok] frames_to_announce [OF inv' visit])
    have "ClosePeer q x \<notin> set (join_unlocked ?p r h)" if "r \<noteq> Some q" for x r h
      using that by (auto simp: join_unlocked_def Let_def split: option.splits)
    then have "ClosePeer q x \<notin> set ?es" for x
      using that by (auto simp: ready_frames_def announceJoin_eq split: option.splits)
    then have "n_box (perform_all ?es ?n0) q = fold peer_send (frames_to q ?es) (n_box ?n0 q)"
      by (rule box_of_effects)
    then show ?thesis unfolding net fs by (simp del: perform_all_simps)
  qed
  have none: "ready_to (hb_cfg (w_hub w)) s q = []" if "\<not> in_slot (w_hub ?w') q" for q
    using that s(1) by (auto simp: ready_to_def in_slot_def)
  have "n_box (w_net ?w') ?p =
      fold peer_send (joinedFrame # ready_to (hb_cfg (w_hub w)) s ?p) (new_box (w_hub w))"
    using box [OF gone [OF p]] by simp
  moreover have "n_box (w_net ?w') q = fold peer_send
      (ready_to (hb_cfg (w_hub w)) s q @ [remoteJoinedFrame (jm_Session m)]) (n_box (w_net w) q)"
    if "q \<noteq> ?p" "in_slot (w_hub ?w') q" for q
    using box [OF gone [OF that(2)]] that by simp
  moreover have "n_box (w_net ?w') q = n_box (w_net w) q"
    if "\<not> in_slot (w_hub ?w') q" "side (jm_Role m) (pairing (w_hub w) ?k) \<noteq> Some q" for q
  proof -
    have "q \<noteq> ?p" using that(1) p by blast
    then show ?thesis using box [OF that(2)] that(1) none by simp
  qed
  ultimately show ?thesis unfolding Let_def using s(1) by blast
qed

theorem announcement_reaches_everyone_once_witness:
  "\<exists>s. n_box (w_net demo_world2) 0 =
     fold peer_send [readyFrame (hb_cfg (w_hub demo_world1)) s False, remoteJoinedFrame ''S1'']
       (n_box (w_net demo_world1) 0)"
proof -
  have lbl: "jm_Session (demo_msg rolePhone) = ''S1''" by (simp add: demo_msg_def)
  have i: "in_slot (w_hub demo_world2) 0"
    unfolding in_slot_pairing by (rule exI [of _ "''s1''"]) (simp add: demo_pairing2 side_def)
  obtain s where s: "tbl_get (hb_sessions (w_hub demo_world2)) ''s1'' = Some s"
    and box: "\<forall>q. q \<noteq> 1 \<longrightarrow> in_slot (w_hub demo_world2) q \<longrightarrow> n_box (w_net demo_world2) q =
       fold peer_send (ready_to (hb_cfg (w_hub demo_world1)) s q @ [remoteJoinedFrame ''S1''])
         (n_box (w_net demo_world1) q)"
    using announcement_reaches_everyone_once [OF demo_inv1 demo_check(2) demo_visit, of "''b:2''"]
    unfolding Let_def demo_key demo_peers demo_world2_def [symmetric] unfolding lbl by blast
  have "s_device s = Some 0" "s_phone s = Some 1" using demo_pairing2 s by (auto simp: pairing_def)
  then have "ready_to c s 0 = [readyFrame c s False]" for c by (simp add: ready_to_def)
  then show ?thesis using box i by force
qed

text \<open>C8: Go does not fix the order in which a map is visited, and for the announcements it does
  not matter: two joins that differ only in that order leave the same registry, the same
  queues, the same close requests and the same counters.\<close>

theorem join_independent_of_map_order:
  assumes "hub_inv base (w_hub w)"
    "\<And>ks. mset (v1 ks) = mset ks" "\<And>ks. mset (v2 ks) = mset ks"
  shows "hub_join (env\<lparr>je_visit := v1\<rparr>) m addr w = hub_join (env\<lparr>je_visit := v2\<rparr>) m addr w"
proof (cases "join_check m")
  case None
  obtain p h0 where np: "new_peer env m addr (w_hub w) = (p, h0)" by force
  then have np': "new_peer (env\<lparr>je_visit := v\<rparr>) m addr (w_hub w) = (p, h0)" for v
    by (auto simp: new_peer_def)
  note n = new_peer_inv [OF assms(1) np]
  obtain s0 h1 where f: "find_session env (p_sessionID (hb_peers h0 p)) (jm_Session m) h0 = (s0, h1)"
    by force
  then have f': "find_session (env\<lparr>je_visit := v\<rparr>) (p_sessionID (hb_peers h0 p)) (jm_Session m) h0
      = (s0, h1)" for v by (auto simp: find_session_def Let_def split: option.splits)
  obtain s4 h2 ready where pu: "pair_up p (join_slots m (hb_peers h0 p) p s0) h1 = (s4, h2, ready)"
    by (metis prod_cases3)
  let ?ss = "tbl_put (p_sessionID (hb_peers h0 p)) s4 (hb_sessions h2)"
  let ?h = "h2\<lparr>hb_sessions := ?ss\<rparr>"
  have eq: "join_locked (env\<lparr>je_visit := v\<rparr>) p m h0 =
      (?h, Send p joinedFrame # ready @ announceJoin v p (jm_Session m) ?ss,
       slot (p_role (hb_peers h0 p)) s0)" for v
    using join_locked_eq [OF f' pu] by simp
  have "p_role (hb_peers h0 p) \<in> {roleDevice, rolePhone}"
    using None n(4) by (simp add: join_check_None)
  then have inv: "hub_inv base ?h"
    using join_locked_inv [OF n(1,2), of "env\<lparr>je_visit := v1\<rparr>" m] by (simp add: eq)
  have "mset (announceJoin v1 p (jm_Session m) ?ss) = mset (announceJoin v2 p (jm_Session m) ?ss)"
    using announce_exact [OF inv assms(2)] announce_exact [OF inv assms(3)] by simp
  then have "perform_all (announceJoin v1 p (jm_Session m) ?ss) nt
      = perform_all (announceJoin v2 p (jm_Session m) ?ss) nt" for nt
    by (rule perform_all_perm) (auto simp: announceJoin_eq)
  then show ?thesis by (simp add: hub_join_eq [OF None np'] eq)
qed (simp add: hub_join_def)

theorem join_independent_of_map_order_witness:
  "hub_join (demo_env\<lparr>je_visit := rev\<rparr>) (demo_msg roleDevice) [] demo_world2
     = hub_join (demo_env\<lparr>je_visit := (\<lambda>ks. ks)\<rparr>) (demo_msg roleDevice) [] demo_world2"
  by (rule join_independent_of_map_order [OF demo_inv2]) simp_all

text \<open>The effects of a join: frames to peers in a slot, none of them a bye, then what follows the unlock.\<close>

lemma join_effects:
  fixes env :: join_env and m :: joinMessage and addr :: string and w :: world
  assumes inv: "hub_inv base (w_hub w)" and ok: "join_check m = None"
  defines "w' \<equiv> snd (hub_join env m addr w)" and "p \<equiv> hb_npeers (w_hub w)"
  obtains es where
    "w_net w' = perform_all
       (es @ join_unlocked p (side (jm_Role m) (pairing (w_hub w) (to_lower (je_utable env) (jm_Session m)))) (w_hub w'))
       ((w_net w)\<lparr>n_box := (n_box (w_net w))(p := new_box (w_hub w))\<rparr>)"
    "\<And>q f. Send q f \<in> set es \<Longrightarrow> f \<noteq> byeFrame \<and> (in_slot (w_hub w') q \<or> q = p)"
    "\<And>q x. ClosePeer q x \<notin> set es"
    "p_role (hb_peers (w_hub w') p) = jm_Role m" "hb_npeers (w_hub w') = Suc p" "hub_inv base (w_hub w')"
proof -
  let ?k = "to_lower (je_utable env) (jm_Session m)"
  obtain s h0 where s: "tbl_get (hb_sessions (w_hub w')) ?k = Some s" and
    net: "w_net w' = perform_all
         (Send p joinedFrame # ready_frames (hb_cfg (w_hub w)) s
           @ announceJoin (je_visit env) p (jm_Session m) (hb_sessions (w_hub w'))
           @ join_unlocked p (side (jm_Role m) (pairing (w_hub w) ?k)) (w_hub w'))
         ((w_net w)\<lparr>n_box := (n_box (w_net w))(p := new_box (w_hub w))\<rparr>)"
    and hub: "w_hub w' = fst (join_locked env p m h0)"
    and np: "new_peer env m addr (w_hub w) = (p, h0)"
    and inv': "hub_inv base (w_hub w')"
    unfolding w'_def p_def using hub_join_accepted [OF inv ok, of env addr] by metis
  let ?es = "Send p joinedFrame # ready_frames (hb_cfg (w_hub w)) s
           @ announceJoin (je_visit env) p (jm_Session m) (hb_sessions (w_hub w'))"
  have sl: "in_slot (w_hub w') q" if "s_device s = Some q \<or> s_phone s = Some q" for q
    using that s unfolding in_slot_def by blast
  have ready: "f \<noteq> byeFrame \<and> in_slot (w_hub w') q" if "Send q f \<in> set (ready_frames (hb_cfg (w_hub w)) s)" for q f
    using that sl by (auto simp: ready_frames_def frames_differ(6) [THEN not_sym] split: option.splits)
  show thesis
  proof (rule that [of ?es])
    show "f \<noteq> byeFrame \<and> (in_slot (w_hub w') q \<or> q = p)" if "Send q f \<in> set ?es" for q f
      using that ready [of q f] announce_to_slots [of q f] frames_differ(1,3) frames_differ(3) [THEN not_sym]
      by auto
    show "ClosePeer q x \<notin> set ?es" for q x
      by (auto simp: ready_frames_def announceJoin_eq split: option.splits)
    show "p_role (hb_peers (w_hub w') p) = jm_Role m"
      using new_peer_frame(8) [OF np] by (simp add: hub join_locked_frame)
    show "hb_npeers (w_hub w') = Suc p" using np by (auto simp: hub join_locked_frame new_peer_def)
  qed (use net inv' in simp_all)
qed

text \<open>C4: A second join with the same role replaces the earlier peer.  The close request of that
  peer's connection is written, with the reason, unless an earlier one is pending; nothing is put into
  its queue, and no queue at all gets a bye.  The new peer has the slot, and
  from then on, whatever the hub is asked to do, the replaced peer never gets a slot back, its
  leave changes nothing and sends nothing, and it can forward nothing.\<close>

theorem replaced_peer_is_closed_and_harmless:
  assumes "hub_inv base (w_hub w)" "join_check m = None"
    and "side (jm_Role m) (pairing (w_hub w) (to_lower (je_utable env) (jm_Session m))) = Some r"
  shows "let w' = snd (hub_join env m addr w); old = n_box (w_net w) r; new = n_box (w_net w') r in
      mb_once new \<and> mb_out new = mb_out old
    \<and> (\<not> mb_once old \<and> mb_closing old = [] \<longrightarrow> mb_closing new = [''replaced by a new '' @ jm_Role m])
    \<and> (\<forall>q. \<exists>fs. mb_out (n_box (w_net w') q) =
          (if q = hb_npeers (w_hub w) then [] else mb_out (n_box (w_net w) q)) @ fs \<and> byeFrame \<notin> set fs)
    \<and> side (jm_Role m) (pairing (w_hub w') (to_lower (je_utable env) (jm_Session m)))
        = Some (hb_npeers (w_hub w))
    \<and> (\<forall>cs. let h = w_hub (fold run_op cs w')
             in \<not> in_slot h r \<and> leave_locked r h = (h, []) \<and> forward_effects r ft raw h = [])"
proof -
  let ?k = "to_lower (je_utable env) (jm_Session m)"
  let ?w' = "snd (hub_join env m addr w)" let ?p = "hb_npeers (w_hub w)"
  let ?n0 = "(w_net w)\<lparr>n_box := (n_box (w_net w))(?p := new_box (w_hub w))\<rparr>"
  have "jm_Role m \<in> {roleDevice, rolePhone}" using assms(2) by (simp add: join_check_None)
  then have r: "r < ?p" using pairing_slots [OF assms(1,3)] by (simp add: peer_ok_def)
  obtain es where net: "w_net ?w' = perform_all (es @ join_unlocked ?p (Some r) (w_hub ?w')) ?n0"
    and sent: "\<And>q f. Send q f \<in> set es \<Longrightarrow> f \<noteq> byeFrame \<and> (in_slot (w_hub ?w') q \<or> q = ?p)"
    and close: "\<And>q x. ClosePeer q x \<notin> set es"
    and pr: "p_role (hb_peers (w_hub ?w') ?p) = jm_Role m" "hb_npeers (w_hub ?w') = Suc ?p"
    and inv': "hub_inv base (w_hub ?w')"
    using join_effects [OF assms(1,2), of env addr, unfolded assms(3)] by blast
  have out: "\<not> in_slot (w_hub ?w') r"
    using join_in_slot [OF assms(1,2), of env addr r] r assms(3) by auto
  have "frames_to r es = []" by (rule frames_to_none) (use sent [of r] out r in blast)
  then have "n_box (perform_all es ?n0) r = n_box (w_net w) r"
    using r close by (subst box_of_effects) simp_all
  then have "n_box (w_net ?w') r = peer_close (''replaced by a new '' @ jm_Role m) (n_box (w_net w) r)"
    by (simp add: net join_unlocked_def Let_def pr countPeerJoined_def)
  then have closed: "mb_once (n_box (w_net ?w') r)" "mb_out (n_box (w_net ?w') r) = mb_out (n_box (w_net w) r)"
    "\<not> mb_once (n_box (w_net w) r) \<and> mb_closing (n_box (w_net w) r) = [] \<longrightarrow>
       mb_closing (n_box (w_net ?w') r) = [''replaced by a new '' @ jm_Role m]"
    by (simp_all add: peer_close_def once_do_def requestClose_def split_beta)
  have quiet: "\<exists>fs. mb_out (n_box (w_net ?w') q) =
      (if q = ?p then [] else mb_out (n_box (w_net w) q)) @ fs \<and> byeFrame \<notin> set fs" for q
  proof -
    obtain fs where fs: "mb_out (n_box (w_net ?w') q) = mb_out (n_box ?n0 q) @ fs"
      "set fs \<subseteq> {f. Send q f \<in> set (es @ join_unlocked ?p (Some r) (w_hub ?w'))}"
      unfolding net using outs_extend by blast
    have "Send q byeFrame \<notin> set (es @ join_unlocked ?p (Some r) (w_hub ?w'))"
      using sent [of q byeFrame] by (auto simp: join_unlocked_def Let_def)
    then show ?thesis using fs by (auto simp: new_box_def empty_box_def)
  qed
  have slot: "side (jm_Role m) (pairing (w_hub ?w') ?k) = Some ?p"
    using hub_join_pairing [OF assms(1,2), of env addr] by (simp add: spec_join_def side_def set_side_def)
  have "gone base (w_hub ?w') r" using inv' out r pr by (simp add: gone_def)
  then have later: "gone base (w_hub (fold run_op cs ?w')) r" for cs by (rule gone_ops)
  then have stays: "\<not> in_slot (w_hub (fold run_op cs ?w')) r" for cs by (simp add: gone_def)
  show ?thesis unfolding Let_def
    by (intro conjI allI closed quiet slot stays gone_silent [OF later])
qed

theorem replaced_peer_is_closed_and_harmless_witness:
  "mb_once (n_box (w_net (snd (hub_join demo_env (demo_msg roleDevice) [] demo_world1))) 0)"
proof -
  have "side (jm_Role (demo_msg roleDevice)) (pairing (w_hub demo_world1)
      (to_lower (je_utable demo_env) (jm_Session (demo_msg roleDevice)))) = Some 0"
    by (simp add: demo_key demo_pairing1) (simp add: demo_msg_def side_def)
  from replaced_peer_is_closed_and_harmless [OF demo_inv1 demo_check(1) this]
  show ?thesis by (simp add: Let_def)
qed

end
