(* ===== verification/HubLife.thy ===== *)
theory HubLife
  imports HubProps
begin

text \<open>
  The rest of a peer's life in the hub: what leaving, forwarding and the lonely
  timeout do, what happens to a peer that does not drain its queue, the credentials of
  a session, the start and the end of the hub.
\<close>

section \<open>Counterparts\<close>

text \<open>The counterpart of a registered peer.\<close>

definition counterpart :: "hub \<Rightarrow> nat \<Rightarrow> nat option" where
  "counterpart h p =
     (let pr = hb_peers h p
      in if in_slot h p
         then side (if p_role pr = roleDevice then rolePhone else roleDevice)
                (pairing h (p_sessionID pr))
         else None)"

lemma counterpart_other:
  assumes "hub_inv base h" "tbl_get (hb_sessions h) (p_sessionID (hb_peers h p)) = Some s"
    "slot (p_role (hb_peers h p)) s = Some p"
  shows "counterpart h p = other (p_role (hb_peers h p)) s" "in_slot h p"
proof -
  show i: "in_slot h p" using assms in_slot_iff by blast
  show "counterpart h p = other (p_role (hb_peers h p)) s"
    using i assms(2) by (simp add: counterpart_def Let_def other_def side_def pairing_def)
qed

lemma counterpart_other_role:
  assumes inv: "hub_inv base h" and c: "counterpart h p = Some q"
  shows "q \<noteq> p" "p_sessionID (hb_peers h q) = p_sessionID (hb_peers h p)"
    "p_role (hb_peers h q) \<noteq> p_role (hb_peers h p)" "in_slot h q"
proof -
  have "in_slot h p" using c by (auto simp: counterpart_def Let_def split: if_splits)
  then obtain s where s: "tbl_get (hb_sessions h) (p_sessionID (hb_peers h p)) = Some s"
    "slot (p_role (hb_peers h p)) s = Some p" using in_slot_iff [OF inv] by blast
  have o: "other (p_role (hb_peers h p)) s = Some q" using counterpart_other [OF inv s] c by simp
  then show "in_slot h q" using s(1) by (auto simp: in_slot_def other_def split: if_splits)
  have sl: "slots_ok h (p_sessionID (hb_peers h p)) s"
    using hub_invD(2) [OF inv s(1)] by (simp add: session_ok_def)
  have "p_sessionID (hb_peers h q) = p_sessionID (hb_peers h p)
      \<and> p_role (hb_peers h q) \<noteq> p_role (hb_peers h p)"
  proof (cases "p_role (hb_peers h p) = roleDevice")
    case True
    then show ?thesis using sl o by (auto simp: slots_ok_def peer_ok_def other_def)
  next
    case False
    then show ?thesis using sl o by (auto simp: slots_ok_def peer_ok_def other_def)
  qed
  then show "p_sessionID (hb_peers h q) = p_sessionID (hb_peers h p)"
    "p_role (hb_peers h q) \<noteq> p_role (hb_peers h p)" "q \<noteq> p" by auto
qed

text \<open>After its leave a peer is in no slot.\<close>

lemma leave_gone:
  assumes inv: "hub_inv base h"
  shows "\<not> in_slot (fst (leave_locked p h)) p"
proof
  let ?pr = "hb_peers h p"
  assume "in_slot (fst (leave_locked p h)) p"
  then obtain t where t: "tbl_get (hb_sessions (fst (leave_locked p h))) (p_sessionID ?pr) = Some t"
    "slot (p_role ?pr) t = Some p"
    using in_slot_iff [OF leave_locked_inv [OF inv], of p p] by (auto simp: leave_locked_frame)
  have "side (p_role ?pr) (pairing (fst (leave_locked p h)) (p_sessionID ?pr)) = Some p"
    using side_slot [OF t(1)] t(2) by simp
  then show False
    by (auto simp: leave_refines spec_leave_def side_def set_side_def split: if_splits)
qed

text \<open>What \<open>forward\<close> does, in terms of the counterpart.\<close>

lemma forward_effects_counterpart:
  assumes inv: "hub_inv base h"
  shows "forward_effects p ft raw h =
      (case counterpart h p of Some q \<Rightarrow> [CountForwarded ft, Send q raw]
       | None \<Rightarrow> if in_slot h p
           then [LogLine (log_at LDebug ''signaling frame dropped: no counterpart''
                   [(''role'', VStr (p_role (hb_peers h p))), (''session'', VStr (p_label (hb_peers h p))),
                    (''bytes'', VInt (int (length raw)))])] else [])"
proof (cases "in_slot h p")
  case True
  then obtain s where s: "tbl_get (hb_sessions h) (p_sessionID (hb_peers h p)) = Some s"
    "slot (p_role (hb_peers h p)) s = Some p" using in_slot_iff [OF inv] by blast
  then show ?thesis using True
    by (simp add: forward_effects_def Let_def counterpart_other(1) [OF inv s] split: option.splits)
next
  case False
  then show ?thesis using in_slot_iff [OF inv, of p]
    by (auto simp: forward_effects_def Let_def counterpart_def split: option.splits)
qed

lemma demo_counterpart: "counterpart (w_hub demo_world2) 1 = Some 0"
proof -
  have "in_slot (w_hub demo_world2) 1"
    using side_slot demo_pairing2 demo_phone in_slot_iff [OF demo_inv2, of 1]
    by (auto simp: pairing_def slot_def split: option.splits)
  then show ?thesis by (simp add: counterpart_def demo_phone [unfolded One_nat_def] demo_pairing2 side_def Let_def
      protocol_consts)
qed

section \<open>Armed timers\<close>

text \<open>
  A device that is in a slot has no armed timer but the one its session knows, so whoever stops
  that one leaves nothing behind that could expire the device later.  (A replaced device's timer
  keeps running, but that device is in no slot any more.)
\<close>

definition timers_tracked :: "hub \<Rightarrow> bool" where
  "timers_tracked h \<longleftrightarrow>
     (\<forall>t < hb_ntimers h. tm_peer (hb_timers h t) < hb_npeers h
        \<and> (tm_state (hb_timers h t) = Armed \<longrightarrow>
            (\<forall>k s. tbl_get (hb_sessions h) k = Some s \<longrightarrow> s_device s = Some (tm_peer (hb_timers h t)) \<longrightarrow>
               s_lonely s = Some t)))"

lemma timers_trackedD:
  assumes "timers_tracked h" "t < hb_ntimers h"
  shows "tm_peer (hb_timers h t) < hb_npeers h"
    "tm_state (hb_timers h t) = Armed \<Longrightarrow> tbl_get (hb_sessions h) k = Some s \<Longrightarrow>
       s_device s = Some (tm_peer (hb_timers h t)) \<Longrightarrow> s_lonely s = Some t"
  using assms by (auto simp: timers_tracked_def)

lemma stopLonely_peer [simp]: "tm_peer (snd (stopLonely s ts) t) = tm_peer (ts t)"
  by (auto simp: stopLonely_def timer_stop_def split: option.splits)

lemma stopLonely_armed:
  "tm_state (snd (stopLonely s ts) t) = Armed \<longleftrightarrow> tm_state (ts t) = Armed \<and> s_lonely s \<noteq> Some t"
  by (auto simp: stopLonely_def timer_stop_def split: option.splits)

lemma leave_tracked:
  assumes "timers_tracked h"
  shows "timers_tracked (fst (leave_locked p h))"
proof (cases "\<exists>s. tbl_get (hb_sessions h) (p_sessionID (hb_peers h p)) = Some s
    \<and> slot (p_role (hb_peers h p)) s = Some p")
  case True
  then obtain s where s: "tbl_get (hb_sessions h) (p_sessionID (hb_peers h p)) = Some s"
    "slot (p_role (hb_peers h p)) s = Some p" by blast
  have d: "s_device (leave_session pr s) = Some d \<Longrightarrow> s_device s = Some d" for pr d
    by (auto simp: leave_session_def setSlot_def split: if_splits)
  show ?thesis
    using timers_trackedD [OF assms] s(1)
    by (auto simp: leave_locked_hit [OF s] timers_tracked_def drop_or_keep_def tbl.get_put tbl.get_del
        stopLonely_armed dest!: d split: if_splits)
next
  case False
  then have "leave_locked p h = (h, [])" by (intro leave_locked_miss) blast
  then show ?thesis using assms by simp
qed

lemma expire_tracked: "timers_tracked h \<Longrightarrow> timers_tracked (fst (expire_locked p h))"
  by (cases "\<exists>s. tbl_get (hb_sessions h) (p_sessionID (hb_peers h p)) = Some s
      \<and> s_device s = Some p \<and> s_phone s = None")
     (auto simp: expire_locked_hit expire_locked_miss timers_tracked_def tbl.get_del split: if_splits)

lemma stop_all_frame: "tm_peer (stop_all ss ts t) = tm_peer (ts t)"
  by (induction ss arbitrary: ts) (auto simp: stop_all_def)

lemma close_tracked: "timers_tracked h \<Longrightarrow> timers_tracked (hub_close h)"
  by (auto simp: timers_tracked_def hub_close_def once_do_def hub_close_body_def Let_def stop_all_frame)

lemma pair_up_tracked:
  assumes pu: "pair_up p s h = (s', h', es)" and p: "p < hb_npeers h"
    and old: "\<And>t k x. t < hb_ntimers h \<Longrightarrow> tm_peer (hb_timers h t) < hb_npeers h"
    and mine: "\<And>t. t < hb_ntimers h \<Longrightarrow> tm_state (hb_timers h t) = Armed \<Longrightarrow>
       s_device s = Some (tm_peer (hb_timers h t)) \<Longrightarrow> s_lonely s = Some t"
    and role: "p_role (hb_peers h p) = roleDevice \<Longrightarrow>
       s_device s = Some p \<and> (\<forall>t < hb_ntimers h. tm_peer (hb_timers h t) \<noteq> p)"
    and others: "\<And>t k x. k \<noteq> key \<Longrightarrow> tbl_get (hb_sessions h) k = Some x \<Longrightarrow> t < hb_ntimers h \<Longrightarrow>
       tm_state (hb_timers h t) = Armed \<Longrightarrow> s_device x = Some (tm_peer (hb_timers h t)) \<Longrightarrow> s_lonely x = Some t"
    and apart: "\<And>k x. k \<noteq> key \<Longrightarrow> tbl_get (hb_sessions h) k = Some x \<Longrightarrow> s_device x \<noteq> Some p"
  shows "timers_tracked (h'\<lparr>hb_sessions := tbl_put key s' (hb_sessions h')\<rparr>)"
  using pu
proof (cases rule: pair_up_cases)
  case (paired d q)
  then show ?thesis using old mine others
    by (auto simp: timers_tracked_def tbl.get_put stopLonely_armed split: if_splits)
next
  case armed
  then show ?thesis using old mine others role apart p
    by (auto simp: timers_tracked_def tbl.get_put less_Suc_eq split: if_splits)
next
  case waits
  then show ?thesis using old mine others
    by (auto simp: timers_tracked_def tbl.get_put split: if_splits)
qed

lemma join_tracked:
  assumes inv: "hub_inv base h" and tr: "timers_tracked h"
    and np: "new_peer env m addr h = (p, h0)"
  shows "timers_tracked (fst (join_locked env p m h0))"
proof -
  note n = new_peer_inv [OF inv np] and nf = new_peer_frame [OF np]
  let ?pr = "hb_peers h0 p" let ?k = "p_sessionID ?pr"
  obtain s0 h1 where f: "find_session env ?k (jm_Session m) h0 = (s0, h1)" by force
  note fs = find_session_spec [OF n(1) f]
  obtain s4 h2 ready where pu: "pair_up p (join_slots m ?pr p s0) h1 = (s4, h2, ready)"
    by (metis prod_cases3)
  have fresh: "tm_peer (hb_timers h t) < p" if "t < hb_ntimers h" for t
    using timers_trackedD(1) [OF tr that] nf(4) by simp
  have nt: "hb_timers h1 = hb_timers h" "hb_ntimers h1 = hb_ntimers h" "hb_npeers h1 = hb_npeers h0"
    "hb_peers h1 = hb_peers h0" using fs nf by simp_all
  have old: "tbl_get (hb_sessions h) ?k = Some s0" if "s_device s0 \<noteq> None"
    using fs(13,14) that nf(2) by (cases "tbl_get (hb_sessions h) ?k") auto
  have "timers_tracked (h2\<lparr>hb_sessions := tbl_put ?k s4 (hb_sessions h2)\<rparr>)"
  proof (rule pair_up_tracked [OF pu])
    show "p < hb_npeers h1" using n(2) nt by simp
    show "tm_peer (hb_timers h1 t) < hb_npeers h1" if "t < hb_ntimers h1" for t
      using fresh [of t] that n(2) nt by simp
    show "s_lonely (join_slots m ?pr p s0) = Some t" if "t < hb_ntimers h1" "tm_state (hb_timers h1 t) = Armed"
      "s_device (join_slots m ?pr p s0) = Some (tm_peer (hb_timers h1 t))" for t
    proof -
      have "tm_peer (hb_timers h t) \<noteq> p" using fresh [of t] that nt by simp
      then have "s_device s0 = Some (tm_peer (hb_timers h t))"
        using that(3) nt join_slots_sides [of ?pr m p s0] by (cases "p_role ?pr = roleDevice") auto
      then show ?thesis using timers_trackedD(2) [OF tr, of t ?k s0] old that nt by simp
    qed
    show "s_device (join_slots m ?pr p s0) = Some p \<and> (\<forall>t < hb_ntimers h1. tm_peer (hb_timers h1 t) \<noteq> p)"
      if "p_role (hb_peers h1 p) = roleDevice"
      using that fresh nt join_slots_sides(1) by fastforce
    show "s_lonely x = Some t" if "k \<noteq> ?k" "tbl_get (hb_sessions h1) k = Some x" "t < hb_ntimers h1"
      "tm_state (hb_timers h1 t) = Armed" "s_device x = Some (tm_peer (hb_timers h1 t))" for t k x
      using timers_trackedD(2) [OF tr, of t k x] that nt fs(8) nf(2) by simp
    show "s_device x \<noteq> Some p" if "k \<noteq> ?k" "tbl_get (hb_sessions h1) k = Some x" for k x
      using n(3) that fs(8) by (auto simp: in_slot_def)
  qed
  then show ?thesis by (simp add: join_locked_eq [OF f pu])
qed

section \<open>Properties\<close>

text \<open>C5: Leaving tells the counterpart, and only the counterpart, with one bye, and the session
  disappears exactly when nobody is left in it; a peer that is in no slot any more leaves
  without sending anything or changing the registry.\<close>

theorem leave_notifies_counterpart:
  assumes inv: "hub_inv base h"
  shows "if in_slot h p
    then sends (snd (leave_locked p h)) =
           (case counterpart h p of None \<Rightarrow> [] | Some q \<Rightarrow> [(q, byeFrame)])
         \<and> (tbl_get (hb_sessions (fst (leave_locked p h))) (p_sessionID (hb_peers h p)) = None
              \<longleftrightarrow> counterpart h p = None)
         \<and> \<not> in_slot (fst (leave_locked p h)) p
    else leave_locked p h = (h, [])"
proof (cases "in_slot h p")
  case False
  then have "leave_locked p h = (h, [])"
    using in_slot_iff [OF inv] by (intro leave_locked_miss) blast
  then show ?thesis using False by simp
next
  case True
  let ?pr = "hb_peers h p"
  obtain s where s: "tbl_get (hb_sessions h) (p_sessionID ?pr) = Some s" "slot (p_role ?pr) s = Some p"
    using True in_slot_iff [OF inv] by blast
  note c = counterpart_other(1) [OF inv s]
  have e: "isEmpty (leave_session ?pr s) \<longleftrightarrow> other (p_role ?pr) s = None"
    by (auto simp: leave_session_def isEmpty_def setSlot_def other_def)
  have "\<not> in_slot (fst (leave_locked p h)) p" by (rule leave_gone [OF inv])
  then show ?thesis using True c e
    by (auto simp: leave_locked_hit [OF s] drop_or_keep_def tbl.get_put tbl.get_del split: option.splits)
qed

theorem leave_notifies_counterpart_witness:
  "\<not> in_slot (fst (leave_locked 0 (w_hub demo_world2))) 0"
  using leave_notifies_counterpart [OF demo_inv2, of 0] by (auto split: if_splits)

text \<open>An offer, answer or candidate goes byte for byte to the counterpart in the same session,
  which is a different peer of the other role, and to nobody else; a peer that was replaced or
  has left forwards nothing; the registry is not changed.\<close>

theorem forward_is_verbatim:
  assumes inv: "hub_inv base (w_hub w)"
  shows "sends (forward_effects p ft raw (w_hub w)) =
      (case counterpart (w_hub w) p of None \<Rightarrow> [] | Some q \<Rightarrow> [(q, raw)])
    \<and> (\<forall>q. counterpart (w_hub w) p = Some q \<longrightarrow>
         q \<noteq> p \<and> p_role (hb_peers (w_hub w) q) \<noteq> p_role (hb_peers (w_hub w) p)
         \<and> p_sessionID (hb_peers (w_hub w) q) = p_sessionID (hb_peers (w_hub w) p)
         \<and> (box_has_room (n_box (w_net w) q) \<longrightarrow>
              mb_out (n_box (w_net (hub_forward p ft raw w)) q) = mb_out (n_box (w_net w) q) @ [raw]))
    \<and> w_hub (hub_forward p ft raw w) = w_hub w"
proof -
  let ?h = "w_hub w"
  note eff = forward_effects_counterpart [OF inv, of p ft raw]
  have "sends (forward_effects p ft raw ?h) =
      (case counterpart ?h p of None \<Rightarrow> [] | Some q \<Rightarrow> [(q, raw)])"
    by (auto simp: eff split: option.splits)
  moreover have "mb_out (n_box (w_net (hub_forward p ft raw w)) q) = mb_out (n_box (w_net w) q) @ [raw]"
    if "counterpart ?h p = Some q" "box_has_room (n_box (w_net w) q)" for q
    using that by (simp add: hub_forward_def eff peer_send_def countMessageForwarded_def)
  ultimately show ?thesis using counterpart_other_role [OF inv] by simp
qed

theorem forward_is_verbatim_witness:
  "sends (forward_effects 1 typeOffer ''x'' (w_hub demo_world2)) =
      (case counterpart (w_hub demo_world2) 1 of None \<Rightarrow> [] | Some q \<Rightarrow> [(q, ''x'')])"
  using forward_is_verbatim [OF demo_inv2, of 1 typeOffer "''x''"] by blast

text \<open>C9: A device that joins a session without a phone gets an armed timer for exactly the
  configured wait.  A join that completes a pair leaves no timer behind: the session knows none, and no
  armed timer anywhere is for its device.  That a device in a slot has no armed timer but
  its session's own is kept by every operation.\<close>

theorem lonely_timer_set_and_cleared:
  assumes inv: "hub_inv base (w_hub w)" and ok: "join_check m = None"
    and t: "cfg_NoReceiverTimeout (hb_cfg (w_hub w)) > 0" and tr: "timers_tracked (w_hub w)"
  shows "\<exists>s. tbl_get (hb_sessions (w_hub (snd (hub_join env m addr w))))
        (to_lower (je_utable env) (jm_Session m)) = Some s
    \<and> (if s_device s \<noteq> None \<and> s_phone s \<noteq> None
       then s_lonely s = None
         \<and> (\<forall>u < hb_ntimers (w_hub (snd (hub_join env m addr w))).
              tm_state (hb_timers (w_hub (snd (hub_join env m addr w))) u) = Armed \<longrightarrow>
              s_device s \<noteq> Some (tm_peer (hb_timers (w_hub (snd (hub_join env m addr w))) u)))
       else jm_Role m = roleDevice \<longrightarrow>
         (\<exists>t. s_lonely s = Some t \<and> hb_timers (w_hub (snd (hub_join env m addr w))) t =
            \<lparr>tm_peer = hb_npeers (w_hub w), tm_after = cfg_NoReceiverTimeout (hb_cfg (w_hub w)),
             tm_state = Armed\<rparr>))
    \<and> timers_tracked (w_hub (snd (hub_join env m addr w))) \<and> timers_tracked (w_hub (hub_leave p w))
    \<and> timers_tracked (w_hub (hub_expire p w)) \<and> timers_tracked (hub_close (w_hub w))"
proof -
  let ?h' = "w_hub (snd (hub_join env m addr w))"
  obtain q h0 where np: "new_peer env m addr (w_hub w) = (q, h0)" by force
  note n = new_peer_inv [OF inv np] and nf = new_peer_frame [OF np]
  obtain s0 h1 where f: "find_session env (p_sessionID (hb_peers h0 q)) (jm_Session m) h0 = (s0, h1)"
    by force
  note fs = find_session_spec [OF n(1) f]
  obtain s4 h2 ready where pu: "pair_up q (join_slots m (hb_peers h0 q) q s0) h1 = (s4, h2, ready)"
    by (metis prod_cases3)
  have h': "?h' = h2\<lparr>hb_sessions := tbl_put (p_sessionID (hb_peers h0 q)) s4 (hb_sessions h2)\<rparr>"
    by (simp add: hub_join_eq [OF ok np] join_locked_eq [OF f pu])
  have get: "tbl_get (hb_sessions ?h') (to_lower (je_utable env) (jm_Session m)) = Some s4"
    by (simp add: h' nf(7) tbl.get_put)
  have tracked: "timers_tracked ?h'"
    using join_tracked [OF inv tr np] by (simp add: hub_join_eq [OF ok np])
  have "if s_device s4 \<noteq> None \<and> s_phone s4 \<noteq> None then s_lonely s4 = None
       else jm_Role m = roleDevice \<longrightarrow>
         (\<exists>t. s_lonely s4 = Some t \<and> hb_timers h2 t =
            \<lparr>tm_peer = q, tm_after = cfg_NoReceiverTimeout (hb_cfg h1), tm_state = Armed\<rparr>)"
    using pu
  proof (cases rule: pair_up_cases)
    case waits
    then have "jm_Role m \<noteq> roleDevice" using t nf fs by simp
    then show ?thesis using waits by auto
  qed (auto)
  moreover have "s_device s4 \<noteq> Some (tm_peer (hb_timers ?h' u))"
    if "s_lonely s4 = None" "u < hb_ntimers ?h'" "tm_state (hb_timers ?h' u) = Armed" for u
    using timers_trackedD(2) [OF tracked that(2,3) get] that(1) by auto
  ultimately show ?thesis
    using fs(5) nf(3) get tracked leave_tracked [OF tr, of p] expire_tracked [OF tr, of p] close_tracked [OF tr]
    by (auto simp: h' nf(4) hub_leave_def hub_expire_def split_beta split: if_splits)
qed

theorem lonely_timer_set_and_cleared_witness:
  "\<exists>s. tbl_get (hb_sessions (w_hub demo_world1)) ''s1'' = Some s \<and> timers_tracked (w_hub demo_world1)"
proof -
  have "timers_tracked (w_hub demo_world0)" "cfg_NoReceiverTimeout (hb_cfg (w_hub demo_world0)) > 0"
    by (simp_all add: timers_tracked_def demo_world0_def demo_hub_def demo_config_def time_second_def)
  from lonely_timer_set_and_cleared [OF demo_inv0 demo_check(1) this(2,1), of demo_env "''a:1''" 0]
  show ?thesis by (auto simp: demo_key simp flip: demo_world1_def)
qed

text \<open>When the lonely timer fires, a device that is still alone in its session gets exactly one
  bye and a close request, and the session goes; if a phone has arrived, or the device has
  left or been replaced, nothing happens at all.\<close>

theorem lonely_timeout_effect:
  shows "if pairing h (p_sessionID (hb_peers h p)) = (Some p, None)
    then sends (snd (expire_locked p h)) = [(p, byeFrame)]
         \<and> ClosePeer p ''no receiver'' \<in> set (snd (expire_locked p h))
         \<and> tbl_get (hb_sessions (fst (expire_locked p h))) (p_sessionID (hb_peers h p)) = None
    else expire_locked p h = (h, [])"
proof (cases "pairing h (p_sessionID (hb_peers h p)) = (Some p, None)")
  case True
  then obtain s where "tbl_get (hb_sessions h) (p_sessionID (hb_peers h p)) = Some s"
    "s_device s = Some p" "s_phone s = None"
    by (cases "tbl_get (hb_sessions h) (p_sessionID (hb_peers h p))") (auto simp: pairing_def)
  then show ?thesis using True by (simp add: expire_locked_hit tbl.get_del)
next
  case False
  then have "expire_locked p h = (h, [])"
    by (intro expire_locked_miss) (auto simp: pairing_def)
  then show ?thesis using False by simp
qed

theorem lonely_timeout_effect_witness:
  "expire_locked 0 (w_hub demo_world2) = (w_hub demo_world2, [])
   \<or> sends (snd (expire_locked 0 (w_hub demo_world2))) = [(0, byeFrame)]"
  using lonely_timeout_effect [where h = "w_hub demo_world2" and p = 0] by (auto split: if_splits)

text \<open>The wait is timed only from the device's own join: when the phone of a pair leaves, the
  device stays alone in its session with no timer, so it is never sent bye however long it
  waits (the configuration comment promises a bye to any device that waits alone).\<close>

theorem device_left_alone_is_not_timed:
  assumes inv: "hub_inv base h"
    and pair: "pairing h (p_sessionID (hb_peers h q)) = (Some d, Some q)"
    and role: "p_role (hb_peers h q) = rolePhone"
  shows "\<exists>s. tbl_get (hb_sessions (fst (leave_locked q h))) (p_sessionID (hb_peers h q)) = Some s
      \<and> s_device s = Some d \<and> s_phone s = None \<and> s_lonely s = None
    \<and> hb_timers (fst (leave_locked q h)) = hb_timers h"
proof -
  let ?k = "p_sessionID (hb_peers h q)"
  obtain s where s: "tbl_get (hb_sessions h) ?k = Some s" "s_device s = Some d" "s_phone s = Some q"
    using pair by (cases "tbl_get (hb_sessions h) ?k") (auto simp: pairing_def)
  have l: "s_lonely s = None"
    using hub_invD(2) [OF inv s(1)] s(3) by (auto simp: session_ok_def lonely_ok_def)
  have sl: "slot (p_role (hb_peers h q)) s = Some q" using role s(3) by (simp add: slot_def)
  show ?thesis using s l role
    by (simp add: leave_locked_hit [OF s(1) sl] drop_or_keep_def leave_session_def setSlot_def
        isEmpty_def tbl.get_put stopLonely_def)
qed

theorem device_left_alone_is_not_timed_witness:
  "\<exists>s. tbl_get (hb_sessions (fst (leave_locked 1 (w_hub demo_world2)))) ''s1'' = Some s
      \<and> s_device s = Some 0 \<and> s_phone s = None \<and> s_lonely s = None"
proof -
  have "pairing (w_hub demo_world2) (p_sessionID (hb_peers (w_hub demo_world2) 1)) = (Some 0, Some 1)"
    by (simp only: demo_phone demo_pairing2)
  from device_left_alone_is_not_timed [OF demo_inv2 this demo_phone(2)] show ?thesis
    unfolding demo_phone(1) by blast
qed

text \<open>C10: A send never blocks.  A burst of frames to one peer queues exactly as many as its buffer
  has room for, in order.  The first frame that does not fit writes the close request "send
  buffer full", unless the peer's close has already been asked for; with room for all, no close is asked
  for.  Every frame that does not fit is counted as a slow-peer drop.\<close>

theorem burst_fills_then_closes:
  assumes "length (mb_out (n_box n p)) \<le> mb_cap (n_box n p)"
  defines "room \<equiv> mb_cap (n_box n p) - length (mb_out (n_box n p))"
  shows "mb_out (n_box (perform_all (map (Send p) ms) n) p) = mb_out (n_box n p) @ take room ms
    \<and> (let old = n_box n p; new = n_box (perform_all (map (Send p) ms) n) p in
        if room < length ms \<and> \<not> mb_once old
        then mb_once new \<and> (mb_closing old = [] \<longrightarrow> mb_closing new = [''send buffer full''])
        else mb_once new = mb_once old \<and> mb_closing new = mb_closing old)
    \<and> n_slowDrops (perform_all (map (Send p) ms) n) = n_slowDrops n + of_nat (length ms - room)"
  using box_out.burst [OF assms(1), of ms] burst_close_request [OF assms(1), of ms] burst_drops [OF assms(1), of ms]
  by (simp add: burst_box room_def Let_def)

theorem burst_fills_then_closes_witness:
  "mb_out (n_box (perform_all (map (Send 3) [''a'', ''b'', ''c''])
      (empty_net\<lparr>n_box := (\<lambda>_. empty_box 2)\<rparr>)) 3) = [''a'', ''b'']
   \<and> mb_closing (n_box (perform_all (map (Send 3) [''a'', ''b'', ''c''])
      (empty_net\<lparr>n_box := (\<lambda>_. empty_box 2)\<rparr>)) 3) = [''send buffer full'']"
  using burst_fills_then_closes [of "empty_net\<lparr>n_box := (\<lambda>_. empty_box 2)\<rparr>" 3 "[''a'', ''b'', ''c'']"]
  by (simp add: empty_net_def empty_box_def Let_def del: perform_all_simps)

text \<open>Session ids compare without regard to case: a device and a phone that write one ASCII id
  in different case end up in one session, paired.\<close>

theorem ids_pair_case_insensitively:
  assumes inv: "hub_inv base (w_hub w)" and "ascii sid" "sid \<noteq> []"
    and free: "tbl_get (hb_sessions (w_hub w)) (to_lower (je_utable env) sid) = None"
    and md: "md = \<lparr>jm_Type = typeJoin, jm_Role = roleDevice, jm_Session = sid, jm_Imei = imei\<rparr>"
    and mp: "mp = \<lparr>jm_Type = typeJoin, jm_Role = rolePhone, jm_Session = map ascii_upper sid, jm_Imei = imei'\<rparr>"
  shows "pairing (w_hub (snd (hub_join env mp a' (snd (hub_join env md a w))))) (to_lower (je_utable env) sid)
    = (Some (hb_npeers (w_hub w)), Some (hb_npeers (w_hub (snd (hub_join env md a w)))))"
proof -
  have c: "join_check md = None" "join_check mp = None"
    using assms(3) by (simp_all add: join_check_def md mp)
  have k: "to_lower (je_utable env) (jm_Session mp) = to_lower (je_utable env) sid"
    using assms(2) by (simp add: mp to_lower_upper)
  have "pairing (w_hub w) (to_lower (je_utable env) sid) = (None, None)"
    using free by (simp add: pairing_def)
  then show ?thesis
    using hub_join_pairing [OF inv c(1), of env a]
      hub_join_pairing [OF hub_join_inv [OF inv, of env md a] c(2), of env a']
    by (simp add: k) (simp add: md mp spec_join_def set_side_def)
qed

theorem ids_pair_case_insensitively_witness:
  "snd (pairing (w_hub (snd (hub_join demo_env (demo_msg rolePhone) ''b:2''
      (snd (hub_join demo_env \<lparr>jm_Type = typeJoin, jm_Role = roleDevice, jm_Session = ''s1'', jm_Imei = []\<rparr>
        ''a:1'' demo_world0))))) ''s1'') \<noteq> None"
proof -
  have u: "map ascii_upper ''s1'' = ''S1''" and l: "to_lower (je_utable demo_env) ''s1'' = ''s1''"
    by (simp_all add: ascii_upper_def to_lower_def ascii_lower_def chr_of_eq_iff)
  have f: "tbl_get (hb_sessions (w_hub demo_world0)) (to_lower (je_utable demo_env) ''s1'') = None"
    by (simp add: demo_world0_def demo_hub_def)
  have a: "ascii ''s1''" "''s1'' \<noteq> []" by simp_all
  from ids_pair_case_insensitively [OF demo_inv0 a f refl refl, of "[]" "''b:2''" "[]" "''a:1''"]
  show ?thesis unfolding l u demo_msg_def by simp
qed

text \<open>Both sides of a session are handed one and the same TURN credential, whose password is
  its user name; the credential survives a replaced peer, because the token belongs to the
  session; and without a TURN URL the field is null.\<close>

theorem session_credential:
  assumes inv: "hub_inv base (w_hub w)" and ok: "join_check m = None"
  shows "\<exists>s. tbl_get (hb_sessions (w_hub (snd (hub_join env m addr w))))
        (to_lower (je_utable env) (jm_Session m)) = Some s
    \<and> (\<forall>b. readyFrame (hb_cfg (w_hub w)) s b = marshal_ready
          \<lparr>rm_Type = typeReady, rm_Initiator = b, rm_Stun = cfg_StunURL (hb_cfg (w_hub w)),
           rm_Turn = (if cfg_TurnURL (hb_cfg (w_hub w)) = [] then None
             else Some \<lparr>tc_URL = cfg_TurnURL (hb_cfg (w_hub w)), tc_User = s_turnToken s,
                        tc_Pass = s_turnToken s\<rparr>)\<rparr>)
    \<and> (\<forall>s'. tbl_get (hb_sessions (w_hub w)) (to_lower (je_utable env) (jm_Session m)) = Some s'
          \<longrightarrow> s_turnToken s = s_turnToken s')"
proof -
  obtain s where "tbl_get (hb_sessions (w_hub (snd (hub_join env m addr w))))
       (to_lower (je_utable env) (jm_Session m)) = Some s"
    "\<And>s'. tbl_get (hb_sessions (w_hub w)) (to_lower (je_utable env) (jm_Session m)) = Some s' \<Longrightarrow>
       s_turnToken s = s_turnToken s'"
    using hub_join_accepted [OF inv ok, of env addr] by metis
  then show ?thesis by (auto simp: readyFrame_def credentialFor_def)
qed

theorem session_credential_witness:
  "\<exists>s. tbl_get (hb_sessions (w_hub demo_world2)) ''s1'' = Some s"
  using session_credential [OF demo_inv1 demo_check(2), of demo_env "''b:2''"]
  by (simp add: demo_key flip: demo_world2_def) blast

section \<open>The start and the end of the hub\<close>

interpretation hub_once: one_shot hb_closed "\<lambda>_ :: unit. hub_close"
  by unfold_locales (auto simp: hub_close_def once_do_def)

lemma stopLonely_states:
  "tm_state (ts t) \<noteq> Armed \<Longrightarrow> tm_state (snd (stopLonely s ts) t) \<noteq> Armed"
  "s_lonely s = Some t \<Longrightarrow> tm_state (snd (stopLonely s ts) t) \<noteq> Armed"
  by (auto simp: stopLonely_def timer_stop_def split: option.splits)

lemma stop_all_simps [simp]:
  "stop_all [] ts = ts" "stop_all (a # ss) ts = stop_all ss (snd (stopLonely (snd a) ts))"
  by (simp_all add: stop_all_def split_beta)

lemma stop_all_keeps: "tm_state (ts t) \<noteq> Armed \<Longrightarrow> tm_state (stop_all ss ts t) \<noteq> Armed"
proof (induction ss arbitrary: ts)
  case (Cons a ss)
  then show ?case using stopLonely_states(1) by (simp only: stop_all_simps) blast
qed simp

lemma stop_all_stops:
  "(k, s) \<in> set ss \<Longrightarrow> s_lonely s = Some t \<Longrightarrow> tm_state (stop_all ss ts t) \<noteq> Armed"
proof (induction ss arbitrary: ts)
  case (Cons a ss)
  show ?case
  proof (cases "a = (k, s)")
    case True
    then show ?thesis using Cons.prems(2)
      by (metis snd_conv stop_all_keeps stop_all_simps(2) stopLonely_states(2))
  next
    case False
    then show ?thesis using Cons by auto
  qed
qed simp

text \<open>Closing the hub empties the registry, stops every lonely timer that is still armed
  and gives back exactly what its sessions had added to the process-wide gauge; and however
  often \<open>Close\<close> is called, the effect is that of the first call.\<close>

theorem close_releases_everything_once:
  assumes inv: "hub_inv base h" and fresh: "\<not> hb_closed h"
  shows "hb_sessions (hub_close h) = [] \<and> hb_active (hub_close h) = base \<and> hb_closed (hub_close h)
    \<and> (\<forall>k s t. tbl_get (hb_sessions h) k = Some s \<longrightarrow> s_lonely s = Some t \<longrightarrow>
         tm_state (hb_timers (hub_close h) t) \<noteq> Armed)
    \<and> fold (\<lambda>_. hub_close) (a # as :: unit list) h = hub_close h"
proof -
  have base: "hb_active h + of_int (- int (length (hb_sessions h))) = base"
    using hub_invD(3) [OF inv] by simp
  have eq: "hub_close h = (hub_close_body h)\<lparr>hb_closed := True\<rparr>"
    using fresh by (simp add: hub_close_def once_do_def)
  have "tm_state (hb_timers (hub_close h) t) \<noteq> Armed"
    if "tbl_get (hb_sessions h) k = Some s" "s_lonely s = Some t" for k s t
    using that stop_all_stops [of k s "hb_sessions h" t "hb_timers h"]
    by (simp add: eq hub_close_body_def Let_def tbl_get_def map_of_SomeD)
  then show ?thesis
    using base hub_once.first_wins [of a as h] by (simp add: eq hub_close_body_def Let_def)
qed

theorem close_releases_everything_once_witness:
  "hb_sessions (hub_close (w_hub demo_world1)) = [] \<and> hb_active (hub_close (w_hub demo_world1)) = 0"
proof -
  have "\<not> hb_closed (w_hub demo_world1)"
  proof -
    obtain p h0 where np: "new_peer demo_env (demo_msg roleDevice) ''a:1'' (w_hub demo_world0) = (p, h0)"
      by force
    then have "\<not> hb_closed h0" by (auto simp: new_peer_def demo_world0_def demo_hub_def)
    then show ?thesis
      by (simp add: demo_world1_def hub_join_eq [OF demo_check(1) np] join_locked_frame)
  qed
  from close_releases_everything_once [OF demo_inv1 this] show ?thesis by blast
qed

text \<open>\<open>New\<close> refuses a missing configuration and the reserved REST secret, and otherwise
  returns an empty hub whose send buffer and ping timeout are positive: the configured values
  where those are positive, 16 frames and ten seconds where not.\<close>

theorem new_validates_and_defaults:
  "hub_new oc active =
     (case oc of None \<Rightarrow> Inl NilConfig
      | Some c \<Rightarrow> if cfg_TurnSecret c \<noteq> [] then Inl TurnSecretUnimplemented
          else hub_new (Some (c\<lparr>cfg_SendBuffer := (if cfg_SendBuffer c > 0 then cfg_SendBuffer c else 16),
                 cfg_PingTimeout := (if cfg_PingTimeout c > 0 then cfg_PingTimeout c else 10000000000)\<rparr>)) active)
   \<and> (\<forall>h. hub_new oc active = Inr h \<longrightarrow> hub_inv active h \<and> sessionCount h = 0
        \<and> cfg_SendBuffer (hb_cfg h) > 0 \<and> cfg_PingTimeout (hb_cfg h) > 0 \<and> mb_cap (new_box h) > 0)"
proof
  show "hub_new oc active =
     (case oc of None \<Rightarrow> Inl NilConfig
      | Some c \<Rightarrow> if cfg_TurnSecret c \<noteq> [] then Inl TurnSecretUnimplemented
          else hub_new (Some (c\<lparr>cfg_SendBuffer := (if cfg_SendBuffer c > 0 then cfg_SendBuffer c else 16),
                 cfg_PingTimeout := (if cfg_PingTimeout c > 0 then cfg_PingTimeout c else 10000000000)\<rparr>)) active)"
    by (simp add: hub_new_def defaultSendBuffer_def defaultPingTimeout_def time_second_def
        split: option.split)
  show "\<forall>h. hub_new oc active = Inr h \<longrightarrow> hub_inv active h \<and> sessionCount h = 0
        \<and> cfg_SendBuffer (hb_cfg h) > 0 \<and> cfg_PingTimeout (hb_cfg h) > 0 \<and> mb_cap (new_box h) > 0"
  proof (intro allI impI)
    fix h assume h: "hub_new oc active = Inr h"
    then have "sessionCount h = 0" "cfg_SendBuffer (hb_cfg h) > 0" "cfg_PingTimeout (hb_cfg h) > 0"
      by (auto simp: hub_new_def Let_def sessionCount_def defaultSendBuffer_def defaultPingTimeout_def
          time_second_def split: option.splits if_splits)
    then show "hub_inv active h \<and> sessionCount h = 0
        \<and> cfg_SendBuffer (hb_cfg h) > 0 \<and> cfg_PingTimeout (hb_cfg h) > 0 \<and> mb_cap (new_box h) > 0"
      using hub_new_inv [OF h] by (simp add: new_box_def empty_box_def)
  qed
qed

theorem new_validates_and_defaults_witness:
  "hub_inv 3 (demo_hub\<lparr>hb_active := 3\<rparr>)"
proof -
  have "hub_new (Some demo_config) 3 = Inr (demo_hub\<lparr>hb_active := 3\<rparr>)"
    by (simp add: hub_new_def demo_config_def demo_hub_def defaultPingTimeout_def)
  then show ?thesis using new_validates_and_defaults [of "Some demo_config" 3] by blast
qed

end
