(* ===== verification/Relay.thy ===== *)
theory Relay
  imports HubLife
begin

text \<open>
  The hub under concurrency.  Every connection goroutine and every fired lonely timer
  (\<open>gid\<close>) runs its hub calls as sequences of atomic instructions, interleaved in any
  order: a critical section takes the mutex, changes the registry and leaves a list of
  instructions behind (its sends, the unlock where the code still holds the mutex while it
  sends, and what the code does afterwards); the writers drain the peers' channels to
  the sockets, and the timers fire at any moment.  \<open>r_wire p\<close> is what has been written
  to the socket of peer \<open>p\<close>.

  The registry part of a critical section is one step, and a section that sends nothing under the
  mutex (leave, forward, expiry) is one step with its unlock.  That is faithful by
  \<open>HubLocks\<close>, which has the methods statement by statement, every unlock written out: every
  interleaving of them is equivalent to indivisible calls, and what a call sends
  does not depend on the registry after its unlock.
\<close>

section \<open>Threads and steps\<close>

datatype gid = Conn nat | Timer nat

datatype instr = Do effect | Unlock

record relay =
  r_hub :: hub
  r_net :: net
  r_owner :: "gid option"
  r_tasks :: "gid \<Rightarrow> instr list"
  r_wire :: "nat \<Rightarrow> string list"

definition relay_start :: "hub \<Rightarrow> relay" where
  "relay_start h =
     \<lparr>r_hub = h, r_net = empty_net, r_owner = None, r_tasks = (\<lambda>_. []), r_wire = (\<lambda>_. [])\<rparr>"

text \<open>A hub that \<open>New\<close> has just returned, the gauge standing at \<open>base\<close>.\<close>

definition relay_init :: "64 word \<Rightarrow> relay \<Rightarrow> bool" where
  "relay_init base s \<longleftrightarrow> (\<exists>c h. hub_new (Some c) base = Inr h \<and> s = relay_start h)"

definition relayed_type :: "string \<Rightarrow> bool" where
  "relayed_type ft \<longleftrightarrow> ft \<in> {typeOffer, typeAnswer, typeCandidate}"

inductive rstep :: "relay \<Rightarrow> relay \<Rightarrow> bool" where
  step_join:
    "\<lbrakk>r_owner s = None; join_check m = None; new_peer env m addr (r_hub s) = (p, h0);
      join_locked env p m h0 = (h1, locked, replaced)\<rbrakk>
     \<Longrightarrow> rstep s (s\<lparr>r_hub := h1,
           r_net := (r_net s)\<lparr>n_box := (n_box (r_net s))(p := new_box (r_hub s))\<rparr>,
           r_owner := Some (Conn p),
           r_tasks := (r_tasks s)(Conn p :=
             map Do locked @ [Unlock] @ map Do (join_unlocked p replaced h1))\<rparr>)"
| step_leave:
    "\<lbrakk>r_owner s = None; p < hb_npeers (r_hub s); r_tasks s (Conn p) = [];
      leave_locked p (r_hub s) = (h1, es)\<rbrakk>
     \<Longrightarrow> rstep s (s\<lparr>r_hub := h1, r_tasks := (r_tasks s)(Conn p := map Do es)\<rparr>)"
| step_forward:
    "\<lbrakk>r_owner s = None; p < hb_npeers (r_hub s); r_tasks s (Conn p) = [];
      frameType raw = (ft, True); relayed_type ft\<rbrakk>
     \<Longrightarrow> rstep s (s\<lparr>r_tasks := (r_tasks s)(Conn p := map Do (forward_effects p ft raw (r_hub s)))\<rparr>)"
| step_fire:
    "\<lbrakk>t < hb_ntimers (r_hub s); tm_state (hb_timers (r_hub s) t) = Armed\<rbrakk>
     \<Longrightarrow> rstep s (s\<lparr>r_hub := (r_hub s)\<lparr>hb_timers := (hb_timers (r_hub s))(t :=
           (hb_timers (r_hub s) t)\<lparr>tm_state := Firing\<rparr>)\<rparr>\<rparr>)"
| step_expire:
    "\<lbrakk>r_owner s = None; t < hb_ntimers (r_hub s); tm_state (hb_timers (r_hub s) t) = Firing;
      expire_locked (tm_peer (hb_timers (r_hub s) t)) (r_hub s) = (h1, es)\<rbrakk>
     \<Longrightarrow> rstep s (s\<lparr>r_hub := h1\<lparr>hb_timers := (hb_timers h1)(t :=
             (hb_timers h1 t)\<lparr>tm_state := Fired\<rparr>)\<rparr>,
           r_tasks := (r_tasks s)(Timer t := map Do es)\<rparr>)"
| step_do:
    "r_tasks s g = Do e # ts \<Longrightarrow>
     rstep s (s\<lparr>r_net := perform e (r_net s), r_tasks := (r_tasks s)(g := ts)\<rparr>)"
| step_unlock:
    "\<lbrakk>r_owner s = Some g; r_tasks s g = Unlock # ts\<rbrakk>
     \<Longrightarrow> rstep s (s\<lparr>r_owner := None, r_tasks := (r_tasks s)(g := ts)\<rparr>)"
| step_write:
    "\<lbrakk>p < hb_npeers (r_hub s); mb_out (n_box (r_net s) p) = f # fs\<rbrakk> \<Longrightarrow>
     rstep s (s\<lparr>r_net := (r_net s)\<lparr>n_box := (n_box (r_net s))(p :=
             (n_box (r_net s) p)\<lparr>mb_out := fs\<rparr>)\<rparr>,
           r_wire := (r_wire s)(p := r_wire s p @ [f])\<rparr>)"
| step_close:
    "\<lbrakk>p < hb_npeers (r_hub s); mb_closing (n_box (r_net s) p) = reason # rs\<rbrakk> \<Longrightarrow>
     rstep s (s\<lparr>r_net := (r_net s)\<lparr>n_box := (n_box (r_net s))(p :=
             (n_box (r_net s) p)\<lparr>mb_closing := rs\<rparr>)\<rparr>\<rparr>)"

inductive_cases rstepE: "rstep s t"

section \<open>What is invariant\<close>

text \<open>What has been queued for or written to a peer, oldest first.\<close>

definition history :: "relay \<Rightarrow> nat \<Rightarrow> string list" where
  "history s p = r_wire s p @ mb_out (n_box (r_net s) p)"

text \<open>
  The frames a peer may ever be sent: the server's own, with the initiator flag of the
  peer's role, and the three kinds a counterpart may have passed through.
\<close>

definition frame_ok :: "hub \<Rightarrow> nat \<Rightarrow> string \<Rightarrow> bool" where
  "frame_ok h q f \<longleftrightarrow>
     f = joinedFrame \<or> f = byeFrame \<or> (\<exists>x. f = remoteJoinedFrame x)
     \<or> (\<exists>c s. f = readyFrame c s (p_role (hb_peers h q) = rolePhone))
     \<or> (\<exists>ft. frameType f = (ft, True) \<and> relayed_type ft)"

definition greeting :: "relay \<Rightarrow> nat \<Rightarrow> bool" where
  "greeting s p \<longleftrightarrow>
     r_owner s = Some (Conn p) \<and> history s p = []
     \<and> (\<exists>ts. r_tasks s (Conn p) = Do (Send p joinedFrame) # ts)
     \<and> (\<forall>g f. g \<noteq> Conn p \<longrightarrow> Do (Send p f) \<notin> set (r_tasks s g))"

definition greeted :: "relay \<Rightarrow> nat \<Rightarrow> bool" where
  "greeted s p \<longleftrightarrow> (\<exists>fs. history s p = joinedFrame # fs)"

definition box_ok :: "mailbox \<Rightarrow> bool" where
  "box_ok b \<longleftrightarrow> 0 < mb_cap b \<and> length (mb_out b) \<le> mb_cap b"

definition sends_ok :: "relay \<Rightarrow> bool" where
  "sends_ok s \<longleftrightarrow>
     (\<forall>g q f. Do (Send q f) \<in> set (r_tasks s g) \<longrightarrow> q < hb_npeers (r_hub s) \<and> frame_ok (r_hub s) q f)"

definition peer_safe :: "relay \<Rightarrow> nat \<Rightarrow> bool" where
  "peer_safe s p \<longleftrightarrow>
     box_ok (n_box (r_net s) p) \<and> (greeting s p \<or> greeted s p)
     \<and> (\<forall>f\<in>set (history s p). frame_ok (r_hub s) p f)"

definition timers_ok :: "hub \<Rightarrow> bool" where
  "timers_ok h \<longleftrightarrow> (\<forall>t < hb_ntimers h. tm_peer (hb_timers h t) < hb_npeers h)"

definition relay_inv :: "64 word \<Rightarrow> relay \<Rightarrow> bool" where
  "relay_inv base s \<longleftrightarrow>
     hub_inv base (r_hub s) \<and> cfg_SendBuffer (hb_cfg (r_hub s)) > 0
     \<and> timers_ok (r_hub s) \<and> sends_ok s
     \<and> (\<forall>p < hb_npeers (r_hub s). peer_safe s p)
     \<and> (\<forall>p \<ge> hb_npeers (r_hub s). r_wire s p = [])
     \<and> (\<forall>g. r_owner s = Some g \<longrightarrow> Unlock \<in> set (r_tasks s g))"

lemma relay_invD:
  assumes "relay_inv base s"
  shows "hub_inv base (r_hub s)" "cfg_SendBuffer (hb_cfg (r_hub s)) > 0" "timers_ok (r_hub s)" "sends_ok s"
    "p < hb_npeers (r_hub s) \<Longrightarrow> peer_safe s p"
    "hb_npeers (r_hub s) \<le> p \<Longrightarrow> r_wire s p = []"
    "r_owner s = Some g \<Longrightarrow> Unlock \<in> set (r_tasks s g)"
  using assms by (auto simp: relay_inv_def)

text \<open>Sends and closes seen from one mailbox.\<close>

lemma frame_ok_cong:
  "p_role (hb_peers h q) = p_role (hb_peers h' q) \<Longrightarrow> frame_ok h q f = frame_ok h' q f"
  by (simp add: frame_ok_def)

lemma box_ok_send: "box_ok b \<Longrightarrow> box_ok (peer_send f b)"
  using box_out.send_bound [of b f] by (simp add: box_ok_def)

lemma box_ok_perform: "box_ok (n_box n p) \<Longrightarrow> box_ok (n_box (perform e n) p)"
  by (cases e) (auto simp: box_ok_send countPeerJoined_def countMessageForwarded_def
      box_ok_def [of "peer_close r b" for r b] box_ok_def [of "n_box n p"])

lemma perform_out:
  "(\<And>f. e \<noteq> Send p f) \<Longrightarrow> mb_out (n_box (perform e n) p) = mb_out (n_box n p)"
  by (cases e) (auto simp: countPeerJoined_def countMessageForwarded_def)

lemma perform_out_send:
  "mb_out (n_box (perform (Send p f) n) p) =
     (if box_has_room (n_box n p) then mb_out (n_box n p) @ [f] else mb_out (n_box n p))"
  by (simp add: peer_send_def)

section \<open>Preservation, one step at a time\<close>

text \<open>The effects a critical section leaves behind are sends of good frames to registered peers.\<close>

definition effects_ok :: "hub \<Rightarrow> effect list \<Rightarrow> bool" where
  "effects_ok h es \<longleftrightarrow> (\<forall>q f. Send q f \<in> set es \<longrightarrow> q < hb_npeers h \<and> frame_ok h q f)"

lemma ready_frames_ok:
  assumes inv: "hub_inv base h" and s: "tbl_get (hb_sessions h) k = Some s"
  shows "effects_ok h (ready_frames c s)"
  using hub_invD(2) [OF inv s]
  by (auto simp: effects_ok_def ready_frames_def session_ok_def slots_ok_def peer_ok_def frame_ok_def
      split: option.splits) metis+

lemma announce_ok:
  assumes inv: "hub_inv base h"
  shows "effects_ok h (announceJoin visit p session (hb_sessions h))"
proof -
  have "q < hb_npeers h" if "q \<in> set (slots_of (hb_sessions h) k)" for q k
    using that in_slot_allocated [OF inv, of q] by (auto simp: set_slots_of in_slot_def)
  then show ?thesis by (auto simp: effects_ok_def announceJoin_eq frame_ok_def)
qed

lemma effects_ok_append [simp]: "effects_ok h (es @ fs) \<longleftrightarrow> effects_ok h es \<and> effects_ok h fs"
  by (auto simp: effects_ok_def)

lemma join_unlocked_no_send: "Send q f \<notin> set (join_unlocked p r h)"
  by (auto simp: join_unlocked_def Let_def split: option.splits)

lemma leave_ok:
  assumes inv: "hub_inv base h"
  shows "effects_ok h (snd (leave_locked p h))"
proof (cases "\<exists>s. tbl_get (hb_sessions h) (p_sessionID (hb_peers h p)) = Some s
    \<and> slot (p_role (hb_peers h p)) s = Some p")
  case True
  then obtain s where s: "tbl_get (hb_sessions h) (p_sessionID (hb_peers h p)) = Some s"
    "slot (p_role (hb_peers h p)) s = Some p" by blast
  have "q < hb_npeers h" if "other (p_role (hb_peers h p)) s = Some q" for q
    using that s in_slot_allocated [OF inv, of q] by (auto simp: in_slot_def other_def split: if_splits)
  then show ?thesis using s
    by (auto simp: leave_locked_hit effects_ok_def frame_ok_def split: option.splits)
next
  case False
  then have "leave_locked p h = (h, [])" by (intro leave_locked_miss) blast
  then show ?thesis by (simp add: effects_ok_def)
qed

lemma expire_ok: "p < hb_npeers h \<Longrightarrow> effects_ok h (snd (expire_locked p h))"
  by (cases "\<exists>s. tbl_get (hb_sessions h) (p_sessionID (hb_peers h p)) = Some s
      \<and> s_device s = Some p \<and> s_phone s = None")
     (auto simp: expire_locked_hit expire_locked_miss effects_ok_def frame_ok_def)

lemma forward_ok:
  assumes inv: "hub_inv base h" and "frameType raw = (ft, True)" "relayed_type ft"
  shows "effects_ok h (forward_effects p ft raw h)"
proof -
  have "q < hb_npeers h" if "Some s = tbl_get (hb_sessions h) k" "other r s = Some q" for k s r q
    using that in_slot_allocated [OF inv, of q]
    by (force simp: in_slot_def other_def split: if_splits)
  then show ?thesis using assms(2,3)
    by (auto simp: effects_ok_def forward_effects_def Let_def frame_ok_def split: option.splits if_splits)
qed

lemma pair_up_timers:
  assumes "pair_up p s h = (s', h', es)" "timers_ok h" "p < hb_npeers h"
  shows "timers_ok h'"
  using assms(1) by (cases rule: pair_up_cases) (use assms in \<open>auto simp: timers_ok_def less_Suc_eq\<close>)

lemma join_timers:
  assumes "timers_ok h" "p < hb_npeers h"
  shows "timers_ok (fst (join_locked env p m h))"
proof -
  obtain s0 h0 where f: "find_session env (p_sessionID (hb_peers h p)) (jm_Session m) h = (s0, h0)"
    by force
  obtain s4 h1 ready where pu: "pair_up p (join_slots m (hb_peers h p) p s0) h0 = (s4, h1, ready)"
    by (metis prod_cases3)
  have "timers_ok h0" "p < hb_npeers h0"
    using assms find_session_frame [OF f] by (auto simp: timers_ok_def)
  from pair_up_timers [OF pu this] show ?thesis
    by (simp add: join_locked_eq [OF f pu] timers_ok_def)
qed

lemma leave_timers: "timers_ok h \<Longrightarrow> timers_ok (fst (leave_locked p h))"
  by (cases "\<exists>s. tbl_get (hb_sessions h) (p_sessionID (hb_peers h p)) = Some s
      \<and> slot (p_role (hb_peers h p)) s = Some p")
     (auto simp: leave_locked_hit leave_locked_miss drop_or_keep_def timers_ok_def split: if_splits)

lemma expire_timers: "timers_ok h \<Longrightarrow> timers_ok (fst (expire_locked p h))"
  by (cases "\<exists>s. tbl_get (hb_sessions h) (p_sessionID (hb_peers h p)) = Some s
      \<and> s_device s = Some p \<and> s_phone s = None")
     (auto simp: expire_locked_hit expire_locked_miss timers_ok_def)

text \<open>A timer may run and may finish without disturbing the registry.\<close>

lemma hub_inv_timers:
  assumes inv: "hub_inv base h"
    and same: "\<And>k s u. tbl_get (hb_sessions h) k = Some s \<Longrightarrow> s_lonely s = Some u \<Longrightarrow> u < hb_ntimers h \<Longrightarrow>
       tm_state (hb_timers h u) \<in> {Armed, Firing} \<Longrightarrow>
       tm_peer (ts u) = tm_peer (hb_timers h u) \<and> tm_state (ts u) \<in> {Armed, Firing}"
  shows "hub_inv base (h\<lparr>hb_timers := ts\<rparr>)"
proof -
  have "session_ok (h\<lparr>hb_timers := ts\<rparr>) k s" if "tbl_get (hb_sessions h) k = Some s" for k s
    using hub_invD(2) [OF inv that] same [OF that]
    by (auto simp: session_ok_def slots_ok_def peer_ok_def lonely_ok_def)
  then show ?thesis using inv by (simp add: hub_inv_def)
qed

lemma expire_lonely_gone:
  assumes inv: "hub_inv base h"
    and s: "tbl_get (hb_sessions (fst (expire_locked (tm_peer (hb_timers h t)) h))) k = Some s"
  shows "s_lonely s \<noteq> Some t"
proof
  assume l: "s_lonely s = Some t"
  let ?d = "tm_peer (hb_timers h t)" let ?k = "p_sessionID (hb_peers h ?d)"
  have old: "tbl_get (hb_sessions h) k = Some s"
    using s by (cases "\<exists>s. tbl_get (hb_sessions h) ?k = Some s \<and> s_device s = Some ?d \<and> s_phone s = None")
       (auto simp: expire_locked_hit expire_locked_miss tbl.get_del split: if_splits)
  have "session_ok h k s" by (rule hub_invD(2) [OF inv old])
  then have d: "s_device s = Some ?d" "s_phone s = None" "k = ?k"
    using l by (auto simp: session_ok_def lonely_ok_def slots_ok_def peer_ok_def)
  have "tbl_get (hb_sessions (fst (expire_locked ?d h))) ?k = None"
    using old d by (simp add: expire_locked_hit tbl.get_del)
  then show False using s d(3) by simp
qed

end
