(* ===== verification/RelayInv.thy ===== *)
theory RelayInv
  imports Relay
begin

text \<open>
  The invariant of the interleaved hub: every step of every goroutine keeps it, so it
  holds in every reachable state, whatever the schedule.
\<close>

section \<open>One peer at a time\<close>

lemma peer_safe_same:
  assumes "peer_safe s p" "box_ok (n_box (r_net t) p)" "history t p = history s p"
    "hb_peers (r_hub t) p = hb_peers (r_hub s) p" "greeting s p \<Longrightarrow> greeting t p"
  shows "peer_safe t p"
  using assms frame_ok_cong [of "r_hub s" p "r_hub t"]
  by (auto simp: peer_safe_def greeted_def)

lemma free_greeted:
  assumes "relay_inv base s" "r_owner s = None" "p < hb_npeers (r_hub s)"
  shows "greeted s p"
  using relay_invD(5) [OF assms(1,3)] assms(2) by (auto simp: peer_safe_def greeting_def)

text \<open>A step that takes the free mutex: histories and mailboxes stay, tasks may grow.\<close>

lemma peer_safe_free:
  assumes "relay_inv base s" "r_owner s = None" "p < hb_npeers (r_hub s)"
    and "n_box (r_net t) p = n_box (r_net s) p" "r_wire t p = r_wire s p"
    "hb_peers (r_hub t) p = hb_peers (r_hub s) p"
  shows "peer_safe t p"
proof (rule peer_safe_same)
  show "peer_safe s p" by (rule relay_invD(5) [OF assms(1,3)])
  show "box_ok (n_box (r_net t) p)"
    using relay_invD(5) [OF assms(1,3)] assms(4) by (simp add: peer_safe_def)
  show "history t p = history s p" using assms by (simp add: history_def)
  show "greeting s p \<Longrightarrow> greeting t p" using assms(2) by (simp add: greeting_def)
qed (rule assms)

lemma sends_ok_update:
  assumes "sends_ok s" "effects_ok h es" "r_hub t = h"
    and "\<And>g' q f. g' \<noteq> g \<Longrightarrow> Do (Send q f) \<in> set (r_tasks t g') \<Longrightarrow> Do (Send q f) \<in> set (r_tasks s g')"
    and "\<And>q f. Do (Send q f) \<in> set (r_tasks t g) \<Longrightarrow> Send q f \<in> set es"
    and "hb_npeers (r_hub s) \<le> hb_npeers h"
    and "\<And>q. q < hb_npeers (r_hub s) \<Longrightarrow> hb_peers h q = hb_peers (r_hub s) q"
  shows "sends_ok t"
  unfolding sends_ok_def
proof (intro allI impI)
  fix g' q f assume a: "Do (Send q f) \<in> set (r_tasks t g')"
  show "q < hb_npeers (r_hub t) \<and> frame_ok (r_hub t) q f"
  proof (cases "g' = g")
    case True
    then have "Send q f \<in> set es" using a assms(5) by blast
    then show ?thesis using assms(2,3) unfolding effects_ok_def by blast
  next
    case False
    then have "q < hb_npeers (r_hub s) \<and> frame_ok (r_hub s) q f"
      using assms(1) assms(4) [OF False a] unfolding sends_ok_def by blast
    then show ?thesis using assms(3,6,7) frame_ok_cong [of "r_hub s" q h] by simp
  qed
qed

section \<open>Each kind of step\<close>

lemma inv_join:
  assumes inv: "relay_inv base s" and free: "r_owner s = None" and ok: "join_check m = None"
    and np: "new_peer env m addr (r_hub s) = (p, h0)"
    and jl: "join_locked env p m h0 = (h1, locked, replaced)"
    and t: "t = s\<lparr>r_hub := h1,
           r_net := (r_net s)\<lparr>n_box := (n_box (r_net s))(p := new_box (r_hub s))\<rparr>,
           r_owner := Some (Conn p),
           r_tasks := (r_tasks s)(Conn p :=
             map Do locked @ [Unlock] @ map Do (join_unlocked p replaced h1))\<rparr>"
  shows "relay_inv base t"
proof -
  note i = relay_invD [OF inv]
  note n = new_peer_inv [OF i(1) np]
  have nf: "p = hb_npeers (r_hub s)" "hb_npeers h0 = Suc p" "hb_timers h0 = hb_timers (r_hub s)"
    "hb_ntimers h0 = hb_ntimers (r_hub s)" "hb_cfg h0 = hb_cfg (r_hub s)"
    "\<And>q. q < hb_npeers (r_hub s) \<Longrightarrow> hb_peers h0 q = hb_peers (r_hub s) q"
    using np by (auto simp: new_peer_def)
  have h1: "h1 = fst (join_locked env p m h0)" using jl by simp
  have fr: "hb_peers h1 = hb_peers h0" "hb_npeers h1 = hb_npeers h0" "hb_cfg h1 = hb_cfg h0"
    unfolding h1 by (rule join_locked_frame)+
  have role: "p_role (hb_peers h0 p) \<in> {roleDevice, rolePhone}"
    using ok n(4) by (simp add: join_check_None)
  have hinv: "hub_inv base h1" unfolding h1 by (rule join_locked_inv [OF n(1,2) role])
  have tim: "timers_ok h1" unfolding h1
    using i(3) nf n(2) by (intro join_timers) (auto simp: timers_ok_def)
  obtain ss k where ss: "tbl_get (hb_sessions h1) k = Some ss"
    "locked = Send p joinedFrame # ready_frames (hb_cfg h0) ss
       @ announceJoin (je_visit env) p (jm_Session m) (hb_sessions h1)"
    using join_frames [OF n(1), of env p m thesis] jl by auto
  have eff: "effects_ok h1 (locked @ join_unlocked p replaced h1)"
    using ready_frames_ok [OF hinv ss(1)] announce_ok [OF hinv] n(2) fr(2) join_unlocked_no_send
    unfolding effects_ok_def ss(2) by (auto simp: frame_ok_def)
  have sends: "sends_ok t"
    by (rule sends_ok_update [OF i(4) eff, where g = "Conn p"])
       (use fr nf in \<open>auto simp: t\<close>)
  have cap: "box_ok (new_box (r_hub s))"
    using i(2) by (simp add: box_ok_def new_box_def empty_box_def)
  have "greeting t p"
    using i(4) i(6) [of p] nf(1)
    by (auto simp: greeting_def history_def t new_box_def empty_box_def ss(2) sends_ok_def)
  then have new: "peer_safe t p"
    using cap by (simp add: peer_safe_def t history_def greeting_def)
  have old: "peer_safe t q" if "q < p" for q
    using that nf fr by (intro peer_safe_free [OF inv free]) (auto simp: t)
  have "peer_safe t q" if "q < hb_npeers (r_hub t)" for q
    using that new old [of q] fr(2) nf(2) by (cases "q = p") (auto simp: t)
  then show ?thesis
    using hinv tim sends i(2,6) nf fr unfolding relay_inv_def by (auto simp: t)
qed

text \<open>Critical sections that release the mutex before they send.\<close>

lemma inv_section:
  assumes inv: "relay_inv base s" and free: "r_owner s = None"
    and h: "hub_inv base h1" "timers_ok h1" "effects_ok h1 es"
    and fr: "hb_peers h1 = hb_peers (r_hub s)" "hb_npeers h1 = hb_npeers (r_hub s)"
      "hb_cfg h1 = hb_cfg (r_hub s)"
    and t: "t = s\<lparr>r_hub := h1, r_tasks := (r_tasks s)(g := map Do es)\<rparr>"
  shows "relay_inv base t"
proof -
  note i = relay_invD [OF inv]
  have sends: "sends_ok t"
    by (rule sends_ok_update [OF i(4) h(3), where g = g]) (use fr in \<open>auto simp: t\<close>)
  have "peer_safe t q" if "q < hb_npeers (r_hub t)" for q
    using that fr by (intro peer_safe_free [OF inv free]) (auto simp: t)
  then show ?thesis using h sends i(2,6) free fr by (simp add: relay_inv_def t)
qed

text \<open>One effect performed: what it does to a peer it is not a send to, and to the one it is.\<close>

lemma safe_after_other_effect:
  assumes inv: "relay_inv base s" and g: "r_tasks s g = Do e # ts" and q: "q < hb_npeers (r_hub s)"
    and t: "t = s\<lparr>r_net := perform e (r_net s), r_tasks := (r_tasks s)(g := ts)\<rparr>"
    and other: "\<nexists>f. e = Send q f" and box: "box_ok (n_box (r_net t) q)"
  shows "peer_safe t q"
proof -
  note ps = relay_invD(5) [OF inv q]
  have hist: "history t q = history s q" using other by (simp add: history_def t perform_out)
  have "greeting t q" if gr: "greeting s q"
  proof -
    have "g \<noteq> Conn q" using gr other g by (auto simp: greeting_def)
    then have "r_tasks t (Conn q) = r_tasks s (Conn q)" "r_owner t = r_owner s" by (simp_all add: t)
    moreover have "x \<in> set (r_tasks t g') \<Longrightarrow> x \<in> set (r_tasks s g')" for x g'
      using g by (auto simp: t split: if_splits)
    then have "\<forall>g' f. g' \<noteq> Conn q \<longrightarrow> Do (Send q f) \<notin> set (r_tasks t g')"
      using gr unfolding greeting_def by blast
    ultimately show ?thesis using gr hist by (simp add: greeting_def)
  qed
  then show ?thesis by (intro peer_safe_same [OF ps box hist]) (simp_all add: t)
qed

lemma safe_after_send:
  assumes inv: "relay_inv base s" and g: "r_tasks s g = Do (Send q f) # ts" and q: "q < hb_npeers (r_hub s)"
    and t: "t = s\<lparr>r_net := perform (Send q f) (r_net s), r_tasks := (r_tasks s)(g := ts)\<rparr>"
    and box: "box_ok (n_box (r_net t) q)"
  shows "peer_safe t q"
proof -
  note i = relay_invD [OF inv]
  note ps = i(5) [OF q]
  have ok: "frame_ok (r_hub s) q f" using i(4) g unfolding sends_ok_def by (metis list.set_intros(1))
  have hist: "history t q = (if box_has_room (n_box (r_net s) q) then history s q @ [f] else history s q)"
    by (simp add: history_def t peer_send_def)
  have "greeted t q"
  proof (cases "greeting s q")
    case True
    have "g = Conn q" using True g by (metis greeting_def list.set_intros(1))
    then have "f = joinedFrame" using True g by (auto simp: greeting_def)
    moreover have "box_has_room (n_box (r_net s) q)"
      using ps True by (simp add: box_has_room_def peer_safe_def box_ok_def greeting_def history_def)
    ultimately show ?thesis using hist True by (simp add: greeted_def greeting_def)
  next
    case False
    then show ?thesis using ps hist by (auto simp: peer_safe_def greeted_def)
  qed
  moreover have "frame_ok (r_hub t) q f' = frame_ok (r_hub s) q f'" for f' by (simp add: t)
  ultimately show ?thesis using box hist ps ok by (auto simp: peer_safe_def)
qed

lemma inv_do:
  assumes inv: "relay_inv base s" and g: "r_tasks s g = Do e # ts"
    and t: "t = s\<lparr>r_net := perform e (r_net s), r_tasks := (r_tasks s)(g := ts)\<rparr>"
  shows "relay_inv base t"
proof -
  note i = relay_invD [OF inv]
  have sub: "x \<in> set (r_tasks t g') \<Longrightarrow> x \<in> set (r_tasks s g')" for x g'
    using g by (auto simp: t split: if_splits)
  have rh: "r_hub t = r_hub s" by (simp add: t)
  have sends: "sends_ok t" using i(4) sub unfolding sends_ok_def rh by blast
  have safe: "peer_safe t q" if q: "q < hb_npeers (r_hub s)" for q
  proof -
    have box: "box_ok (n_box (r_net t) q)"
      using i(5) [OF q] box_ok_perform by (simp add: t peer_safe_def)
    show ?thesis
    proof (cases "\<exists>f. e = Send q f")
      case True
      then obtain f where e: "e = Send q f" by blast
      show ?thesis by (rule safe_after_send [OF inv g [unfolded e] q t [unfolded e] box])
    next
      case False
      then show ?thesis by (rule safe_after_other_effect [OF inv g q t _ box])
    qed
  qed
  have unl: "Unlock \<in> set (r_tasks t g')" if "r_owner t = Some g'" for g'
    using that i(7) [of g'] g by (auto simp: t)
  show ?thesis using i(1,2,3,6) sends safe unl by (simp add: relay_inv_def t)
qed

lemma inv_unlock:
  assumes inv: "relay_inv base s" and g: "r_owner s = Some g" "r_tasks s g = Unlock # ts"
    and t: "t = s\<lparr>r_owner := None, r_tasks := (r_tasks s)(g := ts)\<rparr>"
  shows "relay_inv base t"
proof -
  note i = relay_invD [OF inv]
  have sub: "x \<in> set (r_tasks t g') \<Longrightarrow> x \<in> set (r_tasks s g')" for x g'
    using g by (auto simp: t split: if_splits)
  have "peer_safe t q" if q: "q < hb_npeers (r_hub s)" for q
  proof -
    have "\<not> greeting s q" using g by (auto simp: greeting_def)
    then show ?thesis using i(5) [OF q]
      by (intro peer_safe_same [OF i(5) [OF q]]) (simp_all add: t history_def peer_safe_def)
  qed
  moreover have "r_hub t = r_hub s" by (simp add: t)
  then have "sends_ok t" using i(4) sub unfolding sends_ok_def by metis
  ultimately show ?thesis using i(1,2,3,6) by (simp add: relay_inv_def t)
qed

text \<open>The writers: a frame moves from the channel to the socket; a close request is taken.\<close>

lemma inv_writer:
  assumes inv: "relay_inv base s"
    and hist: "\<And>q. history t q = history s q"
    and box: "\<And>q. mb_cap (n_box (r_net t) q) = mb_cap (n_box (r_net s) q)
      \<and> length (mb_out (n_box (r_net t) q)) \<le> length (mb_out (n_box (r_net s) q))"
    and same: "r_hub t = r_hub s" "r_owner t = r_owner s" "r_tasks t = r_tasks s"
    and wire: "\<And>q. hb_npeers (r_hub s) \<le> q \<Longrightarrow> r_wire t q = []"
  shows "relay_inv base t"
proof -
  note i = relay_invD [OF inv]
  have "peer_safe t q" if q: "q < hb_npeers (r_hub s)" for q
  proof (rule peer_safe_same [OF i(5) [OF q]])
    show "box_ok (n_box (r_net t) q)"
      using i(5) [OF q] box [of q] by (auto simp: peer_safe_def box_ok_def)
    show "greeting s q \<Longrightarrow> greeting t q" using same hist by (simp add: greeting_def)
  qed (simp_all add: hist same)
  moreover have "sends_ok t" using i(4) by (simp add: sends_ok_def same)
  ultimately show ?thesis using i same wire by (simp add: relay_inv_def)
qed

text \<open>A timer that fires, and its function under the lock.\<close>

lemma inv_fire:
  assumes inv: "relay_inv base s"
    and t: "t = s\<lparr>r_hub := (r_hub s)\<lparr>hb_timers := (hb_timers (r_hub s))(u := (hb_timers (r_hub s) u)\<lparr>tm_state := Firing\<rparr>)\<rparr>\<rparr>"
  shows "relay_inv base t"
proof -
  note i = relay_invD [OF inv]
  have h: "hub_inv base (r_hub t)" unfolding t by (simp, rule hub_inv_timers [OF i(1)]) auto
  have "peer_safe t q" if q: "q < hb_npeers (r_hub s)" for q
    using i(5) [OF q] by (intro peer_safe_same [OF i(5) [OF q]])
      (auto simp: t peer_safe_def history_def greeting_def)
  moreover have "timers_ok (r_hub t)" using i(3) by (simp add: t timers_ok_def)
  moreover have "sends_ok t" using i(4) by (simp add: t sends_ok_def frame_ok_def)
  ultimately show ?thesis using h i(2,6,7) by (simp add: relay_inv_def t)
qed

lemma expire_section:
  assumes inv: "relay_inv base s" and u: "u < hb_ntimers (r_hub s)"
    and h1: "expire_locked (tm_peer (hb_timers (r_hub s) u)) (r_hub s) = (h1, es)"
  defines "h2 \<equiv> h1\<lparr>hb_timers := (hb_timers h1)(u := (hb_timers h1 u)\<lparr>tm_state := Fired\<rparr>)\<rparr>"
  shows "hub_inv base h2" "timers_ok h2" "effects_ok h2 es"
    "hb_peers h2 = hb_peers (r_hub s)" "hb_npeers h2 = hb_npeers (r_hub s)" "hb_cfg h2 = hb_cfg (r_hub s)"
proof -
  note i = relay_invD [OF inv]
  let ?d = "tm_peer (hb_timers (r_hub s) u)"
  have e: "h1 = fst (expire_locked ?d (r_hub s))" "es = snd (expire_locked ?d (r_hub s))" using h1 by simp_all
  have d: "?d < hb_npeers (r_hub s)" using i(3) u by (simp add: timers_ok_def)
  show "hub_inv base h2"
    using expire_locked_inv [OF i(1), of ?d] expire_lonely_gone [OF i(1), of u] unfolding h2_def
    by (intro hub_inv_timers) (auto simp: e)
  show "timers_ok h2" using expire_timers [OF i(3), of ?d] by (simp add: h2_def e timers_ok_def)
  show "effects_ok h2 es"
    using expire_ok [OF d] by (simp add: h2_def e effects_ok_def frame_ok_def expire_locked_frame)
  show "hb_peers h2 = hb_peers (r_hub s)" "hb_npeers h2 = hb_npeers (r_hub s)" "hb_cfg h2 = hb_cfg (r_hub s)"
    by (simp_all add: h2_def e expire_locked_frame)
qed

lemma rstep_inv:
  assumes "relay_inv base s" "rstep s t"
  shows "relay_inv base t"
  using assms(2)
proof (cases rule: rstep.cases)
  case (step_join m env addr p h0 h1 locked replaced)
  then show ?thesis by (intro inv_join [OF assms(1)])
next
  case (step_leave p h1 es)
  note i = relay_invD [OF assms(1)]
  have h1: "h1 = fst (leave_locked p (r_hub s))" "es = snd (leave_locked p (r_hub s))"
    using step_leave by simp_all
  have "effects_ok h1 es"
    using leave_ok [OF i(1), of p] by (simp add: h1 effects_ok_def frame_ok_def leave_locked_frame)
  then show ?thesis
    using leave_locked_inv [OF i(1), of p] leave_timers [OF i(3), of p] leave_locked_frame [of p "r_hub s"]
    by (intro inv_section [OF assms(1) step_leave(2) _ _ _ _ _ _ step_leave(1)]) (simp_all add: h1)
next
  case (step_forward p raw ft)
  note i = relay_invD [OF assms(1)]
  show ?thesis
    using forward_ok [OF i(1) step_forward(5,6)] i(1,3)
    by (intro inv_section [OF assms(1) step_forward(2), of "r_hub s"]) (simp_all add: step_forward(1))
next
  case (step_fire u)
  then show ?thesis by (intro inv_fire [OF assms(1)])
next
  case (step_expire u h1 es)
  note sec = expire_section [OF assms(1) step_expire(3,5)]
  show ?thesis by (rule inv_section [OF assms(1) step_expire(2) sec step_expire(1)])
next
  case (step_do g e ts)
  then show ?thesis by (intro inv_do [OF assms(1)])
next
  case (step_unlock g ts)
  then show ?thesis by (intro inv_unlock [OF assms(1)])
next
  case (step_write p f fs)
  note i = relay_invD [OF assms(1)]
  show ?thesis
    by (rule inv_writer [OF assms(1)])
       (use i(6) step_write in \<open>auto simp: history_def\<close>)
next
  case (step_close p reason rs)
  note i = relay_invD [OF assms(1)]
  show ?thesis
    by (rule inv_writer [OF assms(1)])
       (use i(6) step_close in \<open>auto simp: history_def\<close>)
qed

lemma init_inv: "relay_init base s \<Longrightarrow> relay_inv base s"
proof -
  assume "relay_init base s"
  then obtain c h where h: "hub_new (Some c) base = Inr h" "s = relay_start h"
    by (auto simp: relay_init_def)
  then have n: "hb_npeers h = 0" "hb_ntimers h = 0" "cfg_SendBuffer (hb_cfg h) > 0"
    by (auto simp: hub_new_def Let_def defaultSendBuffer_def split: if_splits)
  then show "relay_inv base s" using hub_new_inv [OF h(1)]
    by (simp add: relay_inv_def h(2) relay_start_def timers_ok_def sends_ok_def)
qed

interpretation relay: invariant_system "relay_init base" rstep "relay_inv base" for base
  by unfold_locales (auto intro: init_inv rstep_inv)

end
