(* ===== verification/RelayProps.thy ===== *)
theory RelayProps
  imports RelayInv
begin

text \<open>
  What holds in every schedule of the hub, that each operation run alone is one of the
  schedules, and one schedule that goes wrong.
\<close>

section \<open>Running one goroutine\<close>

lemma run_tasks:
  "r_tasks s g = map Do es @ ts \<Longrightarrow>
   rstep\<^sup>*\<^sup>* s (s\<lparr>r_net := perform_all es (r_net s), r_tasks := (r_tasks s)(g := ts)\<rparr>)"
proof (induction es arbitrary: s)
  case Nil
  then have "s\<lparr>r_net := perform_all [] (r_net s), r_tasks := (r_tasks s)(g := ts)\<rparr> = s"
    by (cases s) (simp add: fun_upd_idem)
  then show ?case by (simp only: rtranclp.rtrancl_refl)
next
  case (Cons e es)
  let ?s1 = "s\<lparr>r_net := perform e (r_net s), r_tasks := (r_tasks s)(g := map Do es @ ts)\<rparr>"
  have 1: "rstep s ?s1" using Cons.prems by (intro step_do) simp
  have 2: "rstep\<^sup>*\<^sup>* ?s1 (?s1\<lparr>r_net := perform_all es (r_net ?s1), r_tasks := (r_tasks ?s1)(g := ts)\<rparr>)"
    by (rule Cons.IH) simp
  have 3: "?s1\<lparr>r_net := perform_all es (r_net ?s1), r_tasks := (r_tasks ?s1)(g := ts)\<rparr>
      = s\<lparr>r_net := perform_all (e # es) (r_net s), r_tasks := (r_tasks s)(g := ts)\<rparr>"
    by (cases s) simp
  show ?case unfolding 3 [symmetric] by (rule converse_rtranclp_into_rtranclp [OF 1 2])
qed

lemma run_locked:
  assumes "r_owner s = Some g" "r_tasks s g = map Do es @ Unlock # map Do fs"
  shows "rstep\<^sup>*\<^sup>* s (s\<lparr>r_net := perform_all (es @ fs) (r_net s), r_owner := None,
      r_tasks := (r_tasks s)(g := [])\<rparr>)"
proof -
  let ?s1 = "s\<lparr>r_net := perform_all es (r_net s), r_tasks := (r_tasks s)(g := Unlock # map Do fs)\<rparr>"
  let ?s2 = "?s1\<lparr>r_owner := None, r_tasks := (r_tasks ?s1)(g := map Do fs)\<rparr>"
  have 1: "rstep\<^sup>*\<^sup>* s ?s1" by (rule run_tasks [OF assms(2)])
  have 2: "rstep ?s1 ?s2" using assms(1) by (intro step_unlock) simp_all
  have 3: "rstep\<^sup>*\<^sup>* ?s2 (?s2\<lparr>r_net := perform_all fs (r_net ?s2), r_tasks := (r_tasks ?s2)(g := [])\<rparr>)"
    by (rule run_tasks) simp
  have eq: "?s2\<lparr>r_net := perform_all fs (r_net ?s2), r_tasks := (r_tasks ?s2)(g := [])\<rparr> =
      s\<lparr>r_net := perform_all (es @ fs) (r_net s), r_owner := None, r_tasks := (r_tasks s)(g := [])\<rparr>"
    by (cases s) simp
  show ?thesis
    using rtranclp_trans [OF rtranclp.rtrancl_into_rtrancl [OF 1 2] 3] by (simp only: eq)
qed

text \<open>A join that nothing interrupts.\<close>

definition quiet :: "relay \<Rightarrow> bool" where
  "quiet s \<longleftrightarrow> r_owner s = None \<and> (\<forall>g. r_tasks s g = [])"

definition world_of :: "relay \<Rightarrow> world" where
  "world_of s = \<lparr>w_hub = r_hub s, w_net = r_net s\<rparr>"

definition with_world :: "world \<Rightarrow> relay \<Rightarrow> relay" where
  "with_world w s = s\<lparr>r_hub := w_hub w, r_net := w_net w\<rparr>"

lemma run_join:
  assumes "r_owner s = None" "join_check m = None" "r_tasks s (Conn (hb_npeers (r_hub s))) = []"
  shows "rstep\<^sup>*\<^sup>* s (with_world (snd (hub_join env m addr (world_of s))) s)"
proof -
  obtain p h0 where np: "new_peer env m addr (r_hub s) = (p, h0)" by force
  obtain h1 locked replaced where jl: "join_locked env p m h0 = (h1, locked, replaced)"
    by (metis prod_cases3)
  have p: "p = hb_npeers (r_hub s)" using np by (auto simp: new_peer_def)
  let ?s1 = "s\<lparr>r_hub := h1, r_net := (r_net s)\<lparr>n_box := (n_box (r_net s))(p := new_box (r_hub s))\<rparr>,
      r_owner := Some (Conn p),
      r_tasks := (r_tasks s)(Conn p := map Do locked @ [Unlock] @ map Do (join_unlocked p replaced h1))\<rparr>"
  let ?n = "?s1\<lparr>r_net := perform_all (locked @ join_unlocked p replaced h1) (r_net ?s1),
      r_owner := None, r_tasks := (r_tasks ?s1)(Conn p := [])\<rparr>"
  have 1: "rstep s ?s1" by (rule step_join [OF assms(1,2) np jl])
  have 2: "rstep\<^sup>*\<^sup>* ?s1 ?n" by (rule run_locked [where g = "Conn p"]) simp_all
  have 3: "?n = with_world (snd (hub_join env m addr (world_of s))) s"
    using assms p np jl by (cases s) (simp add: with_world_def world_of_def hub_join_def fun_upd_idem)
  show ?thesis unfolding 3 [symmetric] by (rule converse_rtranclp_into_rtranclp [OF 1 2])
qed

lemma run_leave:
  assumes "r_owner s = None" "p < hb_npeers (r_hub s)" "r_tasks s (Conn p) = []"
  shows "rstep\<^sup>*\<^sup>* s (with_world (hub_leave p (world_of s)) s)"
proof -
  obtain h1 es where l: "leave_locked p (r_hub s) = (h1, es)" by force
  let ?s1 = "s\<lparr>r_hub := h1, r_tasks := (r_tasks s)(Conn p := map Do es)\<rparr>"
  let ?n = "?s1\<lparr>r_net := perform_all es (r_net ?s1), r_tasks := (r_tasks ?s1)(Conn p := [])\<rparr>"
  have 1: "rstep s ?s1" by (rule step_leave [OF assms l])
  have 2: "rstep\<^sup>*\<^sup>* ?s1 ?n" by (rule run_tasks) simp
  have 3: "?n = with_world (hub_leave p (world_of s)) s"
    using assms l by (cases s) (simp add: with_world_def world_of_def hub_leave_def fun_upd_idem)
  show ?thesis unfolding 3 [symmetric] by (rule converse_rtranclp_into_rtranclp [OF 1 2])
qed

lemma run_forward:
  assumes "r_owner s = None" "p < hb_npeers (r_hub s)" "r_tasks s (Conn p) = []"
    "frameType raw = (ft, True)" "relayed_type ft"
  shows "rstep\<^sup>*\<^sup>* s (with_world (hub_forward p ft raw (world_of s)) s)"
proof -
  let ?es = "forward_effects p ft raw (r_hub s)"
  let ?s1 = "s\<lparr>r_tasks := (r_tasks s)(Conn p := map Do ?es)\<rparr>"
  let ?n = "?s1\<lparr>r_net := perform_all ?es (r_net ?s1), r_tasks := (r_tasks ?s1)(Conn p := [])\<rparr>"
  have 1: "rstep s ?s1" by (rule step_forward [OF assms])
  have 2: "rstep\<^sup>*\<^sup>* ?s1 ?n" by (rule run_tasks) simp
  have 3: "?n = with_world (hub_forward p ft raw (world_of s)) s"
    using assms by (cases s) (simp add: with_world_def world_of_def hub_forward_def fun_upd_idem)
  show ?thesis unfolding 3 [symmetric] by (rule converse_rtranclp_into_rtranclp [OF 1 2])
qed

section \<open>Properties of every schedule\<close>

text \<open>C13: Under any interleaving of connections, timers and writers the registry invariant holds
  at every moment, and no peer's queue ever grows past its buffer.\<close>

theorem relay_keeps_registry:
  assumes "reach_from (relay_init base) rstep s"
  shows "hub_inv base (r_hub s)
    \<and> (\<forall>p < hb_npeers (r_hub s). length (mb_out (n_box (r_net s) p)) \<le> mb_cap (n_box (r_net s) p))"
  using relay_invD(1,5) [OF relay.inv_reachable [OF assms]]
  by (auto simp: peer_safe_def box_ok_def)

text \<open>C14: The first frame a client ever receives is the joined acknowledgement, however the
  announcements, forwards and byes of other goroutines race with its join.\<close>

theorem joined_is_first_frame:
  assumes "reach_from (relay_init base) rstep s" "p < hb_npeers (r_hub s)"
  shows "history s p = [] \<or> hd (history s p) = joinedFrame"
  using relay_invD(5) [OF relay.inv_reachable [OF assms(1)] assms(2)]
  by (auto simp: peer_safe_def greeting_def greeted_def)

lemma not_relayed [simp]: "\<not> relayed_type typeReady" "\<not> relayed_type typeBye"
  "\<not> relayed_type typeJoined" "\<not> relayed_type typeRemoteJoined"
  by (simp_all add: relayed_type_def protocol_consts)

lemma ready_initiator: "readyFrame c s b = readyFrame c' s' b' \<Longrightarrow> b = b'"
  using marshal_ready_inject by (fastforce simp: readyFrame_def)

lemma frame_ok_ready:
  assumes "frame_ok h q (readyFrame c x b)"
  shows "b = (p_role (hb_peers h q) = rolePhone)"
proof -
  let ?R = "readyFrame c x b"
  have "?R \<noteq> byeFrame" by (rule frames_differ)
  moreover have "?R \<noteq> joinedFrame" by (rule not_sym [OF frames_differ(4)])
  moreover have "?R \<noteq> remoteJoinedFrame y" for y by (rule not_sym [OF frames_differ(5)])
  moreover have "\<not> relayed_type ft" if "frameType ?R = (ft, True)" for ft
    using that by (auto simp: frame_tags)
  ultimately obtain c' x' where "?R = readyFrame c' x' (p_role (hb_peers h q) = rolePhone)"
    using assms unfolding frame_ok_def by blast
  then show ?thesis by (rule ready_initiator)
qed

text \<open>C15: In every schedule a ready frame tells the phone, and only the phone, to initiate; and
  whatever reaches a socket is one of the server's own four messages or has, as the server itself
  decodes it, type offer, answer or candidate.  (The server's decoder matches keys without regard
  to case and lets the last one win; a client that reads \<open>type\<close> exactly may read such a relayed
  frame differently, which is \<open>disguised_frame_is_relayed\<close> in the theory \<open>Delivery\<close>.)\<close>

theorem wire_frames_are_legitimate:
  assumes "reach_from (relay_init base) rstep s" "p < hb_npeers (r_hub s)" "f \<in> set (r_wire s p)"
  shows "(\<forall>c x b. f = readyFrame c x b \<longrightarrow> b = (p_role (hb_peers (r_hub s) p) = rolePhone))
    \<and> (f \<in> {joinedFrame, byeFrame} \<or> (\<exists>x. f = remoteJoinedFrame x) \<or> (\<exists>c x b. f = readyFrame c x b)
       \<or> fst (frameType f) \<in> {''offer'', ''answer'', ''candidate''})"
proof -
  have ok: "frame_ok (r_hub s) p f"
    using relay_invD(5) [OF relay.inv_reachable [OF assms(1)] assms(2)] assms(3)
    by (auto simp: peer_safe_def history_def)
  have flag: "b = (p_role (hb_peers (r_hub s) p) = rolePhone)" if "f = readyFrame c x b" for c x b
    using ok that frame_ok_ready by blast
  have "f \<in> {joinedFrame, byeFrame} \<or> (\<exists>x. f = remoteJoinedFrame x) \<or> (\<exists>c x b. f = readyFrame c x b)
       \<or> fst (frameType f) \<in> {typeOffer, typeAnswer, typeCandidate}"
    using ok unfolding frame_ok_def relayed_type_def by (elim disjE) auto
  then show ?thesis
    using flag unfolding typeOffer_def typeAnswer_def typeCandidate_def by blast
qed

end
