(* ===== verification/RelayRace.thy ===== *)
theory RelayRace
  imports RelayProps
begin

text \<open>
  A schedule in which a bye overtakes a pairing.  \<open>leave\<close> takes the mutex, clears the
  slot and releases the mutex before it sends the bye.  If the device reconnects in
  between, the phone is paired with the new connection and told it is ready first, and
  then receives the bye that was meant for the old one.
\<close>

section \<open>What a peer finds in its queue\<close>

lemma perform_all_out:
  "length (mb_out (n_box n p)) + length (frames_to p es) \<le> mb_cap (n_box n p) \<Longrightarrow>
   mb_out (n_box (perform_all es n) p) = mb_out (n_box n p) @ frames_to p es
   \<and> mb_cap (n_box (perform_all es n) p) = mb_cap (n_box n p)"
proof (induction es arbitrary: n)
  case (Cons e es)
  show ?case
  proof (cases "\<exists>f. e = Send p f")
    case True
    then show ?thesis using Cons.prems Cons.IH [of "perform e n"]
      by (auto simp: frames_to_def peer_send_def box_has_room_def)
  next
    case False
    then have "frames_to p (e # es) = frames_to p es" by (cases e) (auto simp: frames_to_def)
    moreover have "mb_cap (n_box (perform e n) p) = mb_cap (n_box n p)"
      by (cases e) (auto simp: countPeerJoined_def countMessageForwarded_def)
    ultimately show ?thesis
      using Cons.prems Cons.IH [of "perform e n"] perform_out [of e p n] False by auto
  qed
qed (simp add: frames_to_def)

lemma frames_to_join_unlocked [simp]: "frames_to p (join_unlocked q r h) = []"
  by (simp add: frames_to_def join_unlocked_def Let_def split: option.splits)

lemma announce_frames:
  "frames_to p (announceJoin visit j sid ss) =
     map (\<lambda>_. remoteJoinedFrame sid)
       (List.filter (\<lambda>q. q = p \<and> q \<noteq> j) (concat (map (slots_of ss) (visit (tbl_keys ss)))))"
proof -
  have "frames_to p (map (\<lambda>q. Send q f) qs) = map (\<lambda>_. f) (List.filter (\<lambda>q. q = p) qs)" for f qs
    by (induction qs) auto
  then show ?thesis by (simp add: announceJoin_eq conj_commute)
qed

section \<open>Joins in a hub with one session\<close>

lemma hub_join_counts:
  assumes ok: "join_check m = None" and inv: "hub_inv base (w_hub w)"
  shows "hb_npeers (w_hub (snd (hub_join env m addr w))) = Suc (hb_npeers (w_hub w))"
    "hb_cfg (w_hub (snd (hub_join env m addr w))) = hb_cfg (w_hub w)"
    "tbl_keys (hb_sessions (w_hub (snd (hub_join env m addr w)))) =
       (let k = to_lower (je_utable env) (jm_Session m); ks = tbl_keys (hb_sessions (w_hub w))
        in if k \<in> set ks then ks else ks @ [k])"
proof -
  obtain p h0 where np: "new_peer env m addr (w_hub w) = (p, h0)" by force
  note nf = new_peer_frame [OF np] and je = hub_join_eq [OF ok np]
  obtain s0 h1 where f: "find_session env (p_sessionID (hb_peers h0 p)) (jm_Session m) h0 = (s0, h1)"
    by force
  obtain s4 h2 ready where pu: "pair_up p (join_slots m (hb_peers h0 p) p s0) h1 = (s4, h2, ready)"
    by (metis prod_cases3)
  have "hb_npeers h0 = Suc (hb_npeers (w_hub w))" using np by (auto simp: new_peer_def)
  then show "hb_npeers (w_hub (snd (hub_join env m addr w))) = Suc (hb_npeers (w_hub w))"
    by (simp add: je join_locked_frame)
  show "hb_cfg (w_hub (snd (hub_join env m addr w))) = hb_cfg (w_hub w)"
    using nf by (simp add: je join_locked_frame)
  let ?k = "p_sessionID (hb_peers h0 p)"
  have "tbl_keys (hb_sessions h1) = (if ?k \<in> set (tbl_keys (hb_sessions h0)) then tbl_keys (hb_sessions h0)
      else tbl_keys (hb_sessions h0) @ [?k])"
    using f by (auto simp: find_session_def Let_def tbl_keys_def tbl_put_def update_keys
        tbl_get_def map_of_eq_None_iff split: option.splits) (metis domI dom_map_of_conv_image_fst)
  moreover have "hb_sessions (w_hub (snd (hub_join env m addr w))) = tbl_put ?k s4 (hb_sessions h1)"
    using pair_up_frame(3) [OF pu] by (simp add: je join_locked_eq [OF f pu])
  moreover have "?k = to_lower (je_utable env) (jm_Session m)" "hb_sessions h0 = hb_sessions (w_hub w)"
    using nf by simp_all
  ultimately show "tbl_keys (hb_sessions (w_hub (snd (hub_join env m addr w)))) =
       (let k = to_lower (je_utable env) (jm_Session m); ks = tbl_keys (hb_sessions (w_hub w))
        in if k \<in> set ks then ks else ks @ [k])"
    by (simp add: tbl_keys_def tbl_put_def update_keys Let_def)
qed

text \<open>A join into a hub whose only session is the one it names.\<close>

lemma join_frames_to:
  assumes inv: "hub_inv base (w_hub w)" and ok: "join_check m = None"
    and keys: "set (tbl_keys (hb_sessions (w_hub w))) \<subseteq> {to_lower (je_utable env) (jm_Session m)}"
    and visit: "je_visit env = (\<lambda>ks. ks)"
    and slots: "spec_join (jm_Role m) (to_lower (je_utable env) (jm_Session m)) (hb_npeers (w_hub w))
        (pairing (w_hub w)) (to_lower (je_utable env) (jm_Session m)) = (d, q)"
  obtains s es where
    "tbl_get (hb_sessions (w_hub (snd (hub_join env m addr w)))) (to_lower (je_utable env) (jm_Session m)) = Some s"
    "w_net (snd (hub_join env m addr w)) =
       perform_all es ((w_net w)\<lparr>n_box := (n_box (w_net w))(hb_npeers (w_hub w) := new_box (w_hub w))\<rparr>)"
    "\<And>p. frames_to p es =
       (if p = hb_npeers (w_hub w) then [joinedFrame] else [])
       @ (if d \<noteq> None \<and> q \<noteq> None
          then (if d = Some p then [readyFrame (hb_cfg (w_hub w)) s False] else [])
             @ (if q = Some p then [readyFrame (hb_cfg (w_hub w)) s True] else []) else [])
       @ (if p \<noteq> hb_npeers (w_hub w)
          then (if d = Some p then [remoteJoinedFrame (jm_Session m)] else [])
             @ (if q = Some p then [remoteJoinedFrame (jm_Session m)] else []) else [])"
    "\<And>s'. tbl_get (hb_sessions (w_hub w)) (to_lower (je_utable env) (jm_Session m)) = Some s' \<Longrightarrow>
       s_turnToken s = s_turnToken s'"
proof -
  let ?k = "to_lower (je_utable env) (jm_Session m)" let ?p = "hb_npeers (w_hub w)"
  let ?h = "w_hub (snd (hub_join env m addr w))"
  obtain s r where s: "tbl_get (hb_sessions ?h) ?k = Some s"
    "w_net (snd (hub_join env m addr w)) =
       perform_all (Send ?p joinedFrame # ready_frames (hb_cfg (w_hub w)) s
           @ announceJoin (je_visit env) ?p (jm_Session m) (hb_sessions ?h) @ join_unlocked ?p r ?h)
         ((w_net w)\<lparr>n_box := (n_box (w_net w))(?p := new_box (w_hub w))\<rparr>)"
    "\<And>s'. tbl_get (hb_sessions (w_hub w)) ?k = Some s' \<Longrightarrow> s_turnToken s = s_turnToken s'"
    using hub_join_accepted [OF inv ok, of env addr] by metis
  have "pairing ?h ?k = (d, q)" using hub_join_pairing [OF inv ok, of env addr] slots by simp
  then have dq: "s_device s = d" "s_phone s = q" by (simp_all add: pairing_def s(1))
  have ks: "tbl_keys (hb_sessions ?h) = [?k]"
  proof -
    have "distinct (tbl_keys (hb_sessions (w_hub w)))"
      using tbl.distinct_keys hub_invD(1) [OF inv] by blast
    then have "tbl_keys (hb_sessions (w_hub w)) = [] \<or> tbl_keys (hb_sessions (w_hub w)) = [?k]"
      using keys by (cases "tbl_keys (hb_sessions (w_hub w))" rule: remdups_adj.cases) auto
    then show ?thesis using hub_join_counts(3) [OF ok inv, of env addr] by (auto simp: Let_def)
  qed
  have so: "slots_of (hb_sessions ?h) ?k = session_peers s" using s(1) by (simp add: slots_of_def)
  show thesis
    by (rule that [OF s(1,2) _ s(3)])
       (auto simp: announce_frames visit ks so session_peers_def dq ready_frames_def split: option.splits)
qed

section \<open>The schedule\<close>

definition race_hub :: hub where
  "race_hub = demo_hub\<lparr>hb_cfg := (hb_cfg demo_hub)\<lparr>cfg_SendBuffer := 16\<rparr>\<rparr>"

text \<open>The device joins (peer 0), the phone joins (peer 1), the device's connection ends.\<close>

definition race1 :: world where
  "race1 = snd (hub_join demo_env (demo_msg roleDevice) ''a:1'' \<lparr>w_hub = race_hub, w_net = empty_net\<rparr>)"

definition race2 :: world where
  "race2 = snd (hub_join demo_env (demo_msg rolePhone) ''b:2'' race1)"

text \<open>\<open>leave\<close> has released the mutex and not yet sent; the device joins again (peer 2).\<close>

definition race3 :: world where
  "race3 = race2\<lparr>w_hub := fst (leave_locked 0 (w_hub race2))\<rparr>"

definition race4 :: world where
  "race4 = snd (hub_join demo_env (demo_msg roleDevice) ''a:3'' race3)"

lemma race_new: "hub_new (Some (demo_config\<lparr>cfg_SendBuffer := 16\<rparr>)) 0 = Inr race_hub"
  by (simp add: hub_new_def demo_config_def race_hub_def demo_hub_def defaultPingTimeout_def)

lemma race_inv:
  "hub_inv 0 race_hub" "hub_inv 0 (w_hub race1)" "hub_inv 0 (w_hub race2)" "hub_inv 0 (w_hub race3)"
proof -
  show "hub_inv 0 race_hub" by (rule hub_new_inv [OF race_new])
  then show 1: "hub_inv 0 (w_hub race1)" unfolding race1_def by (intro hub_join_inv) simp
  show 2: "hub_inv 0 (w_hub race2)" unfolding race2_def by (rule hub_join_inv [OF 1])
  show "hub_inv 0 (w_hub race3)" using leave_locked_inv [OF 2] by (simp add: race3_def)
qed

lemma race0_facts: "pairing race_hub ''s1'' = (None, None)" "tbl_keys (hb_sessions race_hub) = []"
  "hb_npeers race_hub = 0" "cfg_SendBuffer (hb_cfg race_hub) = 16"
  by (simp_all add: race_hub_def demo_hub_def pairing_def)

lemma demo_roles [simp]: "jm_Role (demo_msg r) = r" "jm_Session (demo_msg r) = ''S1''"
  by (simp_all add: demo_msg_def)

lemma demo_key' [simp]: "to_lower (je_utable demo_env) ''S1'' = ''s1''"
  using demo_key by simp

lemma demo_visit' [simp]: "je_visit demo_env = (\<lambda>ks. ks)"
  by (simp add: demo_env_def)

lemma race1_facts:
  "pairing (w_hub race1) ''s1'' = (Some 0, None)" "tbl_keys (hb_sessions (w_hub race1)) = [''s1'']"
  "hb_npeers (w_hub race1) = 1" "hb_cfg (w_hub race1) = hb_cfg race_hub"
proof -
  let ?w = "\<lparr>w_hub = race_hub, w_net = empty_net\<rparr>"
  have i: "hub_inv 0 (w_hub ?w)" using race_inv by simp
  show "pairing (w_hub race1) ''s1'' = (Some 0, None)"
    using hub_join_pairing [OF i demo_check(1), of demo_env "''a:1''"] race0_facts
    by (simp add: race1_def spec_join_def set_side_def)
  show "tbl_keys (hb_sessions (w_hub race1)) = [''s1'']" "hb_npeers (w_hub race1) = 1"
    "hb_cfg (w_hub race1) = hb_cfg race_hub"
    using hub_join_counts [OF demo_check(1) i, of demo_env "''a:1''"] race0_facts
    by (simp_all add: race1_def)
qed

lemma race2_facts:
  "pairing (w_hub race2) ''s1'' = (Some 0, Some 1)" "tbl_keys (hb_sessions (w_hub race2)) = [''s1'']"
  "hb_npeers (w_hub race2) = 2" "hb_cfg (w_hub race2) = hb_cfg race_hub"
  using hub_join_pairing [OF race_inv(2) demo_check(2), of demo_env "''b:2''"]
    hub_join_counts [OF demo_check(2) race_inv(2), of demo_env "''b:2''"] race1_facts
  by (simp_all add: race2_def spec_join_def set_side_def)

lemma race2_box:
  obtains s where "tbl_get (hb_sessions (w_hub race2)) ''s1'' = Some s"
    "mb_out (n_box (w_net race2) 1) = [joinedFrame, readyFrame (hb_cfg race_hub) s True]"
    "mb_cap (n_box (w_net race2) 1) = 16"
proof -
  have sp: "spec_join (jm_Role (demo_msg rolePhone)) (to_lower (je_utable demo_env) (jm_Session (demo_msg rolePhone)))
      (hb_npeers (w_hub race1)) (pairing (w_hub race1))
      (to_lower (je_utable demo_env) (jm_Session (demo_msg rolePhone))) = (Some 0, Some 1)"
    using race1_facts by (simp add: spec_join_def set_side_def)
  obtain s es where s: "tbl_get (hb_sessions (w_hub race2)) ''s1'' = Some s"
    "w_net race2 = perform_all es ((w_net race1)\<lparr>n_box := (n_box (w_net race1))(1 := new_box (w_hub race1))\<rparr>)"
    "frames_to 1 es = [joinedFrame, readyFrame (hb_cfg race_hub) s True]"
    using join_frames_to [OF race_inv(2) demo_check(2) _ demo_visit' sp, of "''b:2''" thesis] race1_facts
    by (simp add: race2_def [symmetric])
  have "mb_cap (new_box (w_hub race1)) = 16" "mb_out (new_box (w_hub race1)) = []"
    using race1_facts race0_facts by (simp_all add: new_box_def empty_box_def)
  then show thesis
    using perform_all_out [of "(w_net race1)\<lparr>n_box := (n_box (w_net race1))(1 := new_box (w_hub race1))\<rparr>" 1 es]
      s(2,3) by (intro that [OF s(1)]) simp_all
qed

lemma race_peer0:
  "p_sessionID (hb_peers (w_hub race2) 0) = ''s1''" "p_role (hb_peers (w_hub race2) 0) = roleDevice"
proof -
  obtain s where s: "tbl_get (hb_sessions (w_hub race2)) ''s1'' = Some s" "s_device s = Some 0"
    using race2_facts(1) by (cases "tbl_get (hb_sessions (w_hub race2)) ''s1''") (auto simp: pairing_def)
  then have "peer_ok (w_hub race2) roleDevice ''s1'' 0"
    using hub_invD(2) [OF race_inv(3) s(1)] by (auto simp: session_ok_def slots_ok_def)
  then show "p_sessionID (hb_peers (w_hub race2) 0) = ''s1''" "p_role (hb_peers (w_hub race2) 0) = roleDevice"
    by (simp_all add: peer_ok_def)
qed

lemma race3_facts:
  "pairing (w_hub race3) ''s1'' = (None, Some 1)" "tbl_keys (hb_sessions (w_hub race3)) = [''s1'']"
  "hb_npeers (w_hub race3) = 2" "hb_cfg (w_hub race3) = hb_cfg race_hub" "w_net race3 = w_net race2"
  "hd (snd (leave_locked 0 (w_hub race2))) = Send 1 byeFrame" "snd (leave_locked 0 (w_hub race2)) \<noteq> []"
  "tbl_get (hb_sessions (w_hub race2)) ''s1'' = Some s \<Longrightarrow>
     \<exists>s'. tbl_get (hb_sessions (w_hub race3)) ''s1'' = Some s' \<and> s_turnToken s' = s_turnToken s"
proof -
  obtain s0 where s0: "tbl_get (hb_sessions (w_hub race2)) ''s1'' = Some s0" "s_device s0 = Some 0"
    "s_phone s0 = Some 1"
    using race2_facts(1) by (cases "tbl_get (hb_sessions (w_hub race2)) ''s1''") (auto simp: pairing_def)
  have hit: "leave_locked 0 (w_hub race2) =
      (drop_or_keep ''s1'' (leave_session (hb_peers (w_hub race2) 0) s0)
         ((w_hub race2)\<lparr>hb_timers := snd (stopLonely s0 (hb_timers (w_hub race2)))\<rparr>),
       [Send 1 byeFrame, LogLine (log_at LInfo ''signaling peer left''
            [(''role'', VStr (p_role (hb_peers (w_hub race2) 0))), (''session'', VStr (p_label (hb_peers (w_hub race2) 0))),
             (''remoteAddr'', VStr (p_addr (hb_peers (w_hub race2) 0)))])])"
    using leave_locked_hit [of "w_hub race2" 0 s0] s0 race_peer0 by (simp add: slot_def other_def)
  have ne: "\<not> isEmpty (leave_session (hb_peers (w_hub race2) 0) s0)"
    using s0 race_peer0 by (simp add: isEmpty_def leave_session_def setSlot_def)
  show "pairing (w_hub race3) ''s1'' = (None, Some 1)"
    using ne s0 race_peer0
    by (simp add: race3_def hit drop_or_keep_def pairing_def tbl.get_put leave_session_def setSlot_def)
  show "w_net race3 = w_net race2"
    "tbl_keys (hb_sessions (w_hub race3)) = [''s1'']"
    "hb_npeers (w_hub race3) = 2" "hb_cfg (w_hub race3) = hb_cfg race_hub"
    "hd (snd (leave_locked 0 (w_hub race2))) = Send 1 byeFrame" "snd (leave_locked 0 (w_hub race2)) \<noteq> []"
    using ne race2_facts s0 race_peer0
    by (simp_all add: race3_def hit drop_or_keep_def leave_session_def setSlot_def
        tbl_keys_def tbl_put_def update_keys)
  show "\<exists>s'. tbl_get (hb_sessions (w_hub race3)) ''s1'' = Some s' \<and> s_turnToken s' = s_turnToken s"
    if "tbl_get (hb_sessions (w_hub race2)) ''s1'' = Some s"
    using ne that s0 by (simp add: race3_def hit drop_or_keep_def tbl.get_put leave_session_def)
qed

lemma race4_box:
  obtains s where "tbl_get (hb_sessions (w_hub race4)) ''s1'' = Some s"
    "mb_out (n_box (w_net race4) 1) = [joinedFrame, readyFrame (hb_cfg race_hub) s True,
       readyFrame (hb_cfg race_hub) s True, remoteJoinedFrame ''S1'']"
    "mb_cap (n_box (w_net race4) 1) = 16"
proof -
  have sp: "spec_join (jm_Role (demo_msg roleDevice)) (to_lower (je_utable demo_env) (jm_Session (demo_msg roleDevice)))
      (hb_npeers (w_hub race3)) (pairing (w_hub race3))
      (to_lower (je_utable demo_env) (jm_Session (demo_msg roleDevice))) = (Some 2, Some 1)"
    using race3_facts by (simp add: spec_join_def set_side_def)
  obtain s es where s: "tbl_get (hb_sessions (w_hub race4)) ''s1'' = Some s"
    "w_net race4 = perform_all es ((w_net race3)\<lparr>n_box := (n_box (w_net race3))(2 := new_box (w_hub race3))\<rparr>)"
    "frames_to 1 es = [readyFrame (hb_cfg race_hub) s True, remoteJoinedFrame ''S1'']"
    "\<And>s'. tbl_get (hb_sessions (w_hub race3)) ''s1'' = Some s' \<Longrightarrow> s_turnToken s = s_turnToken s'"
    using join_frames_to [OF race_inv(4) demo_check(1) _ demo_visit' sp, of "''a:3''" thesis] race3_facts
    by (simp add: race4_def [symmetric])
  obtain s2 where s2: "tbl_get (hb_sessions (w_hub race2)) ''s1'' = Some s2"
    "mb_out (n_box (w_net race2) 1) = [joinedFrame, readyFrame (hb_cfg race_hub) s2 True]"
    "mb_cap (n_box (w_net race2) 1) = 16" by (rule race2_box)
  have "s_turnToken s2 = s_turnToken s" using race3_facts(8) [OF s2(1)] s(4) by auto
  then have "readyFrame (hb_cfg race_hub) s2 True = readyFrame (hb_cfg race_hub) s True"
    by (rule readyFrame_cong)
  then show thesis
    using perform_all_out [of "(w_net race3)\<lparr>n_box := (n_box (w_net race3))(2 := new_box (w_hub race3))\<rparr>" 1 es]
      s(2,3) s2(2,3) race3_facts(5) by (intro that [OF s(1)]) simp_all
qed

lemma reach_star:
  assumes "reach_from init step s" "step\<^sup>*\<^sup>* s t"
  shows "reach_from init step t"
  using assms(2,1) by (induction rule: rtranclp_induct) (auto intro: reach_step)

definition race_start :: relay where
  "race_start = relay_start race_hub"

lemma reach_race2: "reach_from (relay_init 0) rstep (with_world race2 race_start)"
proof -
  have w: "world_of (with_world w s) = w" for w s by (simp add: world_of_def with_world_def)
  have w0: "world_of race_start = \<lparr>w_hub = race_hub, w_net = empty_net\<rparr>"
    by (simp add: world_of_def race_start_def relay_start_def)
  have "reach_from (relay_init 0) rstep race_start"
    using race_new by (intro reach_init) (auto simp: relay_init_def race_start_def)
  then have 1: "reach_from (relay_init 0) rstep (with_world race1 race_start)"
    using run_join [of race_start "demo_msg roleDevice" demo_env "''a:1''"]
    by (elim reach_star) (simp add: w0 race1_def, simp add: race_start_def relay_start_def)
  have "with_world race2 (with_world race1 race_start) = with_world race2 race_start"
    by (simp add: with_world_def)
  then show ?thesis
    using 1 run_join [of "with_world race1 race_start" "demo_msg rolePhone" demo_env "''b:2''"]
    by (elim reach_star) (simp add: w race2_def, simp add: with_world_def race_start_def relay_start_def)
qed

section \<open>Properties\<close>

text \<open>C18: A stale bye can overtake a new pairing.  There is a schedule after which the registry
  pairs the phone with the device's new connection, and the phone has been sent, in this order,
  joined, ready (the old pairing), ready (the new pairing), the announcement of the new device,
  and then a bye, the one meant for the old connection, which its protocol reads as the end of
  the current pairing.\<close>

theorem stale_bye_after_new_ready:
  "\<exists>s x. reach_from (relay_init 0) rstep s
     \<and> pairing (r_hub s) ''s1'' = (Some 2, Some 1)
     \<and> history s 1 = [joinedFrame, readyFrame (hb_cfg (r_hub s)) x True,
         readyFrame (hb_cfg (r_hub s)) x True, remoteJoinedFrame ''S1'', byeFrame]"
proof -
  let ?R2 = "with_world race2 race_start"
  obtain es where es: "snd (leave_locked 0 (w_hub race2)) = Send 1 byeFrame # es"
    using race3_facts(6,7) by (cases "snd (leave_locked 0 (w_hub race2))") auto
  let ?R3 = "?R2\<lparr>r_hub := fst (leave_locked 0 (r_hub ?R2)),
      r_tasks := (r_tasks ?R2)(Conn 0 := map Do (Send 1 byeFrame # es))\<rparr>"
  have "leave_locked 0 (r_hub ?R2) = (fst (leave_locked 0 (r_hub ?R2)), Send 1 byeFrame # es)"
    using es by (simp add: with_world_def prod_eq_iff)
  then have "rstep ?R2 ?R3"
    using race2_facts by (intro step_leave) (simp_all add: with_world_def race_start_def relay_start_def)
  then have 3: "reach_from (relay_init 0) rstep ?R3" by (rule reach_step [OF reach_race2])
  have w3: "world_of ?R3 = race3" by (simp add: world_of_def with_world_def race3_def)
  have 4: "reach_from (relay_init 0) rstep (with_world race4 ?R3)"
  proof (rule reach_star [OF 3])
    have "hb_npeers (r_hub ?R3) = 2" using race3_facts by (simp add: with_world_def race3_def)
    then show "rstep\<^sup>*\<^sup>* ?R3 (with_world race4 ?R3)"
      using run_join [of ?R3 "demo_msg roleDevice" demo_env "''a:3''"]
      unfolding w3 race4_def [symmetric]
      by (simp add: with_world_def race_start_def relay_start_def)
  qed
  let ?R4 = "with_world race4 ?R3"
  let ?R5 = "?R4\<lparr>r_net := perform (Send 1 byeFrame) (r_net ?R4), r_tasks := (r_tasks ?R4)(Conn 0 := map Do es)\<rparr>"
  have "rstep ?R4 ?R5" by (rule step_do) (simp add: with_world_def)
  then have 5: "reach_from (relay_init 0) rstep ?R5" by (rule reach_step [OF 4])
  obtain x where x: "mb_out (n_box (w_net race4) 1) = [joinedFrame, readyFrame (hb_cfg race_hub) x True,
       readyFrame (hb_cfg race_hub) x True, remoteJoinedFrame ''S1'']"
    "mb_cap (n_box (w_net race4) 1) = 16" by (rule race4_box)
  have cfg: "hb_cfg (w_hub race4) = hb_cfg race_hub"
    using hub_join_counts(2) [OF demo_check(1) race_inv(4), of demo_env "''a:3''"] race3_facts(4)
    by (simp add: race4_def)
  have pair: "pairing (w_hub race4) ''s1'' = (Some 2, Some 1)"
    using hub_join_pairing [OF race_inv(4) demo_check(1), of demo_env "''a:3''"] race3_facts
    by (simp add: race4_def spec_join_def set_side_def)
  have "r_hub ?R5 = w_hub race4" by (simp add: with_world_def)
  moreover have "history ?R5 1 = [joinedFrame, readyFrame (hb_cfg race_hub) x True,
         readyFrame (hb_cfg race_hub) x True, remoteJoinedFrame ''S1'', byeFrame]"
    using x by (simp add: history_def with_world_def race_start_def relay_start_def peer_send_def
        box_has_room_def)
  ultimately show ?thesis using 5 cfg pair by metis
qed

text \<open>Each hub operation run without interruption is one of the schedules, and has exactly
  the effect of the sequential operation: what is proved of the sequential hub applies to the
  interleaved one whenever nobody interferes.\<close>

lemma hub_operations_are_schedules:
  assumes "r_owner s = None" "\<And>g. r_tasks s g = []"
  shows "(join_check m = None \<longrightarrow> rstep\<^sup>*\<^sup>* s (with_world (snd (hub_join env m addr (world_of s))) s))
    \<and> (p < hb_npeers (r_hub s) \<longrightarrow> rstep\<^sup>*\<^sup>* s (with_world (hub_leave p (world_of s)) s))
    \<and> (p < hb_npeers (r_hub s) \<and> frameType raw = (ft, True) \<and> relayed_type ft \<longrightarrow>
         rstep\<^sup>*\<^sup>* s (with_world (hub_forward p ft raw (world_of s)) s))"
  using run_join [OF assms(1) _ assms(2)] run_leave [OF assms(1) _ assms(2)]
    run_forward [OF assms(1) _ assms(2)] by blast

section \<open>The properties of every schedule, at this one\<close>

lemma race2_peers: "1 < hb_npeers (r_hub (with_world race2 race_start))"
  using race2_facts by (simp add: with_world_def)

theorem relay_keeps_registry_witness: "hub_inv 0 (r_hub (with_world race2 race_start))"
  using relay_keeps_registry [OF reach_race2] by blast

theorem joined_is_first_frame_witness:
  "history (with_world race2 race_start) 1 = [] \<or> hd (history (with_world race2 race_start) 1) = joinedFrame"
  by (rule joined_is_first_frame [OF reach_race2 race2_peers])

lemma reach_race_write:
  "\<exists>s. reach_from (relay_init 0) rstep s \<and> joinedFrame \<in> set (r_wire s 1) \<and> 1 < hb_npeers (r_hub s)"
proof -
  let ?R2 = "with_world race2 race_start"
  obtain x where x: "mb_out (n_box (w_net race2) 1) = [joinedFrame, readyFrame (hb_cfg race_hub) x True]"
    by (rule race2_box)
  let ?s = "?R2\<lparr>r_net := (r_net ?R2)\<lparr>n_box := (n_box (r_net ?R2))(1 :=
             (n_box (r_net ?R2) 1)\<lparr>mb_out := [readyFrame (hb_cfg race_hub) x True]\<rparr>)\<rparr>,
           r_wire := (r_wire ?R2)(1 := r_wire ?R2 1 @ [joinedFrame])\<rparr>"
  have "rstep ?R2 ?s" using x race2_peers by (intro step_write) (simp_all add: with_world_def)
  then have "reach_from (relay_init 0) rstep ?s" by (rule reach_step [OF reach_race2])
  moreover have "joinedFrame \<in> set (r_wire ?s 1) \<and> 1 < hb_npeers (r_hub ?s)" using race2_peers by simp
  ultimately show ?thesis by blast
qed

theorem wire_frames_are_legitimate_witness:
  "\<exists>s :: relay. joinedFrame \<in> set (r_wire s 1) \<and>
     (\<forall>c x b. joinedFrame = readyFrame c x b \<longrightarrow> b = (p_role (hb_peers (r_hub s) 1) = rolePhone))"
proof -
  obtain s where s: "reach_from (relay_init 0) rstep s" "joinedFrame \<in> set (r_wire s 1)"
    "1 < hb_npeers (r_hub s)" using reach_race_write by blast
  from wire_frames_are_legitimate [OF s(1,3,2), THEN conjunct1] s(2) show ?thesis by blast
qed

end
