(* ===== verification/Conn.thy ===== *)
theory Conn
  imports RelayProps
begin

text \<open>
  \<open>signaling/conn.go\<close>: one WebSocket connection.  The reader (\<open>awaitJoin\<close>,
  \<open>readLoop\<close>, \<open>handleFrame\<close>) is a function of the results its socket reads
  return; the writer (\<open>writeLoop\<close>, \<open>flushAndClose\<close>) is a step relation, because
  its \<open>select\<close> may take any ready case and its queue grows while it runs.  The
  WebSocket library is what these definitions take as results: each \<open>Read\<close>, \<open>Write\<close> and
  \<open>Ping\<close> may succeed or fail at any point.
\<close>

section \<open>Socket results\<close>

datatype message_type = MessageText | MessageBinary

datatype read_result = Frame message_type string | ReadFailed string

datatype close_status = StatusNormalClosure | StatusPolicyViolation

datatype ws_close = CloseFrame close_status string | CloseNow

definition maxReason :: nat where "maxReason = 120"

text \<open>\<open>reason[:maxReason]\<close> cuts bytes, which may split a character.\<close>

definition truncateReason :: "string \<Rightarrow> string" where
  "truncateReason reason = (if length reason > maxReason then take maxReason reason else reason)"

section \<open>Logging\<close>

definition add_log :: "log_line \<Rightarrow> world \<Rightarrow> world" where
  "add_log l w = w\<lparr>w_net := perform (LogLine l) (w_net w)\<rparr>"

definition frame_label :: "string \<Rightarrow> string" where
  "frame_label raw = (let (ft, ok) = frameType raw in if ok then ft else ''(not json)'')"

definition logFrame :: "string \<Rightarrow> string \<Rightarrow> nat option \<Rightarrow> string \<Rightarrow> world \<Rightarrow> world" where
  "logFrame dir addr p raw w =
     (let (role, session) = (case p of None \<Rightarrow> ([], [])
            | Some q \<Rightarrow> (p_role (hb_peers (w_hub w) q), p_label (hb_peers (w_hub w) q)))
      in add_log (log_at LDebug ''signaling frame body''
             [(''dir'', VStr dir), (''type'', VStr (frame_label raw)), (''session'', VStr session),
              (''body'', VStr raw)])
         (add_log (log_at LInfo ''signaling frame''
             [(''dir'', VStr dir), (''type'', VStr (frame_label raw)), (''role'', VStr role),
              (''session'', VStr session), (''remoteAddr'', VStr addr), (''bytes'', VInt (int (length raw)))])
           w))"

section \<open>awaitJoin\<close>

datatype await_error =
    AwaitRead string
  | FirstNotJSON
  | FirstNotJoin string
  | JoinUndecodable
  | JoinRefused join_error

definition awaitJoin ::
  "join_env \<Rightarrow> string \<Rightarrow> read_result \<Rightarrow> world \<Rightarrow> (await_error + nat) \<times> world" where
  "awaitJoin env addr r w =
     (case r of
        ReadFailed e \<Rightarrow> (Inl (AwaitRead e), w)
      | Frame _ data \<Rightarrow>
          let w1 = logFrame ''in'' addr None data w; (ft, ok) = frameType data in
          if \<not> ok then (Inl FirstNotJSON, w1)
          else if ft \<noteq> typeJoin then (Inl (FirstNotJoin ft), w1)
          else (case unmarshal_join data of
              None \<Rightarrow> (Inl JoinUndecodable, w1)
            | Some m \<Rightarrow>
                (case hub_join env m addr w1 of
                   (Inl e, w2) \<Rightarrow> (Inl (JoinRefused e), w2)
                 | (Inr p, w2) \<Rightarrow> (Inr p, w2))))"

section \<open>handleFrame and readLoop\<close>

text \<open>\<open>True\<close> is \<open>errClientBye\<close>.\<close>

definition handleFrame :: "string \<Rightarrow> nat \<Rightarrow> string \<Rightarrow> world \<Rightarrow> bool \<times> world" where
  "handleFrame addr p data w =
     (let w1 = logFrame ''in'' addr (Some p) data w; (ft, ok) = frameType data in
      if \<not> ok then (False, w1)
      else if ft \<in> {typeOffer, typeAnswer, typeCandidate} then (False, hub_forward p ft data w1)
      else if ft = typeBye then (True, w1)
      else (False, add_log (log_at LDebug ''signaling frame ignored''
              [(''type'', VStr ft), (''role'', VStr (p_role (hb_peers (w_hub w1) p))),
               (''session'', VStr (p_label (hb_peers (w_hub w1) p)))]) w1))"

text \<open>
  The loop on a finite list of read results: \<open>Reading\<close> means that it is blocked in the
  next \<open>Read\<close>, which is the only way it does not return.
\<close>

datatype read_end = Reading | ReadError string | ClientBye

fun readLoop :: "string \<Rightarrow> nat \<Rightarrow> read_result list \<Rightarrow> world \<Rightarrow> read_end \<times> world" where
  "readLoop addr p [] w = (Reading, w)"
| "readLoop addr p (ReadFailed e # rs) w = (ReadError e, w)"
| "readLoop addr p (Frame mt data # rs) w =
     (if mt \<noteq> MessageText then readLoop addr p rs w
      else (case handleFrame addr p data w of
          (True, w1) \<Rightarrow> (ClientBye, w1)
        | (False, w1) \<Rightarrow> readLoop addr p rs w1))"

section \<open>handleConn\<close>

datatype conn_state = AwaitingJoin | Rejected await_error | Serving nat | Ended nat

text \<open>
  The text of the error that ends \<open>awaitJoin\<close>; \<open>json_err\<close> is what \<open>encoding/json\<close> says
  of the frame and \<open>go_quote\<close> the \<open>%q\<close> of \<open>fmt\<close>.
\<close>

definition await_message :: "string \<Rightarrow> (string \<Rightarrow> string) \<Rightarrow> await_error \<Rightarrow> string" where
  "await_message json_err go_quote e =
     (case e of
        AwaitRead err \<Rightarrow> err
      | FirstNotJSON \<Rightarrow> ''first frame is not JSON''
      | FirstNotJoin ft \<Rightarrow> ''first frame must be join, got '' @ ft
      | JoinUndecodable \<Rightarrow> json_err
      | JoinRefused EmptySession \<Rightarrow> ''join: empty session id''
      | JoinRefused (UnknownRole r) \<Rightarrow> ''join: unknown role '' @ go_quote r)"

text \<open>
  The goroutine of one connection, its hub calls in the order it makes them: a rejected
  connection is closed with a policy violation; one that was served is closed normally
  and then, in the deferred call, leaves the hub.
\<close>

definition end_log :: "string \<Rightarrow> nat \<Rightarrow> read_end \<Rightarrow> world \<Rightarrow> world" where
  "end_log addr p e w =
     (case e of
        ReadError err \<Rightarrow>
          add_log (log_at LDebug ''signaling read loop ended''
            [(''role'', VStr (p_role (hb_peers (w_hub w) p))),
             (''session'', VStr (p_label (hb_peers (w_hub w) p))), (''remoteAddr'', VStr addr),
             (''err'', VStr err)]) w
      | _ \<Rightarrow> w)"

definition handleConn ::
  "string \<Rightarrow> (string \<Rightarrow> string) \<Rightarrow> join_env \<Rightarrow> string \<Rightarrow> read_result list \<Rightarrow> world \<Rightarrow>
     conn_state \<times> ws_close list \<times> world" where
  "handleConn json_err go_quote env addr rs w =
     (case rs of
        [] \<Rightarrow> (AwaitingJoin, [], w)
      | r # rest \<Rightarrow>
          (case awaitJoin env addr r w of
             (Inl e, w1) \<Rightarrow>
               (Rejected e, [CloseFrame StatusPolicyViolation ''join required''],
                add_log (log_at LInfo ''signaling connection rejected''
                  [(''err'', VStr (await_message json_err go_quote e)), (''remoteAddr'', VStr addr)]) w1)
           | (Inr p, w1) \<Rightarrow>
               (case readLoop addr p rest w1 of
                  (Reading, w2) \<Rightarrow> (Serving p, [], w2)
                | (e, w2) \<Rightarrow>
                    (Ended p, [CloseFrame StatusNormalClosure ''bye''],
                     hub_leave p (end_log addr p e w2)))))"

section \<open>writeLoop and flushAndClose\<close>

text \<open>
  Where the writer is: in its select, in a write of a frame it has taken from the channel, in
  a ping, in the select or a write of \<open>flushAndClose\<close>, out of \<open>writeLoop\<close>
  without a close, or at the close that ends \<open>flushAndClose\<close>.
\<close>

datatype writer_mode =
    Selecting
  | Writing string
  | Pinging
  | Flushing string
  | FlushWriting string string
  | Returned
  | Closed ws_close

text \<open>
  \<open>wr_box\<close> is the peer's channel and close request, \<open>wr_written\<close> what the client has
  received, \<open>wr_accepted\<close> every frame the hub has queued so far, \<open>wr_cancelled\<close> the
  connection context.
\<close>

record writer =
  wr_box :: mailbox
  wr_written :: "string list"
  wr_accepted :: "string list"
  wr_cancelled :: bool
  wr_mode :: writer_mode

definition writer_start :: "nat \<Rightarrow> writer" where
  "writer_start cap = \<lparr>wr_box = empty_box cap, wr_written = [], wr_accepted = [],
     wr_cancelled = False, wr_mode = Selecting\<rparr>"

text \<open>\<open>msg := <-c.peer.out\<close>, what the hub does to the channel, and a write that succeeds.\<close>

definition take_out :: "string list \<Rightarrow> writer_mode \<Rightarrow> writer \<Rightarrow> writer" where
  "take_out rest m s = s\<lparr>wr_box := (wr_box s)\<lparr>mb_out := rest\<rparr>, wr_mode := m\<rparr>"

definition take_closing :: "string list \<Rightarrow> writer_mode \<Rightarrow> writer \<Rightarrow> writer" where
  "take_closing rest m s = s\<lparr>wr_box := (wr_box s)\<lparr>mb_closing := rest\<rparr>, wr_mode := m\<rparr>"

definition receive_frame :: "string \<Rightarrow> writer \<Rightarrow> writer" where
  "receive_frame msg s =
     s\<lparr>wr_box := peer_send msg (wr_box s),
       wr_accepted := (if box_has_room (wr_box s) then wr_accepted s @ [msg] else wr_accepted s)\<rparr>"

definition wrote_frame :: "string \<Rightarrow> writer_mode \<Rightarrow> writer \<Rightarrow> writer" where
  "wrote_frame msg m s = s\<lparr>wr_written := wr_written s @ [msg], wr_mode := m\<rparr>"

inductive wstep :: "config \<Rightarrow> writer \<Rightarrow> writer \<Rightarrow> bool" for c :: config where
  \<comment> \<open>the hub and whoever cancels the connection context, at any time\<close>
  hub_sends: "wstep c s (receive_frame msg s)"
| hub_closes: "wstep c s (s\<lparr>wr_box := peer_close reason (wr_box s)\<rparr>)"
| context_cancelled: "wstep c s (s\<lparr>wr_cancelled := True\<rparr>)"
  \<comment> \<open>the cases of the select\<close>
| sel_done: "\<lbrakk>wr_mode s = Selecting; wr_cancelled s\<rbrakk> \<Longrightarrow> wstep c s (s\<lparr>wr_mode := Returned\<rparr>)"
| sel_out:
    "\<lbrakk>wr_mode s = Selecting; mb_out (wr_box s) = msg # ms\<rbrakk>
     \<Longrightarrow> wstep c s (take_out ms (Writing msg) s)"
| write_ok: "wr_mode s = Writing msg \<Longrightarrow> wstep c s (wrote_frame msg Selecting s)"
| write_fails: "wr_mode s = Writing msg \<Longrightarrow> wstep c s (s\<lparr>wr_mode := Returned\<rparr>)"
| sel_closing:
    "\<lbrakk>wr_mode s = Selecting; mb_closing (wr_box s) = reason # rs\<rbrakk>
     \<Longrightarrow> wstep c s (take_closing rs (Flushing reason) s)"
| sel_ping:
    "\<lbrakk>wr_mode s = Selecting; cfg_PingInterval c > 0\<rbrakk> \<Longrightarrow> wstep c s (s\<lparr>wr_mode := Pinging\<rparr>)"
| ping_ok: "wr_mode s = Pinging \<Longrightarrow> wstep c s (s\<lparr>wr_mode := Selecting\<rparr>)"
| ping_fails: "wr_mode s = Pinging \<Longrightarrow> wstep c s (s\<lparr>wr_mode := Returned\<rparr>)"
  \<comment> \<open>the loop of flushAndClose\<close>
| flush_out:
    "\<lbrakk>wr_mode s = Flushing reason; mb_out (wr_box s) = msg # ms\<rbrakk>
     \<Longrightarrow> wstep c s (take_out ms (FlushWriting reason msg) s)"
| flush_ok: "wr_mode s = FlushWriting reason msg \<Longrightarrow> wstep c s (wrote_frame msg (Flushing reason) s)"
| flush_fails: "wr_mode s = FlushWriting reason msg \<Longrightarrow> wstep c s (s\<lparr>wr_mode := Closed CloseNow\<rparr>)"
| flush_done:
    "\<lbrakk>wr_mode s = Flushing reason; mb_out (wr_box s) = []\<rbrakk>
     \<Longrightarrow> wstep c s (s\<lparr>wr_mode :=
           Closed (CloseFrame StatusNormalClosure (truncateReason reason))\<rparr>)"

lemmas writer_moves = take_out_def take_closing_def receive_frame_def wrote_frame_def

section \<open>routes.go\<close>

text \<open>\<open>rq_header\<close> is \<open>r.Header.Get\<close>: the first value of a canonical header name, or empty.\<close>

record request =
  rq_RemoteAddr :: string
  rq_header :: "string \<Rightarrow> string"

definition clientAddr :: "request \<Rightarrow> string" where
  "clientAddr r =
     (let fwd = rq_header r ''X-Forwarded-For''
      in if fwd \<noteq> [] then rq_RemoteAddr r @ '' (x-forwarded-for: '' @ fwd @ '')''
         else rq_RemoteAddr r)"

datatype ws_response =
    BadRequest string
  | UpgradeFailed
  | Upgraded conn_state "ws_close list"

text \<open>\<open>accept\<close> is \<open>websocket.Accept\<close>: an error text, or the upgraded connection.\<close>

definition handleWS ::
  "(request \<Rightarrow> string option) \<Rightarrow> string \<Rightarrow> (string \<Rightarrow> string) \<Rightarrow> join_env \<Rightarrow> request \<Rightarrow>
     read_result list \<Rightarrow> world \<Rightarrow> ws_response \<times> world" where
  "handleWS accept json_err go_quote env r rs w =
     (if \<not> equal_fold (rq_header r ''Upgrade'') ''websocket''
      then (BadRequest ''expected a WebSocket upgrade'', w)
      else (case accept r of
          Some err \<Rightarrow>
            (UpgradeFailed, add_log (log_at LInfo ''signaling upgrade failed''
               [(''err'', VStr err), (''remoteAddr'', VStr (rq_RemoteAddr r))]) w)
        | None \<Rightarrow>
            (case handleConn json_err go_quote env (clientAddr r) rs w of
               (st, closes, w1) \<Rightarrow> (Upgraded st closes, w1))))"

end
