(* ===== verification/ConnProps.thy ===== *)
theory ConnProps
  imports Conn "HOL-Library.Sublist"
begin

text \<open>
  A connection from its first frame to its last: who is admitted, what its frames do, what
  it leaves behind, and what its writer delivers before it closes.
\<close>

section \<open>Frames and the registry\<close>

lemma add_log_fields [simp]:
  "w_hub (add_log l w) = w_hub w" "n_box (w_net (add_log l w)) = n_box (w_net w)"
  by (simp_all add: add_log_def)

lemma logFrame_fields [simp]:
  "w_hub (logFrame d a p raw w) = w_hub w" "n_box (w_net (logFrame d a p raw w)) = n_box (w_net w)"
  by (simp_all add: logFrame_def split_beta)

lemma handleFrame_hub [simp]: "w_hub (snd (handleFrame addr p data w)) = w_hub w"
  by (simp add: handleFrame_def split_beta Let_def)

lemma readLoop_hub [simp]: "w_hub (snd (readLoop addr p rs w)) = w_hub w"
proof (induction addr p rs w rule: readLoop.induct)
  case (3 addr p mt data rs w)
  obtain b w1 where h: "handleFrame addr p data w = (b, w1)" by force
  then have "w_hub w1 = w_hub w" using handleFrame_hub [of addr p data w] by simp
  then show ?case using 3 h by (cases b) auto
qed simp_all

lemma hub_join_Inl: "fst (hub_join env m addr w) = Inl e \<Longrightarrow> snd (hub_join env m addr w) = w"
  by (auto simp: hub_join_def split_beta Let_def split: option.splits)

lemma hub_join_Inr: "hub_join env m addr w = (Inr p, w2) \<Longrightarrow> join_check m = None \<and> p = hb_npeers (w_hub w)"
  by (auto simp: hub_join_def split_beta Let_def new_peer_def split: option.splits)

text \<open>The cases of \<open>awaitJoin\<close>.\<close>

lemma awaitJoin_Inl: "awaitJoin env addr r w = (Inl e, w1) \<Longrightarrow> w_hub w1 = w_hub w"
  by (auto simp: awaitJoin_def Let_def split_beta split: read_result.splits if_splits option.splits
      prod.splits sum.splits dest: hub_join_Inl)

lemma awaitJoin_Inr:
  assumes "awaitJoin env addr r w = (Inr p, w1)"
  obtains mt data m where "r = Frame mt data" "frameType data = (typeJoin, True)"
    "unmarshal_join data = Some m" "join_check m = None" "p = hb_npeers (w_hub w)"
    "hub_join env m addr (logFrame ''in'' addr None data w) = (Inr p, w1)"
proof (cases r)
  case (Frame mt data)
  obtain m where m: "frameType data = (typeJoin, True)" "unmarshal_join data = Some m"
    "hub_join env m addr (logFrame ''in'' addr None data w) = (Inr p, w1)"
    using assms Frame
    by (cases "frameType data")
       (auto simp: awaitJoin_def Let_def split: if_splits option.splits prod.splits sum.splits)
  then show ?thesis using hub_join_Inr [OF m(3)] that Frame by simp
qed (use assms in \<open>auto simp: awaitJoin_def\<close>)

lemma awaitJoin_admits:
  assumes "unmarshal_join data = Some m" "frameType data = (''join'', True)" "join_check m = None"
  shows "\<exists>p w1. awaitJoin env addr (Frame mt data) w = (Inr p, w1)"
proof -
  have "\<exists>p w2. hub_join env m addr (logFrame ''in'' addr None data w) = (Inr p, w2)"
    using assms(3) by (simp add: hub_join_def split_beta Let_def)
  then show ?thesis using assms(1,2) by (auto simp: awaitJoin_def typeJoin_def Let_def)
qed

text \<open>A connection after its join: it is still served, or it has left the hub.\<close>

lemma served_connection:
  assumes inv: "hub_inv base (w_hub w1)" and aj: "awaitJoin env addr r w = (Inr p, w1)"
  shows "\<exists>st closes w'. handleConn json_err go_quote env addr (r # rest) w = (st, closes, w')
    \<and> hub_inv base (w_hub w')
    \<and> ((st = Serving p \<and> closes = [])
       \<or> (st = Ended p \<and> closes = [CloseFrame StatusNormalClosure ''bye''] \<and> \<not> in_slot (w_hub w') p))"
proof -
  obtain e w2 where rl: "readLoop addr p rest w1 = (e, w2)" by force
  then have h2: "w_hub w2 = w_hub w1" using readLoop_hub [of addr p rest w1] by simp
  have el: "w_hub (hub_leave p (end_log addr p e w2)) = fst (leave_locked p (w_hub w1))"
    using h2 by (simp add: hub_leave_def split_beta end_log_def split: read_end.split)
  have "handleConn json_err go_quote env addr (r # rest) w =
      (if e = Reading then (Serving p, [], w2)
       else (Ended p, [CloseFrame StatusNormalClosure ''bye''], hub_leave p (end_log addr p e w2)))"
    by (cases e) (simp_all add: handleConn_def aj rl)
  then show ?thesis
    using inv h2 el leave_locked_inv [OF inv, of p] leave_gone [OF inv, of p] by (cases "e = Reading") simp_all
qed

section \<open>Properties\<close>

text \<open>C19: A connection is admitted exactly when its first frame has type join and decodes to a
  join with a session id and a known role.  A connection that is not admitted is closed with
  "join required" and leaves the hub as it found it; one that was served and has ended was
  closed normally, is in no slot any more, and every hub invariant holds throughout.\<close>

theorem connection_lifecycle:
  assumes inv: "hub_inv base (w_hub w)"
  shows "case handleConn json_err go_quote env addr rs w of (st, closes, w') \<Rightarrow>
      hub_inv base (w_hub w')
    \<and> ((\<exists>e. st = Rejected e) \<longleftrightarrow>
         rs \<noteq> [] \<and> (\<forall>mt data m. hd rs = Frame mt data \<longrightarrow> frameType data = (''join'', True) \<longrightarrow>
           unmarshal_join data = Some m \<longrightarrow> join_check m \<noteq> None))
    \<and> (case st of
        AwaitingJoin \<Rightarrow> rs = [] \<and> closes = [] \<and> w' = w
      | Rejected e \<Rightarrow> closes = [CloseFrame StatusPolicyViolation ''join required''] \<and> w_hub w' = w_hub w
      | Serving p \<Rightarrow> closes = [] \<and> p = hb_npeers (w_hub w)
      | Ended p \<Rightarrow> closes = [CloseFrame StatusNormalClosure ''bye''] \<and> p = hb_npeers (w_hub w)
          \<and> \<not> in_slot (w_hub w') p)"
proof (cases rs)
  case Nil
  then show ?thesis using inv by (simp add: handleConn_def)
next
  case (Cons r rest)
  obtain x w1 where aj: "awaitJoin env addr r w = (x, w1)" by force
  show ?thesis
  proof (cases x)
    case (Inl e)
    have h: "w_hub w1 = w_hub w" using awaitJoin_Inl aj Inl by blast
    have "join_check m \<noteq> None"
      if "r = Frame mt data" "frameType data = (''join'', True)" "unmarshal_join data = Some m" for mt data m
      using awaitJoin_admits [OF that(3,2), of env addr mt w] aj Inl that(1) by auto
    then show ?thesis using inv h by (simp add: handleConn_def Cons aj Inl)
  next
    case (Inr p)
    then obtain mt data m where j: "r = Frame mt data" "frameType data = (typeJoin, True)"
      "unmarshal_join data = Some m" "join_check m = None" "p = hb_npeers (w_hub w)"
      "hub_join env m addr (logFrame ''in'' addr None data w) = (Inr p, w1)"
      using awaitJoin_Inr aj by blast
    have i1: "hub_inv base (w_hub w1)"
      using hub_join_inv [of base "logFrame ''in'' addr None data w" env m addr] inv j(6) by simp
    have adm: "\<not> (rs \<noteq> [] \<and> (\<forall>mt data m. hd rs = Frame mt data \<longrightarrow> frameType data = (''join'', True) \<longrightarrow>
           unmarshal_join data = Some m \<longrightarrow> join_check m \<noteq> None))"
      using j(1-4) Cons unfolding typeJoin_def by auto
    from served_connection [OF i1 aj [unfolded Inr], of json_err go_quote rest] show ?thesis
      using j(5) adm unfolding Cons by (elim exE conjE disjE) simp_all
  qed
qed

text \<open>A join as JSON text, to run the connection on.\<close>

definition demo_join :: string where
  "demo_join = json_object [(''type'', json_quote typeJoin), (''role'', json_quote roleDevice),
     (''session'', json_quote ''S1'')]"

theorem connection_lifecycle_witness:
  "case handleConn [] (\<lambda>s. s) demo_env ''a:1'' [ReadFailed ''timeout''] demo_world2 of
     (st, closes, w') \<Rightarrow> w_hub w' = w_hub demo_world2"
  using connection_lifecycle [OF demo_inv2, where json_err = "[]" and go_quote = "\<lambda>s. s"
      and env = demo_env and addr = "''a:1''" and rs = "[ReadFailed ''timeout'']"]
  by (simp add: handleConn_def awaitJoin_def)

text \<open>After the join, a frame's type decides all: offer, answer and candidate are forwarded,
  bye ends the connection, and a frame that is not JSON or has another type (a second join
  included) changes neither the registry nor any queue; nor does a binary message.\<close>

theorem frames_are_dispatched_by_type:
  "fst (handleFrame addr p data w) = (frameType data = (''bye'', True))
   \<and> (if snd (frameType data) \<and> fst (frameType data) \<in> {''offer'', ''answer'', ''candidate''}
      then n_box (w_net (snd (handleFrame addr p data w))) =
             n_box (perform_all (forward_effects p (fst (frameType data)) data (w_hub w)) (w_net w))
      else n_box (w_net (snd (handleFrame addr p data w))) = n_box (w_net w))
   \<and> w_hub (snd (handleFrame addr p data w)) = w_hub w
   \<and> readLoop addr p (Frame MessageBinary data # rs) w = readLoop addr p rs w"
proof -
  have same: "n_box (perform_all es n) = n_box (perform_all es n')" if eq: "n_box n = n_box n'" for es n n'
  proof -
    have "n_box (perform e n) = n_box (perform e n')" if "n_box n = n_box n'" for e n n'
      using that by (cases e) (simp_all add: countPeerJoined_def countMessageForwarded_def)
    note one = this
    show ?thesis using eq
    proof (induction es arbitrary: n n')
      case (Cons e es)
      show ?case using Cons.IH [OF one [OF Cons.prems]] by simp
    qed simp
  qed
  obtain ft ok where f: "frameType data = (ft, ok)" by force
  show ?thesis
  proof (cases "ok \<and> ft \<in> {typeOffer, typeAnswer, typeCandidate}")
    case True
    then have "ft \<noteq> typeBye" by (auto simp: protocol_consts)
    then show ?thesis
      using True same [of "w_net (logFrame ''in'' addr (Some p) data w)" "w_net w"]
      unfolding typeOffer_def typeAnswer_def typeCandidate_def typeBye_def
      by (simp add: handleFrame_def f protocol_consts hub_forward_def Let_def)
  next
    case False
    then show ?thesis
      unfolding typeOffer_def typeAnswer_def typeCandidate_def
      by (cases ok) (simp_all add: handleFrame_def f protocol_consts Let_def)
  qed
qed

theorem frames_are_dispatched_by_type_witness:
  "fst (handleFrame ''a:1'' 0 byeFrame demo_world2)"
  using frames_are_dispatched_by_type [of "''a:1''" 0 byeFrame demo_world2 "[]"] frame_tags(2)
  by (simp add: typeBye_def)

section \<open>The writer\<close>

lemma truncateReason_spec: "truncateReason r = take 120 r" "length (truncateReason r) \<le> 120"
  by (simp_all add: truncateReason_def maxReason_def)

text \<open>
  Nothing is reordered, duplicated or lost on the way: until the writer stops, what the hub
  has queued is what the client has received followed by what is still in the channel.
\<close>

definition winv :: "writer \<Rightarrow> bool" where
  "winv s \<longleftrightarrow>
     (case wr_mode s of
        Writing m \<Rightarrow> wr_accepted s = wr_written s @ m # mb_out (wr_box s)
      | FlushWriting _ m \<Rightarrow> wr_accepted s = wr_written s @ m # mb_out (wr_box s)
      | Returned \<Rightarrow> prefix (wr_written s) (wr_accepted s)
      | Closed _ \<Rightarrow> prefix (wr_written s) (wr_accepted s)
      | _ \<Rightarrow> wr_accepted s = wr_written s @ mb_out (wr_box s))"

lemma winv_step: "wstep c s t \<Longrightarrow> winv s \<Longrightarrow> winv t"
proof (induction rule: wstep.induct)
  case (hub_sends s msg)
  then show ?case
    by (cases "wr_mode s") (auto simp: winv_def writer_moves peer_send_def box_has_room_def)
qed (auto simp: winv_def writer_moves split: writer_mode.splits)

interpretation writer: invariant_system "\<lambda>s. \<exists>cap. s = writer_start cap" "wstep c" winv for c
proof
  show "winv s" if "\<exists>cap. s = writer_start cap" for s
    using that by (auto simp: winv_def writer_start_def empty_box_def)
  show "winv t" if "winv s" "wstep c s t" for s t by (rule winv_step [OF that(2,1)])
qed

text \<open>From the moment a close request is taken.\<close>

definition flush_from :: "string list \<Rightarrow> string \<Rightarrow> writer \<Rightarrow> bool" where
  "flush_from queued reason s \<longleftrightarrow>
     (case wr_mode s of
        Flushing r \<Rightarrow> r = reason \<and> prefix queued (wr_written s @ mb_out (wr_box s))
      | FlushWriting r m \<Rightarrow> r = reason \<and> prefix queued (wr_written s @ m # mb_out (wr_box s))
      | Closed (CloseFrame st r) \<Rightarrow>
          prefix queued (wr_written s) \<and> st = StatusNormalClosure \<and> r = truncateReason reason
      | Closed CloseNow \<Rightarrow> True
      | _ \<Rightarrow> False)"

lemma prefix_grows: "prefix q (a @ b) \<Longrightarrow> prefix q (a @ b @ [m])"
  using prefix_prefix [of q "a @ b" "[m]"] by simp

lemma flush_from_step: "wstep c s t \<Longrightarrow> flush_from q r s \<Longrightarrow> flush_from q r t"
proof (induction rule: wstep.induct)
  case (hub_sends s msg)
  then show ?case
    using prefix_grows [of q "wr_written s" "_ # mb_out (wr_box s)" msg]
    by (cases "wr_mode s")
       (auto simp: flush_from_def writer_moves peer_send_def box_has_room_def prefix_grows split: ws_close.splits)
qed (auto simp: flush_from_def writer_moves split: writer_mode.splits ws_close.splits)

interpretation flush: invariant_system "flush_from queued reason" "wstep c" "flush_from queued reason"
  for queued reason c
proof
  show "flush_from queued reason t" if "flush_from queued reason s" "wstep c s t" for s t
    by (rule flush_from_step [OF that(2,1)])
qed

text \<open>C20: When the hub asks a connection to close, every frame it had queued by then is written,
  in order, before the socket closes, unless a write fails; in particular a bye queued together
  with the close request is delivered.  The close frame carries at most 120 bytes of the
  reason, whatever the hub, the reader and the clock do in the meantime.\<close>

theorem close_delivers_queued_frames:
  assumes "reach_from (\<lambda>s. \<exists>cap. s = writer_start cap) (wstep c) s" "wr_mode s = Flushing reason"
    and "(wstep c)\<^sup>*\<^sup>* s t" "wr_mode t = Closed (CloseFrame st text)"
  shows "prefix (wr_accepted s) (wr_written t) \<and> prefix (wr_written t) (wr_accepted t)
    \<and> st = StatusNormalClosure \<and> text = take 120 reason"
proof -
  have "winv s" by (rule writer.inv_reachable [OF assms(1)])
  then have "flush_from (wr_accepted s) reason s" using assms(2) by (simp add: flush_from_def winv_def)
  then have "flush_from (wr_accepted s) reason t" by (rule flush.inv_star [OF assms(3)])
  moreover have "winv t" by (rule writer.inv_star [OF assms(3) \<open>winv s\<close>])
  ultimately show ?thesis using assms(4) by (simp add: flush_from_def winv_def truncateReason_spec)
qed

text \<open>The flush can always finish: one write per queued frame, then the close.\<close>

lemma flush_runs:
  assumes "wr_mode s = Flushing reason"
  shows "\<exists>t. (wstep c)\<^sup>*\<^sup>* s t
    \<and> wr_mode t = Closed (CloseFrame StatusNormalClosure (truncateReason reason))
    \<and> wr_written t = wr_written s @ mb_out (wr_box s)"
  using assms
proof (induction "mb_out (wr_box s)" arbitrary: s)
  case Nil
  from flush_done [of s reason c, OF Nil(2)] Nil(1) show ?case
    by (intro exI [of _ "s\<lparr>wr_mode :=
           Closed (CloseFrame StatusNormalClosure (truncateReason reason))\<rparr>"]) auto
next
  case (Cons m ms)
  let ?r = "take_out ms (FlushWriting reason m) s"
  let ?s = "wrote_frame m (Flushing reason) ?r"
  have 1: "wstep c s ?r" using Cons(2,3) by (intro flush_out) simp_all
  have 2: "wstep c ?r ?s" by (rule flush_ok) (simp add: take_out_def)
  obtain t where t: "(wstep c)\<^sup>*\<^sup>* ?s t"
    "wr_mode t = Closed (CloseFrame StatusNormalClosure (truncateReason reason))"
    "wr_written t = wr_written ?s @ mb_out (wr_box ?s)"
    using Cons(1) [of ?s] by (auto simp: writer_moves)
  have "(wstep c)\<^sup>*\<^sup>* s t" using 1 2 t(1) by (meson converse_rtranclp_into_rtranclp)
  then show ?case using t(2,3) Cons(2) by (intro exI [of _ t]) (simp add: writer_moves)
qed

text \<open>
  The lonely timeout on the writer's side: the bye is queued, then the close is requested.
\<close>

definition demo_writer :: writer where
  "demo_writer = (writer_start 2)\<lparr>wr_box := (empty_box 2)\<lparr>mb_out := [byeFrame], mb_once := True\<rparr>,
     wr_accepted := [byeFrame], wr_mode := Flushing ''no receiver''\<rparr>"

lemma demo_writer_reachable: "reach_from (\<lambda>s. \<exists>cap. s = writer_start cap) (wstep c) demo_writer"
proof -
  let ?s0 = "writer_start 2"
  let ?s1 = "receive_frame byeFrame ?s0"
  let ?s2 = "?s1\<lparr>wr_box := peer_close ''no receiver'' (wr_box ?s1)\<rparr>"
  have s1: "wstep c ?s0 ?s1" by (rule hub_sends)
  have s2: "wstep c ?s1 ?s2" by (rule hub_closes)
  have "reach_from (\<lambda>s. \<exists>cap. s = writer_start cap) (wstep c) ?s0" by (rule reach_init) blast
  then have "reach_from (\<lambda>s. \<exists>cap. s = writer_start cap) (wstep c) ?s1" using s1 by (rule reach_step)
  then have 2: "reach_from (\<lambda>s. \<exists>cap. s = writer_start cap) (wstep c) ?s2" using s2 by (rule reach_step)
  have m: "mb_closing (wr_box ?s2) = ''no receiver'' # []" "wr_mode ?s2 = Selecting"
    by (simp_all add: writer_start_def writer_moves empty_box_def peer_send_def box_has_room_def peer_close_def
        once_do_def requestClose_def)
  have eq: "take_closing [] (Flushing ''no receiver'') ?s2 = demo_writer"
    by (simp add: demo_writer_def writer_moves writer_start_def empty_box_def peer_send_def box_has_room_def
        peer_close_def once_do_def requestClose_def)
  have "wstep c ?s2 demo_writer" using sel_closing [OF m(2,1), of c] unfolding eq .
  with 2 show ?thesis by (rule reach_step)
qed

theorem close_delivers_queued_frames_witness:
  "\<exists>t. (wstep demo_config)\<^sup>*\<^sup>* demo_writer t \<and> prefix [byeFrame] (wr_written t)"
proof -
  have m: "wr_mode demo_writer = Flushing ''no receiver''" "wr_accepted demo_writer = [byeFrame]"
    by (simp_all add: demo_writer_def)
  obtain t where t: "(wstep demo_config)\<^sup>*\<^sup>* demo_writer t"
    "wr_mode t = Closed (CloseFrame StatusNormalClosure (truncateReason ''no receiver''))"
    using flush_runs [OF m(1)] by blast
  from close_delivers_queued_frames [OF demo_writer_reachable m(1) t] m(2) t(1) show ?thesis by auto
qed

end
