(* ===== verification/ConnLife.thy ===== *)
theory ConnLife
  imports ConnProps
begin

text \<open>
  The goroutines of one connection together: \<open>handleConn\<close> (\<open>signaling/conn.go\<close>) with
  the reader it runs, the writer it starts, and the \<open>AfterFunc\<close> that closes the socket when
  the hub is closed.  They share the connection context, the socket, the channel
  \<open>writerDone\<close>, and the peer's mailbox with the hub.  A step is labelled with who
  makes it; the steps of the connection's own goroutines are told apart from those of the
  client, the hub and the ticker.

  What the WebSocket library does is represented by when its calls return.  A \<open>Read\<close> returns
  a frame the client has sent, and an error once the connection is closed or its context is
  done; a \<open>Write\<close> returns when the client's side has taken the frame, and fails once the
  connection is closed or its context is done; \<open>Ping\<close> returns with the pong, and fails at any
  time after \<open>PingTimeout\<close>; \<open>Close\<close> and \<open>CloseNow\<close> return.  A deadline
  (\<open>joinTimeout\<close>, \<open>PingTimeout\<close>, \<open>closeGrace\<close>) may pass at any time.
\<close>

section \<open>State\<close>

text \<open>
  The places of \<open>handleConn\<close>, in program order; those after \<open>HLeave\<close> are the deferred
  \<open>stop\<close>, \<open>cancel\<close> and \<open>wg.Done\<close>.
\<close>

datatype handler_pc =
    HAdd | HHook | HAwait | HReject | HSpawn | HRead | HCancel | HWait | HClose | HLeave
  | HStop | HUncancel | HRelease | HGone

text \<open>
  The writer's goroutine around \<open>writeLoop\<close>: not started, in \<open>writeLoop\<close>, and its deferred
  calls \<open>cancel\<close> and \<open>close(writerDone)\<close>.
\<close>

datatype writer_pc = WAbsent | WLoop | WCancel | WSignal | WDone

datatype hook_state = HookUnset | HookArmed | HookFired | HookStopped

text \<open>
  \<open>lv_peer\<close> is the peer \<open>awaitJoin\<close> returned, \<open>lv_left\<close> counts the calls of
  \<open>leave\<close>, \<open>lv_closes\<close> lists the closes of the socket in the order they were made,
  \<open>lv_base\<close> says whether the hub's \<open>baseCtx\<close> is cancelled.  The connection context is
  \<open>wr_cancelled (lv_writer s)\<close>.
\<close>

record live =
  lv_handler :: handler_pc
  lv_wpc :: writer_pc
  lv_hook :: hook_state
  lv_peer :: "nat option"
  lv_left :: nat
  lv_writer :: writer
  lv_open :: bool
  lv_closes :: "ws_close list"
  lv_base :: bool

definition live_start :: "nat \<Rightarrow> bool \<Rightarrow> live" where
  "live_start cap base =
     \<lparr>lv_handler = HAdd, lv_wpc = WAbsent, lv_hook = HookUnset, lv_peer = None, lv_left = 0,
      lv_writer = writer_start cap, lv_open = True, lv_closes = [], lv_base = base\<rparr>"

datatype label =
    Client
  | HubSends
  | HubCloses
  | Joins nat
  | Shutdown
  | Tick
  | Handler
  | Leaves nat
  | Writer
  | Hook

fun own :: "label \<Rightarrow> bool" where
  "own Handler = True"
| "own (Leaves p) = True"
| "own Writer = True"
| "own Hook = True"
| "own _ = False"

definition close_socket :: "ws_close \<Rightarrow> live \<Rightarrow> live" where
  "close_socket x s = s\<lparr>lv_open := False, lv_closes := lv_closes s @ [x]\<rparr>"

definition cancel_conn :: "live \<Rightarrow> live" where
  "cancel_conn s = s\<lparr>lv_writer := (lv_writer s)\<lparr>wr_cancelled := True\<rparr>\<rparr>"

definition set_mode :: "writer_mode \<Rightarrow> live \<Rightarrow> live" where
  "set_mode m s = s\<lparr>lv_writer := (lv_writer s)\<lparr>wr_mode := m\<rparr>\<rparr>"

abbreviation conn_done :: "live \<Rightarrow> bool" where
  "conn_done s \<equiv> wr_cancelled (lv_writer s)"

abbreviation mode :: "live \<Rightarrow> writer_mode" where
  "mode s \<equiv> wr_mode (lv_writer s)"

abbreviation box :: "live \<Rightarrow> mailbox" where
  "box s \<equiv> wr_box (lv_writer s)"

section \<open>Steps\<close>

inductive lstep :: "config \<Rightarrow> live \<Rightarrow> label \<Rightarrow> live \<Rightarrow> bool" for c :: config where
  \<comment> \<open>handleConn up to the join\<close>
  adds: "lv_handler s = HAdd \<Longrightarrow> lstep c s Handler (s\<lparr>lv_handler := HHook\<rparr>)"
| hooks:
    "lv_handler s = HHook \<Longrightarrow> lstep c s Handler (s\<lparr>lv_handler := HAwait, lv_hook := HookArmed\<rparr>)"
| await_times_out: "lv_handler s = HAwait \<Longrightarrow> lstep c s Handler (s\<lparr>lv_handler := HReject\<rparr>)"
| refused:
    "\<lbrakk>lv_handler s = HAwait; lv_open s\<rbrakk> \<Longrightarrow> lstep c s Client (s\<lparr>lv_handler := HReject\<rparr>)"
| joins:
    "\<lbrakk>lv_handler s = HAwait; lv_open s\<rbrakk>
     \<Longrightarrow> lstep c s (Joins p) (s\<lparr>lv_handler := HSpawn, lv_peer := Some p\<rparr>)"
| rejects:
    "lv_handler s = HReject
     \<Longrightarrow> lstep c s Handler
           ((close_socket (CloseFrame StatusPolicyViolation ''join required'') s)\<lparr>lv_handler := HStop\<rparr>)"
  \<comment> \<open>the writer is started, the read loop runs and ends\<close>
| spawns:
    "lv_handler s = HSpawn \<Longrightarrow> lstep c s Handler (s\<lparr>lv_handler := HRead, lv_wpc := WLoop\<rparr>)"
| reads:
    "\<lbrakk>lv_handler s = HRead; lv_open s; \<not> conn_done s; frameType data \<noteq> (typeBye, True)\<rbrakk>
     \<Longrightarrow> lstep c s Client s"
| reads_bye:
    "\<lbrakk>lv_handler s = HRead; lv_open s; \<not> conn_done s; frameType data = (typeBye, True)\<rbrakk>
     \<Longrightarrow> lstep c s Client (s\<lparr>lv_handler := HCancel\<rparr>)"
| read_fails:
    "\<lbrakk>lv_handler s = HRead; \<not> lv_open s \<or> conn_done s\<rbrakk>
     \<Longrightarrow> lstep c s Handler (s\<lparr>lv_handler := HCancel\<rparr>)"
| cancels: "lv_handler s = HCancel \<Longrightarrow> lstep c s Handler ((cancel_conn s)\<lparr>lv_handler := HWait\<rparr>)"
| sees_writer:
    "\<lbrakk>lv_handler s = HWait; lv_wpc s = WDone\<rbrakk> \<Longrightarrow> lstep c s Handler (s\<lparr>lv_handler := HClose\<rparr>)"
| closes:
    "lv_handler s = HClose
     \<Longrightarrow> lstep c s Handler
           ((close_socket (CloseFrame StatusNormalClosure ''bye'') s)\<lparr>lv_handler := HLeave\<rparr>)"
  \<comment> \<open>its deferred calls\<close>
| leaves:
    "\<lbrakk>lv_handler s = HLeave; lv_peer s = Some p\<rbrakk>
     \<Longrightarrow> lstep c s (Leaves p) (s\<lparr>lv_handler := HStop, lv_left := Suc (lv_left s)\<rparr>)"
| stops:
    "lv_handler s = HStop
     \<Longrightarrow> lstep c s Handler (s\<lparr>lv_handler := HUncancel,
           lv_hook := (if lv_hook s = HookArmed then HookStopped else lv_hook s)\<rparr>)"
| uncancels:
    "lv_handler s = HUncancel \<Longrightarrow> lstep c s Handler ((cancel_conn s)\<lparr>lv_handler := HRelease\<rparr>)"
| releases: "lv_handler s = HRelease \<Longrightarrow> lstep c s Handler (s\<lparr>lv_handler := HGone\<rparr>)"
  \<comment> \<open>the writer's goroutine\<close>
| w_done:
    "\<lbrakk>lv_wpc s = WLoop; mode s = Selecting; conn_done s\<rbrakk> \<Longrightarrow> lstep c s Writer (set_mode Returned s)"
| w_takes:
    "\<lbrakk>lv_wpc s = WLoop; mode s = Selecting; mb_out (box s) = msg # ms\<rbrakk>
     \<Longrightarrow> lstep c s Writer (s\<lparr>lv_writer := take_out ms (Writing msg) (lv_writer s)\<rparr>)"
| w_taken:
    "\<lbrakk>lv_wpc s = WLoop; mode s = Writing msg; lv_open s\<rbrakk>
     \<Longrightarrow> lstep c s Client (s\<lparr>lv_writer := wrote_frame msg Selecting (lv_writer s)\<rparr>)"
| w_fails:
    "\<lbrakk>lv_wpc s = WLoop; mode s = Writing msg; \<not> lv_open s \<or> conn_done s\<rbrakk>
     \<Longrightarrow> lstep c s Writer (set_mode Returned s)"
| w_closing:
    "\<lbrakk>lv_wpc s = WLoop; mode s = Selecting; mb_closing (box s) = reason # rs\<rbrakk>
     \<Longrightarrow> lstep c s Writer (s\<lparr>lv_writer := take_closing rs (Flushing reason) (lv_writer s)\<rparr>)"
| w_tick:
    "\<lbrakk>lv_wpc s = WLoop; mode s = Selecting; cfg_PingInterval c > 0\<rbrakk>
     \<Longrightarrow> lstep c s Tick (set_mode Pinging s)"
| w_pong:
    "\<lbrakk>lv_wpc s = WLoop; mode s = Pinging; lv_open s\<rbrakk> \<Longrightarrow> lstep c s Client (set_mode Selecting s)"
| w_no_pong:
    "\<lbrakk>lv_wpc s = WLoop; mode s = Pinging\<rbrakk> \<Longrightarrow> lstep c s Writer (set_mode Returned s)"
| f_takes:
    "\<lbrakk>lv_wpc s = WLoop; mode s = Flushing reason; mb_out (box s) = msg # ms\<rbrakk>
     \<Longrightarrow> lstep c s Writer (s\<lparr>lv_writer := take_out ms (FlushWriting reason msg) (lv_writer s)\<rparr>)"
| f_taken:
    "\<lbrakk>lv_wpc s = WLoop; mode s = FlushWriting reason msg; lv_open s\<rbrakk>
     \<Longrightarrow> lstep c s Client (s\<lparr>lv_writer := wrote_frame msg (Flushing reason) (lv_writer s)\<rparr>)"
| f_fails:
    "\<lbrakk>lv_wpc s = WLoop; mode s = FlushWriting reason msg\<rbrakk>
     \<Longrightarrow> lstep c s Writer (set_mode (Closed CloseNow) s)"
| f_ends:
    "\<lbrakk>lv_wpc s = WLoop; mode s = Flushing reason; mb_out (box s) = []\<rbrakk>
     \<Longrightarrow> lstep c s Writer
           (set_mode (Closed (CloseFrame StatusNormalClosure (truncateReason reason))) s)"
| w_returns:
    "\<lbrakk>lv_wpc s = WLoop; mode s = Returned\<rbrakk> \<Longrightarrow> lstep c s Writer (s\<lparr>lv_wpc := WCancel\<rparr>)"
| w_closes:
    "\<lbrakk>lv_wpc s = WLoop; mode s = Closed x\<rbrakk>
     \<Longrightarrow> lstep c s Writer ((close_socket x s)\<lparr>lv_wpc := WCancel\<rparr>)"
| w_cancels: "lv_wpc s = WCancel \<Longrightarrow> lstep c s Writer ((cancel_conn s)\<lparr>lv_wpc := WSignal\<rparr>)"
| w_signals: "lv_wpc s = WSignal \<Longrightarrow> lstep c s Writer (s\<lparr>lv_wpc := WDone\<rparr>)"
  \<comment> \<open>the hook on the hub's context\<close>
| fires:
    "\<lbrakk>lv_base s; lv_hook s = HookArmed\<rbrakk>
     \<Longrightarrow> lstep c s Hook ((close_socket CloseNow s)\<lparr>lv_hook := HookFired\<rparr>)"
  \<comment> \<open>the hub, at any time once the peer exists; the network, at any time\<close>
| hub_sends':
    "lv_peer s \<noteq> None \<Longrightarrow> lstep c s HubSends (s\<lparr>lv_writer := receive_frame msg (lv_writer s)\<rparr>)"
| hub_closes':
    "lv_peer s \<noteq> None
     \<Longrightarrow> lstep c s HubCloses (s\<lparr>lv_writer := (lv_writer s)\<lparr>wr_box := peer_close reason (box s)\<rparr>\<rparr>)"
| shuts: "lstep c s Shutdown (s\<lparr>lv_base := True\<rparr>)"
| disconnects: "lstep c s Client (s\<lparr>lv_open := False\<rparr>)"

inductive_cases lstepE: "lstep c s l t"

lemmas live_ops = close_socket_def cancel_conn_def set_mode_def

section \<open>The connection refines its writer\<close>

text \<open>
  Every step of the connection is, for the writer of \<open>Conn\<close>, one of its steps or none: what
  holds of the writer under every environment holds of it inside its connection.
\<close>

lemma lstep_writer:
  "lstep c s l t \<Longrightarrow> lv_writer t = lv_writer s \<or> wstep c (lv_writer s) (lv_writer t)"
  by (induction rule: lstep.induct) (auto simp: live_ops intro: wstep.intros)

lemma lrun_writer: "lrun (lstep c) s ls t \<Longrightarrow> (wstep c)\<^sup>*\<^sup>* (lv_writer s) (lv_writer t)"
proof (induction rule: lrun.induct)
  case (lrun_snoc s ls t l u)
  then show ?case
    using lstep_writer [OF lrun_snoc.hyps(2)] rtranclp.rtrancl_into_rtrancl [of "wstep c"] by auto
qed simp

section \<open>The invariant\<close>

text \<open>What holds at each place of \<open>handleConn\<close>.\<close>

definition joined_here :: "live \<Rightarrow> bool" where
  "joined_here s \<longleftrightarrow> lv_peer s \<noteq> None \<and> lv_wpc s \<noteq> WAbsent \<and> lv_left s = 0"

definition not_joined :: "live \<Rightarrow> bool" where
  "not_joined s \<longleftrightarrow> lv_peer s = None \<and> lv_wpc s = WAbsent \<and> lv_left s = 0"

definition unwinding :: "live \<Rightarrow> bool" where
  "unwinding s \<longleftrightarrow> \<not> lv_open s
     \<and> (not_joined s \<or> lv_peer s \<noteq> None \<and> lv_wpc s = WDone \<and> lv_left s = 1)"

fun handler_inv :: "handler_pc \<Rightarrow> live \<Rightarrow> bool" where
  "handler_inv HSpawn s = (lv_peer s \<noteq> None \<and> lv_wpc s = WAbsent \<and> lv_left s = 0)"
| "handler_inv HRead s = joined_here s"
| "handler_inv HCancel s = joined_here s"
| "handler_inv HWait s = (joined_here s \<and> conn_done s)"
| "handler_inv HClose s = (joined_here s \<and> lv_wpc s = WDone)"
| "handler_inv HLeave s = (joined_here s \<and> lv_wpc s = WDone \<and> \<not> lv_open s)"
| "handler_inv HStop s = unwinding s"
| "handler_inv HUncancel s = (unwinding s \<and> lv_hook s \<noteq> HookArmed)"
| "handler_inv HRelease s = (unwinding s \<and> lv_hook s \<noteq> HookArmed \<and> conn_done s)"
| "handler_inv HGone s = (unwinding s \<and> lv_hook s \<noteq> HookArmed \<and> conn_done s)"
| "handler_inv _ s = not_joined s"

definition before_hook :: "handler_pc \<Rightarrow> bool" where
  "before_hook pc \<longleftrightarrow> pc \<in> {HAdd, HHook}"

definition after_close :: "handler_pc \<Rightarrow> bool" where
  "after_close pc \<longleftrightarrow> pc \<in> {HLeave, HStop, HUncancel, HRelease, HGone}"

definition hooked :: "live \<Rightarrow> bool" where
  "hooked s \<longleftrightarrow> (lv_hook s = HookUnset \<longleftrightarrow> before_hook (lv_handler s))
     \<and> (lv_hook s = HookFired \<longrightarrow> \<not> lv_open s)
     \<and> (lv_hook s = HookStopped \<longrightarrow> lv_handler s \<in> {HUncancel, HRelease, HGone})"

definition writer_inv :: "live \<Rightarrow> bool" where
  "writer_inv s \<longleftrightarrow>
     (case lv_wpc s of
        WAbsent \<Rightarrow> mode s = Selecting
      | WLoop \<Rightarrow> True
      | WCancel \<Rightarrow> mode s = Returned \<or> (\<exists>x. mode s = Closed x)
      | _ \<Rightarrow> conn_done s \<and> (mode s = Returned \<or> (\<exists>x. mode s = Closed x)))"

text \<open>The close frames: the writer's, then the handler's.\<close>

definition writer_closes :: "live \<Rightarrow> ws_close list" where
  "writer_closes s =
     (if lv_wpc s \<in> {WAbsent, WLoop} then []
      else (case mode s of Closed (CloseFrame st r) \<Rightarrow> [CloseFrame st r] | _ \<Rightarrow> []))"

definition handler_closes :: "live \<Rightarrow> ws_close list" where
  "handler_closes s =
     (if \<not> after_close (lv_handler s) then []
      else if lv_peer s = None then [CloseFrame StatusPolicyViolation ''join required'']
      else [CloseFrame StatusNormalClosure ''bye''])"

definition closes_inv :: "live \<Rightarrow> bool" where
  "closes_inv s \<longleftrightarrow>
     List.filter (\<lambda>x. x \<noteq> CloseNow) (lv_closes s) = writer_closes s @ handler_closes s"

definition live_inv :: "live \<Rightarrow> bool" where
  "live_inv s \<longleftrightarrow> handler_inv (lv_handler s) s \<and> hooked s \<and> writer_inv s \<and> closes_inv s"

lemmas live_preds = joined_here_def not_joined_def unwinding_def before_hook_def after_close_def

lemma live_start_inv: "live_inv (live_start cap base)"
  by (simp add: live_inv_def live_start_def live_preds hooked_def writer_inv_def closes_inv_def
      writer_closes_def handler_closes_def writer_start_def)

lemma handler_inv_step: "lstep c s l t \<Longrightarrow> live_inv s \<Longrightarrow> handler_inv (lv_handler t) t"
  by (induction rule: lstep.induct)
     (auto simp: live_inv_def live_ops live_preds writer_moves elim!: handler_inv.elims)

lemma hooked_step: "lstep c s l t \<Longrightarrow> hooked s \<Longrightarrow> hooked t"
  by (induction rule: lstep.induct) (auto simp: hooked_def live_ops before_hook_def)

lemma writer_inv_step: "lstep c s l t \<Longrightarrow> live_inv s \<Longrightarrow> writer_inv t"
  by (induction rule: lstep.induct)
     (auto simp: live_inv_def writer_inv_def live_ops writer_moves joined_here_def split: writer_pc.splits)

lemma closes_inv_step: "lstep c s l t \<Longrightarrow> live_inv s \<Longrightarrow> closes_inv t"
  by (induction rule: lstep.induct)
     (auto simp: live_inv_def closes_inv_def writer_closes_def handler_closes_def writer_inv_def
       live_ops writer_moves live_preds split: writer_mode.splits ws_close.splits writer_pc.splits)

lemma live_inv_step: "live_inv s \<Longrightarrow> lstep c s l t \<Longrightarrow> live_inv t"
  using handler_inv_step hooked_step writer_inv_step closes_inv_step unfolding live_inv_def by blast

section \<open>The work of a connection is bounded\<close>

fun handler_weight :: "handler_pc \<Rightarrow> nat" where
  "handler_weight HAdd = 17"
| "handler_weight HHook = 16"
| "handler_weight HAwait = 14"
| "handler_weight HReject = 4"
| "handler_weight HSpawn = 14"
| "handler_weight HRead = 8"
| "handler_weight HCancel = 7"
| "handler_weight HWait = 6"
| "handler_weight HClose = 5"
| "handler_weight HLeave = 4"
| "handler_weight HStop = 3"
| "handler_weight HUncancel = 2"
| "handler_weight HRelease = 1"
| "handler_weight HGone = 0"

fun mode_weight :: "writer_mode \<Rightarrow> nat" where
  "mode_weight Selecting = 5"
| "mode_weight (Writing m) = 5"
| "mode_weight Pinging = 5"
| "mode_weight (Flushing r) = 4"
| "mode_weight (FlushWriting r m) = 4"
| "mode_weight Returned = 3"
| "mode_weight (Closed x) = 3"

definition writer_weight :: "live \<Rightarrow> nat" where
  "writer_weight s =
     (case lv_wpc s of WAbsent \<Rightarrow> 0 | WLoop \<Rightarrow> mode_weight (mode s) | WCancel \<Rightarrow> 2 | WSignal \<Rightarrow> 1 | WDone \<Rightarrow> 0)"

definition live_weight :: "live \<Rightarrow> nat" where
  "live_weight s = handler_weight (lv_handler s) + writer_weight s + length (mb_out (box s))
     + of_bool (lv_hook s = HookArmed)"

fun label_fuel :: "label \<Rightarrow> nat" where
  "label_fuel HubSends = 1"
| "label_fuel _ = 0"

lemma peer_close_out [simp]: "mb_out (peer_close r b) = mb_out b"
  by (simp add: peer_close_def split_beta)

lemma peer_send_out_length: "length (mb_out (peer_send m b)) \<le> Suc (length (mb_out b))"
  by (simp add: peer_send_def)

lemma mode_weight_le [simp]: "mode_weight m \<le> 5" "mode_weight m < 6"
  by (cases m; simp)+

lemma receive_frame_sel [simp]:
  "wr_mode (receive_frame msg w) = wr_mode w" "wr_box (receive_frame msg w) = peer_send msg (wr_box w)"
  "wr_cancelled (receive_frame msg w) = wr_cancelled w"
  by (simp_all add: receive_frame_def)

lemmas weights = live_weight_def writer_weight_def live_ops writer_moves

lemma own_step_weight: "lstep c s l t \<Longrightarrow> live_inv s \<Longrightarrow> own l \<Longrightarrow> live_weight t < live_weight s"
  by (induction rule: lstep.induct)
     (auto simp: weights live_inv_def live_preds hooked_def split: writer_pc.splits)

lemma env_step_weight:
  "lstep c s l t \<Longrightarrow> live_inv s \<Longrightarrow> \<not> own l \<Longrightarrow> live_weight t \<le> live_weight s + label_fuel l"
proof (induction rule: lstep.induct)
  case (hub_sends' s msg)
  then show ?case using peer_send_out_length [of msg "box s"]
    by (cases "lv_wpc s") (simp_all add: live_weight_def writer_weight_def)
qed (auto simp: weights live_inv_def not_joined_def split: writer_pc.splits)

interpretation live: working_system "lstep c" live_inv own live_weight label_fuel for c
  by unfold_locales (auto intro: live_inv_step own_step_weight env_step_weight)

section \<open>When a connection can still move\<close>

definition serving :: "live \<Rightarrow> bool" where
  "serving s \<longleftrightarrow> lv_handler s = HRead \<and> lv_wpc s = WLoop \<and> lv_open s \<and> \<not> conn_done s \<and> \<not> lv_base s"

text \<open>Serving with nothing to do, and serving with a frame the client does not take.\<close>

definition idle :: "live \<Rightarrow> bool" where
  "idle s \<longleftrightarrow> serving s \<and> mode s = Selecting \<and> mb_out (box s) = [] \<and> mb_closing (box s) = []"

definition stalled :: "live \<Rightarrow> bool" where
  "stalled s \<longleftrightarrow> serving s \<and> (\<exists>msg. mode s = Writing msg)"

definition ended :: "live \<Rightarrow> bool" where
  "ended s \<longleftrightarrow> \<not> lv_open s \<or> conn_done s \<or> lv_base s \<or> lv_handler s \<notin> {HRead, HSpawn}"

definition own_step :: "config \<Rightarrow> live \<Rightarrow> bool" where
  "own_step c s \<longleftrightarrow> (\<exists>l t. own l \<and> lstep c s l t)"

lemma own_stepI: "lstep c s l t \<Longrightarrow> own l \<Longrightarrow> own_step c s"
  by (auto simp: own_step_def)

text \<open>A writer that is on its way out always moves, and so does one whose connection has ended.\<close>

lemma writer_tail_moves: "lv_wpc s \<in> {WCancel, WSignal} \<Longrightarrow> own_step c s"
  by (auto intro: own_stepI [OF w_cancels] own_stepI [OF w_signals])

lemma writer_loop_moves:
  assumes "lv_wpc s = WLoop"
    "\<not> (mode s = Selecting \<and> mb_out (box s) = [] \<and> mb_closing (box s) = [] \<and> \<not> conn_done s)"
    "\<not> ((\<exists>msg. mode s = Writing msg) \<and> lv_open s \<and> \<not> conn_done s)"
  shows "own_step c s"
proof (cases "mode s")
  case Selecting
  then consider "conn_done s" | m ms where "mb_out (box s) = m # ms" | r rs where "mb_closing (box s) = r # rs"
    using assms(2) by (meson neq_Nil_conv)
  then show ?thesis
    by cases (auto intro: own_stepI [OF w_done] own_stepI [OF w_takes] own_stepI [OF w_closing]
        simp: assms(1) Selecting)
next
  case (Writing m)
  then show ?thesis using assms by (auto intro: own_stepI [OF w_fails])
next
  case (Flushing r)
  then show ?thesis
    using assms(1)
    by (cases "mb_out (box s)") (auto intro: own_stepI [OF f_takes] own_stepI [OF f_ends])
qed (use assms(1) in \<open>auto intro: own_stepI [OF w_no_pong] own_stepI [OF f_fails]
    own_stepI [OF w_returns] own_stepI [OF w_closes]\<close>)

lemma waiting_moves:
  assumes "lv_wpc s \<noteq> WAbsent" "conn_done s" "lv_handler s = HWait"
  shows "own_step c s"
  using assms writer_tail_moves [of s c] writer_loop_moves [of s c]
  by (cases "lv_wpc s") (auto intro: own_stepI [OF sees_writer])

lemma hook_moves: "lv_base s \<Longrightarrow> lv_hook s = HookArmed \<Longrightarrow> own_step c s"
  by (rule own_stepI [OF fires]) simp_all

lemma reading_moves:
  assumes inv: "live_inv s" and pc: "lv_handler s = HRead" and live: "\<not> idle s" "\<not> stalled s"
  shows "own_step c s"
proof (cases "lv_open s \<and> \<not> conn_done s")
  case False
  then show ?thesis using pc by (auto intro: own_stepI [OF read_fails])
next
  case True
  have wpc: "lv_wpc s \<noteq> WAbsent" and hook: "lv_hook s = HookArmed"
    using inv pc True by (auto simp: live_inv_def joined_here_def hooked_def before_hook_def)
       (cases "lv_hook s"; simp)
  have "lv_wpc s \<noteq> WDone" using inv True by (auto simp: live_inv_def writer_inv_def)
  moreover have "own_step c s" if "lv_wpc s = WLoop"
    using that pc live True hook_moves [OF _ hook] writer_loop_moves [OF that, of c]
    by (auto simp: idle_def stalled_def serving_def)
  ultimately show ?thesis using wpc writer_tail_moves [of s c] by (cases "lv_wpc s") auto
qed

lemma at_rest_iff:
  assumes inv: "live_inv s"
  shows "\<not> own_step c s \<longleftrightarrow> lv_handler s = HGone \<or> idle s \<or> stalled s"
proof
  assume rest: "\<not> own_step c s"
  have "own_step c s" if "lv_handler s \<notin> {HRead, HGone}"
    using that inv waiting_moves [of s c]
    by (cases "lv_handler s")
       (auto simp: live_inv_def joined_here_def intro: own_stepI [OF adds] own_stepI [OF hooks]
         own_stepI [OF await_times_out] own_stepI [OF rejects] own_stepI [OF spawns] own_stepI [OF cancels]
         own_stepI [OF closes] own_stepI [OF leaves] own_stepI [OF stops] own_stepI [OF uncancels]
         own_stepI [OF releases])
  then show "lv_handler s = HGone \<or> idle s \<or> stalled s" using rest reading_moves [OF inv] by blast
next
  assume "lv_handler s = HGone \<or> idle s \<or> stalled s"
  then show "\<not> own_step c s"
    using inv unfolding own_step_def
    by (auto simp: idle_def stalled_def serving_def live_inv_def unwinding_def not_joined_def
        elim!: lstepE)
qed

section \<open>Runs\<close>

abbreviation conn_run :: "config \<Rightarrow> nat \<Rightarrow> bool \<Rightarrow> label list \<Rightarrow> live \<Rightarrow> bool" where
  "conn_run c cap base ls s \<equiv> lrun (lstep c) (live_start cap base) ls s"

lemma conn_run_inv: "conn_run c cap base ls s \<Longrightarrow> live_inv s"
  using live.run_inv live_start_inv by blast

lemma conn_run_winv: "conn_run c cap base ls s \<Longrightarrow> winv (lv_writer s)"
proof -
  assume "conn_run c cap base ls s"
  then have "(wstep c)\<^sup>*\<^sup>* (writer_start cap) (lv_writer s)"
    using lrun_writer by (fastforce simp: live_start_def)
  then show ?thesis using writer.inv_star [of c] writer.inv_init by blast
qed

lemma fuel_is_sends:
  "sum_list (map label_fuel (List.filter (\<lambda>l. \<not> own l) ls)) = length (List.filter (\<lambda>l. l = HubSends) ls)"
proof (induction ls)
  case (Cons l ls)
  then show ?case by (cases l) simp_all
qed simp

lemma ended_step: "lstep c s l t \<Longrightarrow> own l \<Longrightarrow> ended s \<Longrightarrow> ended t"
  by (induction rule: lstep.induct) (auto simp: ended_def live_ops writer_moves)

lemma ended_run: "lrun (lstep c) s ls t \<Longrightarrow> list_all own ls \<Longrightarrow> ended s \<Longrightarrow> ended t"
  by (induction rule: lrun.induct) (auto intro: ended_step)

lemma ended_rest: "live_inv s \<Longrightarrow> ended s \<Longrightarrow> \<not> own_step c s \<longleftrightarrow> lv_handler s = HGone"
  using at_rest_iff [of s c] by (auto simp: ended_def idle_def stalled_def serving_def)

lemma ended_reaches_gone:
  assumes inv: "live_inv s" and "ended s"
  shows "\<exists>ls t. lrun (lstep c) s ls t \<and> list_all own ls \<and> lv_handler t = HGone"
proof -
  obtain ls t where t: "lrun (lstep c) s ls t" "list_all own ls" "live_inv t" "\<not> own_step c t"
    using live.comes_to_rest [OF inv, of c] unfolding own_step_def by blast
  then have "lv_handler t = HGone" using ended_rest ended_run assms(2) by blast
  then show ?thesis using t by blast
qed

text \<open>The calls of \<open>leave\<close> are counted.\<close>

lemma leaves_step:
  "lstep c s l t \<Longrightarrow> lv_left t = (if \<exists>p. l = Leaves p then Suc (lv_left s) else lv_left s)"
  by (induction rule: lstep.induct) (auto simp: live_ops)

lemma leaves_counted:
  "lrun (lstep c) s ls t \<Longrightarrow> lv_left t = lv_left s + length (List.filter (\<lambda>l. \<exists>p. l = Leaves p) ls)"
  by (induction rule: lrun.induct) (auto dest: leaves_step)

section \<open>Properties\<close>

text \<open>C21: handleConn always returns once its connection has ended, whatever ended it: the socket (the client, the
  network, a close the hub asked for), the context (a failed write or ping, the client's bye), the join
  timeout, or the hub's shutdown.  However the hub, the client and the ticker interleave with them, the
  goroutines of a connection make at most 17 steps and one for each frame the hub sends; they
  are at rest only when the handler has returned, when the connection is being served with
  nothing to do, or when it is in a write the client does not take; and from a connection that has ended
  their own steps lead to the handler's return, and cannot stop before it.\<close>

theorem connection_always_unwinds:
  assumes run: "conn_run c cap base ls s"
  shows "length (List.filter own ls) \<le> 17 + length (List.filter (\<lambda>l. l = HubSends) ls)
    \<and> (\<not> own_step c s \<longleftrightarrow> lv_handler s = HGone \<or> idle s \<or> stalled s)
    \<and> (ended s \<longrightarrow>
         (\<exists>ls' t. lrun (lstep c) s ls' t \<and> list_all own ls' \<and> lv_handler t = HGone)
         \<and> (\<forall>ls' t. lrun (lstep c) s ls' t \<and> list_all own ls' \<and> \<not> own_step c t \<longrightarrow> lv_handler t = HGone))"
proof -
  note inv = conn_run_inv [OF run]
  have "live_weight (live_start cap base) = 17"
    by (simp add: live_weight_def writer_weight_def live_start_def writer_start_def empty_box_def)
  then have "length (List.filter own ls) \<le> 17 + length (List.filter (\<lambda>l. l = HubSends) ls)"
    using live.work_bound [OF run live_start_inv] by (simp add: fuel_is_sends)
  moreover have "lv_handler t = HGone"
    if "ended s" "lrun (lstep c) s ls' t" "list_all own ls'" "\<not> own_step c t" for ls' t
    using that ended_rest [OF live.run_inv [OF that(2) inv]] ended_run by blast
  ultimately show ?thesis using at_rest_iff [OF inv] ended_reaches_gone [OF inv] by blast
qed

text \<open>A connection that joins as peer 0, is served, and is then shut down by the hub.\<close>

definition demo_served :: live where
  "demo_served = (live_start 2 False)\<lparr>lv_handler := HRead, lv_hook := HookArmed, lv_peer := Some 0,
     lv_wpc := WLoop\<rparr>"

lemma demo_served_run: "conn_run c 2 False [Handler, Handler, Joins 0, Handler] demo_served"
proof -
  let ?s0 = "live_start 2 False"
  let ?s1 = "?s0\<lparr>lv_handler := HHook\<rparr>"
  let ?s2 = "?s1\<lparr>lv_handler := HAwait, lv_hook := HookArmed\<rparr>"
  let ?s3 = "?s2\<lparr>lv_handler := HSpawn, lv_peer := Some 0\<rparr>"
  let ?s4 = "?s3\<lparr>lv_handler := HRead, lv_wpc := WLoop\<rparr>"
  have 1: "lstep c ?s0 Handler ?s1" by (rule adds) (simp add: live_start_def)
  have 2: "lstep c ?s1 Handler ?s2" by (rule hooks) simp
  have 3: "lstep c ?s2 (Joins 0) ?s3" by (rule joins) (simp_all add: live_start_def)
  have 4: "lstep c ?s3 Handler ?s4" by (rule spawns) simp
  note go = lrun_Cons [where step = "lstep c"]
  have "lrun (lstep c) ?s3 [Handler] ?s4" by (rule go [OF 4 lrun_nil])
  then have "lrun (lstep c) ?s2 [Joins 0, Handler] ?s4" by (rule go [OF 3])
  then have "lrun (lstep c) ?s1 [Handler, Joins 0, Handler] ?s4" by (rule go [OF 2])
  then have "lrun (lstep c) ?s0 [Handler, Handler, Joins 0, Handler] ?s4" by (rule go [OF 1])
  then show ?thesis by (simp add: demo_served_def live_start_def)
qed

definition demo_shut :: live where
  "demo_shut = demo_served\<lparr>lv_base := True\<rparr>"

lemma demo_shut_run: "conn_run c 2 False [Handler, Handler, Joins 0, Handler, Shutdown] demo_shut"
  using lrun_snoc [OF demo_served_run shuts] by (simp add: demo_shut_def)

theorem connection_always_unwinds_witness:
  "\<exists>ls t. lrun (lstep demo_config) demo_shut ls t \<and> list_all own ls \<and> lv_handler t = HGone"
proof -
  have "ended demo_shut" by (simp add: demo_shut_def ended_def)
  then show ?thesis using connection_always_unwinds [OF demo_shut_run, of demo_config] by blast
qed

text \<open>C22: What a connection leaves behind.  leave is called at most once, for the peer that joined, only
  after the writer has returned and the socket is closed, and by the time the handler has
  returned it was called exactly if there was a peer; by then the connection context is
  cancelled, the hook on the hub's context is gone, and no goroutine of it is left.  The close
  frames are at most two: the one the hub asked for comes before the handler's bye, and a
  connection that never joined is closed with "join required".\<close>

theorem connection_cleans_up:
  assumes run: "conn_run c cap base ls s"
  shows "length (List.filter (\<lambda>l. \<exists>p. l = Leaves p) ls) = lv_left s
    \<and> lv_left s \<le> 1
    \<and> (lv_left s = 1 \<longrightarrow> lv_wpc s = WDone \<and> \<not> lv_open s)
    \<and> (lv_handler s = HGone \<longrightarrow>
         lv_left s = (if lv_peer s = None then 0 else 1)
         \<and> conn_done s \<and> lv_hook s \<in> {HookFired, HookStopped} \<and> \<not> lv_open s
         \<and> lv_wpc s = (if lv_peer s = None then WAbsent else WDone)
         \<and> List.filter (\<lambda>x. x \<noteq> CloseNow) (lv_closes s) =
             (if lv_peer s = None then [CloseFrame StatusPolicyViolation ''join required'']
              else writer_closes s @ [CloseFrame StatusNormalClosure ''bye'']))
    \<and> prefix (wr_written (lv_writer s)) (wr_accepted (lv_writer s))"
proof -
  have "length (List.filter (\<lambda>l. \<exists>p. l = Leaves p) ls) = lv_left s"
    using leaves_counted [OF run] by (simp add: live_start_def)
  moreover note inv = conn_run_inv [OF run]
  have "lv_left s \<le> 1" "lv_left s = 1 \<longrightarrow> lv_wpc s = WDone \<and> \<not> lv_open s"
    using inv by (auto simp: live_inv_def live_preds elim!: handler_inv.elims)
  moreover have "prefix (wr_written (lv_writer s)) (wr_accepted (lv_writer s))"
    using conn_run_winv [OF run] by (auto simp: winv_def split: writer_mode.splits)
  moreover have "lv_hook s \<in> {HookFired, HookStopped}" if "lv_handler s = HGone"
    using inv that by (cases "lv_hook s") (auto simp: live_inv_def hooked_def before_hook_def)
  ultimately show ?thesis
    using inv by (auto simp: live_inv_def closes_inv_def writer_closes_def handler_closes_def live_preds)
qed

lemma own_keeps_peer: "lstep c s l t \<Longrightarrow> own l \<Longrightarrow> lv_peer t = lv_peer s"
  by (induction rule: lstep.induct) (auto simp: live_ops)

lemma own_run_keeps_peer: "lrun (lstep c) s ls t \<Longrightarrow> list_all own ls \<Longrightarrow> lv_peer t = lv_peer s"
  by (induction rule: lrun.induct) (auto dest: own_keeps_peer)

theorem connection_cleans_up_witness:
  "\<exists>ls t. conn_run demo_config 2 False ls t \<and> lv_handler t = HGone \<and> lv_left t = 1 \<and> lv_wpc t = WDone
     \<and> length (List.filter (\<lambda>l. \<exists>p. l = Leaves p) ls) = 1"
proof -
  have "ended demo_shut" by (simp add: demo_shut_def ended_def)
  then obtain ls t where t: "lrun (lstep demo_config) demo_shut ls t" "list_all own ls" "lv_handler t = HGone"
    using ended_reaches_gone [OF conn_run_inv [OF demo_shut_run]] by blast
  have peer: "lv_peer t = Some 0"
    using own_run_keeps_peer [OF t(1,2)] by (simp add: demo_shut_def demo_served_def)
  note run = lrun_append [OF t(1) demo_shut_run]
  from connection_cleans_up [OF run] t(3) peer show ?thesis
    by (intro exI [of _ "[Handler, Handler, Joins 0, Handler, Shutdown] @ ls"] exI [of _ t])
       (use run in simp)
qed

section \<open>A client that stops reading\<close>

lemma stalled_step:
  "lstep c s l t \<Longrightarrow> stalled s \<Longrightarrow> l \<noteq> Client \<Longrightarrow> l \<noteq> Shutdown \<Longrightarrow> live_inv s \<Longrightarrow> stalled t"
proof (induction rule: lstep.induct)
  case (fires s)
  then show ?case by (simp add: stalled_def serving_def)
qed (auto simp: stalled_def serving_def live_ops)

lemma stalled_run:
  "lrun (lstep c) s ls t \<Longrightarrow> live_inv s \<Longrightarrow> stalled s \<Longrightarrow> Client \<notin> set ls \<Longrightarrow> Shutdown \<notin> set ls \<Longrightarrow> stalled t"
proof (induction rule: lrun.induct)
  case (lrun_snoc s ls t l u)
  have "live_inv t" using live.run_inv lrun_snoc.hyps(1) lrun_snoc.prems(1) by blast
  then show ?case
    using lrun_snoc.IH lrun_snoc.prems stalled_step [OF lrun_snoc.hyps(2)] by auto
qed

text \<open>C23: A close request does not end the connection of a client that has stopped reading: a write of
  writeLoop has no deadline (closeGrace bounds only the writes of flushAndClose), so the writer stays in it
  and takes neither the close request nor a tick.  For every reason the hub may close a peer with,
  there is a run after which the request is queued and, as long as the client does nothing and
  the hub is not shut down, no sequence of further steps ends the read loop or closes the
  socket.\<close>

theorem stalled_client_holds_its_connection:
  "\<exists>ls s. conn_run c 2 False ls s \<and> HubCloses \<in> set ls \<and> mb_closing (box s) = [reason]
     \<and> \<not> (\<exists>ls' t. lrun (lstep c) s ls' t \<and> Client \<notin> set ls' \<and> Shutdown \<notin> set ls'
           \<and> \<not> (lv_handler t = HRead \<and> lv_open t))"
proof -
  let ?w = "receive_frame joinedFrame (lv_writer demo_served)"
  let ?s1 = "demo_served\<lparr>lv_writer := ?w\<rparr>"
  let ?s2 = "?s1\<lparr>lv_writer := take_out [] (Writing joinedFrame) ?w\<rparr>"
  let ?s3 = "?s2\<lparr>lv_writer := (lv_writer ?s2)\<lparr>wr_box := peer_close reason (box ?s2)\<rparr>\<rparr>"
  have 1: "lstep c demo_served HubSends ?s1" by (rule hub_sends') (simp add: demo_served_def)
  have out: "mb_out (box ?s1) = joinedFrame # []"
    by (simp add: demo_served_def live_start_def writer_start_def empty_box_def peer_send_def box_has_room_def)
  have "lstep c ?s1 Writer (?s1\<lparr>lv_writer := take_out [] (Writing joinedFrame) (lv_writer ?s1)\<rparr>)"
    by (rule w_takes [OF _ _ out]) (simp_all add: demo_served_def live_start_def writer_start_def)
  then have 2: "lstep c ?s1 Writer ?s2" by simp
  have 3: "lstep c ?s2 HubCloses ?s3" by (rule hub_closes') (simp add: demo_served_def)
  note go = lrun_snoc [where step = "lstep c"]
  note run = go [OF go [OF go [OF demo_served_run 1] 2] 3]
  have st: "stalled ?s3"
    by (simp add: stalled_def serving_def demo_served_def live_start_def writer_start_def take_out_def)
  have cl: "mb_closing (box ?s3) = [reason]"
    by (simp add: demo_served_def live_start_def writer_start_def writer_moves empty_box_def
        peer_send_def box_has_room_def peer_close_def once_do_def requestClose_def)
  have "lv_handler t = HRead \<and> lv_open t"
    if "lrun (lstep c) ?s3 ls' t" "Client \<notin> set ls'" "Shutdown \<notin> set ls'" for ls' t
    using stalled_run [OF that(1) conn_run_inv [OF run] st that(2,3)] by (simp add: stalled_def serving_def)
  then show ?thesis using run cl by (intro exI conjI) (auto intro: run)
qed

end
