(* ===== verification/HubClose.thy ===== *)
theory HubClose
  imports ConnLife
begin

text \<open>
  \<open>Hub.Close\<close> (\<open>signaling/hub.go\<close>) against the connections it ends: any number of
  connections (\<open>ConnLife\<close>), each with its own goroutines, the registry they join and leave,
  lonely timers that fire, new connections that the HTTP server still accepts, and the
  goroutine that runs \<open>Close\<close>, which cancels the hub's context, waits for the wait group
  and clears the registry.  What the hub sends to a peer may reach its mailbox at any time,
  as in \<open>ConnLife\<close>, and a lonely timer may fire for any peer at any time.
\<close>

section \<open>State\<close>

datatype close_pc = CloseIdle | CloseWait | CloseClear | CloseDone

record closing =
  cl_hub :: hub
  cl_conns :: "live list"
  cl_base :: bool
  cl_main :: close_pc

definition closing_start :: "hub \<Rightarrow> closing" where
  "closing_start h = \<lparr>cl_hub = h, cl_conns = [], cl_base = False, cl_main = CloseIdle\<rparr>"

text \<open>A connection is counted by the wait group from its \<open>Add\<close> to its \<open>Done\<close>.\<close>

definition counted :: "live \<Rightarrow> bool" where
  "counted s \<longleftrightarrow> lv_handler s \<notin> {HAdd, HGone}"

datatype clabel = Accept | Of nat label | Expire | CallClose | Main

fun own' :: "clabel \<Rightarrow> bool" where
  "own' (Of i l) = own l"
| "own' Main = True"
| "own' _ = False"

text \<open>The steps of a connection that touch neither the registry nor the hub's context.\<close>

definition unshared :: "label \<Rightarrow> bool" where
  "unshared l \<longleftrightarrow> l \<noteq> Shutdown \<and> (\<forall>p. l \<noteq> Joins p \<and> l \<noteq> Leaves p)"

abbreviation send_buffer :: "hub \<Rightarrow> nat" where
  "send_buffer h \<equiv> nat (cfg_SendBuffer (hb_cfg h))"

inductive cstep :: "closing \<Rightarrow> clabel \<Rightarrow> closing \<Rightarrow> bool" where
  accepts:
    "cstep s Accept
       (s\<lparr>cl_conns := cl_conns s @ [live_start (send_buffer (cl_hub s)) (cl_base s)]\<rparr>)"
| conn_moves:
    "\<lbrakk>i < length (cl_conns s); lstep (hb_cfg (cl_hub s)) (cl_conns s ! i) l t; unshared l\<rbrakk>
     \<Longrightarrow> cstep s (Of i l) (s\<lparr>cl_conns := (cl_conns s)[i := t]\<rparr>)"
| conn_joins:
    "\<lbrakk>i < length (cl_conns s); lstep (hb_cfg (cl_hub s)) (cl_conns s ! i) (Joins p) t;
      join_check m = None; new_peer env m addr (cl_hub s) = (p, h0); join_locked env p m h0 = (h1, es, r)\<rbrakk>
     \<Longrightarrow> cstep s (Of i (Joins p)) (s\<lparr>cl_conns := (cl_conns s)[i := t], cl_hub := h1\<rparr>)"
| conn_leaves:
    "\<lbrakk>i < length (cl_conns s); lstep (hb_cfg (cl_hub s)) (cl_conns s ! i) (Leaves p) t;
      leave_locked p (cl_hub s) = (h1, es)\<rbrakk>
     \<Longrightarrow> cstep s (Of i (Leaves p)) (s\<lparr>cl_conns := (cl_conns s)[i := t], cl_hub := h1\<rparr>)"
| expires:
    "expire_locked p (cl_hub s) = (h1, es) \<Longrightarrow> cstep s Expire (s\<lparr>cl_hub := h1\<rparr>)"
  \<comment> \<open>Close: cancel, wg.Wait, the registry\<close>
| cancels_base:
    "cl_main s = CloseIdle
     \<Longrightarrow> cstep s CallClose (s\<lparr>cl_base := True, cl_main := CloseWait,
           cl_conns := map (\<lambda>v. v\<lparr>lv_base := True\<rparr>) (cl_conns s)\<rparr>)"
| waited:
    "\<lbrakk>cl_main s = CloseWait; list_all (\<lambda>v. \<not> counted v) (cl_conns s)\<rbrakk>
     \<Longrightarrow> cstep s Main (s\<lparr>cl_main := CloseClear\<rparr>)"
| clears:
    "cl_main s = CloseClear
     \<Longrightarrow> cstep s Main (s\<lparr>cl_main := CloseDone, cl_hub := hub_close (cl_hub s)\<rparr>)"

section \<open>Slots through the operations\<close>

lemma in_slot_sides:
  "in_slot h p \<longleftrightarrow> (\<exists>k. fst (pairing h k) = Some p \<or> snd (pairing h k) = Some p)"
  by (auto simp: in_slot_def pairing_def split: option.splits)

lemma join_slots_only:
  assumes "hub_inv base h" "new_peer env m addr h = (p, h0)" "in_slot (fst (join_locked env p m h0)) q"
  shows "q = p \<or> in_slot h q"
proof -
  have "pairing h0 = pairing h" using assms(2) by (auto simp: new_peer_def pairing_def fun_eq_iff)
  then show ?thesis
    using assms(3) join_refines [OF new_peer_inv(1) [OF assms(1,2)], of env p m]
    by (auto simp: in_slot_sides spec_join_def set_side_def split: if_splits)
qed

lemma leave_slots_only:
  "in_slot (fst (leave_locked p h)) q \<Longrightarrow> in_slot h q"
  by (auto simp: in_slot_sides leave_refines spec_leave_def set_side_def split: if_splits)

lemma expire_slots_only:
  "in_slot (fst (expire_locked p h)) q \<Longrightarrow> in_slot h q"
  by (auto simp: in_slot_sides expire_refines spec_expire_def split: if_splits)

lemma close_slots_none: "hub_inv base h \<Longrightarrow> \<not> in_slot h q \<Longrightarrow> \<not> in_slot (hub_close h) q"
  by (auto simp: in_slot_def hub_close_def once_do_def hub_close_body_def Let_def)

text \<open>A registry in whose slots there is nobody is empty.\<close>

lemma nobody_means_empty:
  assumes "hub_inv base h" "\<And>p. \<not> in_slot h p"
  shows "hb_sessions h = [] \<and> hb_active h = base"
proof -
  have "tbl_get (hb_sessions h) k = None" for k
    using hub_invD(2) [OF assms(1), of k] assms(2)
    by (cases "tbl_get (hb_sessions h) k") (fastforce simp: session_ok_def isEmpty_def in_slot_def)+
  then have "dom (tbl_get (hb_sessions h)) = {}" by auto
  then have "tbl_keys (hb_sessions h) = []" by (simp flip: tbl.set_keys)
  then show ?thesis using hub_invD(3) [OF assms(1)] by (simp add: tbl_keys_def)
qed

section \<open>The invariant\<close>

text \<open>
  Every slot holds the peer of a connection that has joined and not yet left; every
  connection sees the hub's context.
\<close>

definition slots_backed :: "hub \<Rightarrow> live list \<Rightarrow> bool" where
  "slots_backed h vs \<longleftrightarrow> (\<forall>q. in_slot h q \<longrightarrow> (\<exists>v\<in>set vs. lv_peer v = Some q \<and> lv_left v = 0))"

definition conns_ok :: "bool \<Rightarrow> live list \<Rightarrow> bool" where
  "conns_ok base vs \<longleftrightarrow> (\<forall>v\<in>set vs. live_inv v \<and> lv_base v = base)"

definition closing_inv :: "64 word \<Rightarrow> closing \<Rightarrow> bool" where
  "closing_inv base s \<longleftrightarrow>
     hub_inv base (cl_hub s) \<and> conns_ok (cl_base s) (cl_conns s)
     \<and> slots_backed (cl_hub s) (cl_conns s) \<and> (cl_base s \<longleftrightarrow> cl_main s \<noteq> CloseIdle)"

lemma conns_ok_nth: "conns_ok base vs \<Longrightarrow> i < length vs \<Longrightarrow> live_inv (vs ! i) \<and> lv_base (vs ! i) = base"
  by (simp add: conns_ok_def)

lemma conns_ok_update: "conns_ok base vs \<Longrightarrow> live_inv t \<Longrightarrow> lv_base t = base \<Longrightarrow> conns_ok base (vs[i := t])"
  using set_update_subset_insert [of vs i t] by (auto simp: conns_ok_def)

lemma slots_backed_update:
  assumes "slots_backed h vs" "i < length vs"
    and "\<And>q. in_slot h' q \<Longrightarrow> in_slot h q \<or> lv_peer t = Some q \<and> lv_left t = 0"
    and "\<And>q. in_slot h' q \<Longrightarrow> lv_peer (vs ! i) = Some q \<Longrightarrow> lv_left (vs ! i) = 0 \<Longrightarrow>
      lv_peer t = Some q \<and> lv_left t = 0"
  shows "slots_backed h' (vs[i := t])"
  unfolding slots_backed_def
proof (intro allI impI)
  fix q assume q: "in_slot h' q"
  have t: "t \<in> set (vs[i := t])" using assms(2) by (rule set_update_memI)
  show "\<exists>v\<in>set (vs[i := t]). lv_peer v = Some q \<and> lv_left v = 0"
  proof (cases "lv_peer t = Some q \<and> lv_left t = 0")
    case False
    then obtain j where j: "j < length vs" "lv_peer (vs ! j) = Some q" "lv_left (vs ! j) = 0"
      using assms(1,3) q unfolding slots_backed_def by (metis in_set_conv_nth)
    have "j \<noteq> i" using assms(4) [OF q] j False by auto
    then have "vs ! j \<in> set (vs[i := t])" using j(1) by (metis length_list_update nth_list_update_neq nth_mem)
    then show ?thesis using j by blast
  qed (use t in blast)
qed

lemma slots_backed_weaken:
  "slots_backed h vs \<Longrightarrow> (\<And>q. in_slot h' q \<Longrightarrow> in_slot h q) \<Longrightarrow> slots_backed h' vs"
  by (auto simp: slots_backed_def)

text \<open>What a step of a connection does to the fields the registry's invariant reads.\<close>

lemma unshared_fields:
  "lstep c s l t \<Longrightarrow> unshared l \<Longrightarrow> lv_peer t = lv_peer s \<and> lv_left t = lv_left s \<and> lv_base t = lv_base s"
  by (induction rule: lstep.induct) (auto simp: live_ops unshared_def)

lemma joining_fields:
  "lstep c s (Joins p) t \<Longrightarrow> live_inv s \<Longrightarrow>
   lv_peer s = None \<and> lv_peer t = Some p \<and> lv_left t = 0 \<and> lv_base t = lv_base s"
  by (erule lstep.cases) (auto simp: live_inv_def not_joined_def)

lemma leaving_fields:
  "lstep c s (Leaves p) t \<Longrightarrow> lv_peer s = Some p \<and> lv_peer t = Some p \<and> lv_base t = lv_base s"
  by (erule lstep.cases) auto

lemma live_inv_base: "live_inv v \<Longrightarrow> live_inv (v\<lparr>lv_base := True\<rparr>)"
  by (rule live_inv_step [OF _ shuts])

lemma closing_inv_conn:
  assumes inv: "closing_inv base s" and i: "i < length (cl_conns s)"
    and step: "lstep c (cl_conns s ! i) l t" and base: "lv_base t = lv_base (cl_conns s ! i)"
    and h: "hub_inv base h"
    and slots: "\<And>q. in_slot h q \<Longrightarrow> in_slot (cl_hub s) q \<or> lv_peer t = Some q \<and> lv_left t = 0"
      "\<And>q. in_slot h q \<Longrightarrow> lv_peer (cl_conns s ! i) = Some q \<Longrightarrow> lv_left (cl_conns s ! i) = 0 \<Longrightarrow>
        lv_peer t = Some q \<and> lv_left t = 0"
  shows "closing_inv base (s\<lparr>cl_conns := (cl_conns s)[i := t], cl_hub := h\<rparr>)"
proof -
  have "live_inv (cl_conns s ! i)" "lv_base (cl_conns s ! i) = cl_base s"
    using inv conns_ok_nth i by (auto simp: closing_inv_def)
  then have "conns_ok (cl_base s) ((cl_conns s)[i := t])"
    using inv base live_inv_step [OF _ step] by (intro conns_ok_update) (auto simp: closing_inv_def)
  moreover have "slots_backed h ((cl_conns s)[i := t])"
    using inv i slots by (intro slots_backed_update) (auto simp: closing_inv_def)
  ultimately show ?thesis using inv h by (simp add: closing_inv_def)
qed

lemma closing_inv_joins:
  assumes inv: "closing_inv base s" and i: "i < length (cl_conns s)"
    and step: "lstep c (cl_conns s ! i) (Joins p) t"
    and m: "join_check m = None" "new_peer env m addr (cl_hub s) = (p, h0)" "join_locked env p m h0 = (h1, es, r)"
  shows "closing_inv base (s\<lparr>cl_conns := (cl_conns s)[i := t], cl_hub := h1\<rparr>)"
proof -
  have h: "hub_inv base (cl_hub s)" and v: "live_inv (cl_conns s ! i)"
    using inv conns_ok_nth i by (auto simp: closing_inv_def)
  note f = joining_fields [OF step v]
  have h1: "h1 = fst (join_locked env p m h0)" using m(3) by simp
  have "hub_inv base h1"
    unfolding h1 using m(1) new_peer_inv [OF h m(2)] by (intro join_locked_inv) (auto simp: join_check_None)
  then show ?thesis
    using f join_slots_only [OF h m(2)] unfolding h1 by (intro closing_inv_conn [OF inv i step]) auto
qed

lemma closing_inv_step: "cstep s l t \<Longrightarrow> closing_inv base s \<Longrightarrow> closing_inv base t"
proof (induction rule: cstep.induct)
  case (accepts s)
  then show ?case
    using live_start_inv [of "send_buffer (cl_hub s)" "cl_base s"]
    by (auto simp: closing_inv_def conns_ok_def slots_backed_def) (auto simp: live_start_def)
next
  case (conn_moves i s l t)
  then show ?case
    using unshared_fields [OF conn_moves.hyps(2,3)]
      closing_inv_conn [OF conn_moves.prems conn_moves.hyps(1,2), of "cl_hub s"]
    by (simp add: closing_inv_def)
next
  case (conn_joins i s p t m env addr h0 h1 es r)
  then show ?case by (intro closing_inv_joins)
next
  case (conn_leaves i s p t h1 es)
  have h: "hub_inv base (cl_hub s)" using conn_leaves.prems by (simp add: closing_inv_def)
  have h1: "h1 = fst (leave_locked p (cl_hub s))" using conn_leaves.hyps(3) by simp
  show ?case
    using leaving_fields [OF conn_leaves.hyps(2)] leave_locked_inv [OF h, of p] leave_slots_only
      leave_gone [OF h, of p] unfolding h1
    by (intro closing_inv_conn [OF conn_leaves.prems conn_leaves.hyps(1,2)]) auto
next
  case (expires p s h1 es)
  have h1: "h1 = fst (expire_locked p (cl_hub s))" using expires.hyps by simp
  have "slots_backed h1 (cl_conns s)"
    using expires.prems expire_slots_only unfolding h1 closing_inv_def by (blast intro: slots_backed_weaken)
  then show ?case using expires.prems expire_locked_inv [of base "cl_hub s" p] by (auto simp: closing_inv_def h1)
next
  case (cancels_base s)
  have "slots_backed (cl_hub s) (map (\<lambda>v. v\<lparr>lv_base := True\<rparr>) (cl_conns s))"
    using cancels_base.prems by (fastforce simp: closing_inv_def slots_backed_def)
  then show ?case
    using cancels_base.prems by (auto simp: closing_inv_def conns_ok_def live_inv_base)
next
  case (waited s)
  then show ?case by (auto simp: closing_inv_def)
next
  case (clears s)
  have "slots_backed (hub_close (cl_hub s)) (cl_conns s)"
    using clears.prems close_slots_none by (fastforce simp: closing_inv_def slots_backed_def)
  then show ?case using clears hub_close_inv by (auto simp: closing_inv_def)
qed

text \<open>A connection that is not counted backs no slot.\<close>

lemma uncounted_backs_nothing: "live_inv v \<Longrightarrow> \<not> counted v \<Longrightarrow> lv_peer v = Some q \<Longrightarrow> lv_left v \<noteq> 0"
  by (auto simp: live_inv_def counted_def live_preds)

lemma waited_registry:
  assumes inv: "closing_inv base s" and all: "list_all (\<lambda>v. \<not> counted v) (cl_conns s)"
  shows "hb_sessions (cl_hub s) = [] \<and> hb_active (cl_hub s) = base"
proof (rule nobody_means_empty)
  show "hub_inv base (cl_hub s)" using inv by (simp add: closing_inv_def)
  show "\<not> in_slot (cl_hub s) p" for p
  proof
    assume "in_slot (cl_hub s) p"
    then obtain v where v: "v \<in> set (cl_conns s)" "lv_peer v = Some p" "lv_left v = 0"
      using inv unfolding closing_inv_def slots_backed_def by blast
    have "live_inv v" using inv v(1) by (auto simp: closing_inv_def conns_ok_def)
    then show False using uncounted_backs_nothing [OF _ _ v(2)] v(1,3) all by (auto simp: list_all_iff)
  qed
qed

section \<open>Close completes\<close>

fun close_weight :: "close_pc \<Rightarrow> nat" where
  "close_weight CloseIdle = 3"
| "close_weight CloseWait = 2"
| "close_weight CloseClear = 1"
| "close_weight CloseDone = 0"

definition closing_weight :: "closing \<Rightarrow> nat" where
  "closing_weight s = sum_list (map live_weight (cl_conns s)) + close_weight (cl_main s)"

fun clabel_fuel :: "clabel \<Rightarrow> nat" where
  "clabel_fuel Accept = 17"
| "clabel_fuel (Of i l) = label_fuel l"
| "clabel_fuel _ = 0"

lemma start_weight: "live_weight (live_start cap base) = 17"
  by (simp add: live_weight_def writer_weight_def live_start_def writer_start_def empty_box_def)

lemma live_weight_base [simp]: "live_weight (v\<lparr>lv_base := b\<rparr>) = live_weight v"
  by (cases "lv_wpc v") (simp_all add: live_weight_def writer_weight_def)

lemma weight_update:
  "i < length vs \<Longrightarrow>
   sum_list (map live_weight (vs[i := t])) + live_weight (vs ! i) = sum_list (map live_weight vs) + live_weight t"
proof (induction vs arbitrary: i)
  case (Cons v vs)
  then show ?case by (cases i) auto
qed simp

text \<open>A step of one connection, as the sum sees it.\<close>

lemma conn_weight:
  assumes "closing_inv base s" "i < length (cl_conns s)" "lstep c (cl_conns s ! i) l t"
  shows "own l \<Longrightarrow> closing_weight (s\<lparr>cl_conns := (cl_conns s)[i := t], cl_hub := h\<rparr>) < closing_weight s"
    and "\<not> own l \<Longrightarrow>
      closing_weight (s\<lparr>cl_conns := (cl_conns s)[i := t], cl_hub := h\<rparr>) \<le> closing_weight s + label_fuel l"
proof -
  have v: "live_inv (cl_conns s ! i)" using assms(1,2) conns_ok_nth by (auto simp: closing_inv_def)
  note u = weight_update [OF assms(2), of t]
  show "own l \<Longrightarrow> closing_weight (s\<lparr>cl_conns := (cl_conns s)[i := t], cl_hub := h\<rparr>) < closing_weight s"
    using u own_step_weight [OF assms(3) v] by (simp add: closing_weight_def)
  show "\<not> own l \<Longrightarrow>
      closing_weight (s\<lparr>cl_conns := (cl_conns s)[i := t], cl_hub := h\<rparr>) \<le> closing_weight s + label_fuel l"
    using u env_step_weight [OF assms(3) v] by (simp add: closing_weight_def)
qed

lemma own_closing_weight:
  "cstep s l t \<Longrightarrow> closing_inv base s \<Longrightarrow> own' l \<Longrightarrow> closing_weight t < closing_weight s"
proof (induction rule: cstep.induct)
  case (conn_moves i s l t)
  then show ?case using conn_weight(1) [of base s i _ l t "cl_hub s"] by simp
next
  case (conn_leaves i s p t h1 es)
  then show ?case using conn_weight(1) [of base s i _ "Leaves p" t h1] by simp
qed (auto simp: closing_weight_def)

lemma env_closing_weight:
  "cstep s l t \<Longrightarrow> closing_inv base s \<Longrightarrow> \<not> own' l \<Longrightarrow> closing_weight t \<le> closing_weight s + clabel_fuel l"
proof (induction rule: cstep.induct)
  case (conn_moves i s l t)
  then show ?case using conn_weight(2) [of base s i _ l t "cl_hub s"] by simp
next
  case (conn_joins i s p t m env addr h0 h1 es r)
  then show ?case using conn_weight(2) [of base s i _ "Joins p" t h1] by simp
qed (auto simp: closing_weight_def start_weight comp_def)

interpretation closing: working_system cstep "closing_inv base" own' closing_weight clabel_fuel for base
  by unfold_locales (auto intro: closing_inv_step own_closing_weight env_closing_weight)

text \<open>Whatever a connection can do on its own it can do here; nobody else is in its way.\<close>

lemma conn_own_step:
  assumes "i < length (cl_conns s)" "own_step (hb_cfg (cl_hub s)) (cl_conns s ! i)"
  shows "\<exists>l t. own' l \<and> cstep s l t"
proof -
  obtain l t where l: "own l" "lstep (hb_cfg (cl_hub s)) (cl_conns s ! i) l t"
    using assms(2) by (auto simp: own_step_def)
  show ?thesis
  proof (cases "unshared l")
    case True
    then show ?thesis using conn_moves [OF assms(1) l(2)] l(1) by (intro exI [of _ "Of i l"]) auto
  next
    case False
    then obtain p where "l = Leaves p" using l(1) by (auto simp: unshared_def)
    then show ?thesis
      using conn_leaves [OF assms(1), of p t] l(2) by (metis own'.simps(1) own.simps(2) surj_pair)
  qed
qed

lemma closing_rest:
  assumes inv: "closing_inv base s" and main: "cl_main s \<noteq> CloseIdle"
    and rest: "\<not> (\<exists>l t. own' l \<and> cstep s l t)"
  shows "cl_main s = CloseDone"
proof (rule ccontr)
  assume "cl_main s \<noteq> CloseDone"
  then have wait: "cl_main s = CloseWait" using main rest clears [of s] by (cases "cl_main s") auto
  have "\<not> counted v" if "v \<in> set (cl_conns s)" for v
  proof -
    obtain i where i: "i < length (cl_conns s)" "v = cl_conns s ! i" using \<open>v \<in> _\<close> by (metis in_set_conv_nth)
    have "live_inv v" "lv_base v" using inv main that by (auto simp: closing_inv_def conns_ok_def)
    moreover have "\<not> own_step (hb_cfg (cl_hub s)) v" using conn_own_step rest i by blast
    ultimately show ?thesis
      using ended_rest [of v] by (auto simp: ended_def counted_def)
  qed
  then show False using waited [OF wait] rest by (auto simp: list_all_iff)
qed

lemma closing_own_main:
  "cstep s l t \<Longrightarrow> own' l \<Longrightarrow> cl_main s \<noteq> CloseIdle \<Longrightarrow> cl_main t \<noteq> CloseIdle"
  by (induction rule: cstep.induct) auto

lemma closing_run_main:
  "lrun cstep s ls t \<Longrightarrow> list_all own' ls \<Longrightarrow> cl_main s \<noteq> CloseIdle \<Longrightarrow> cl_main t \<noteq> CloseIdle"
  by (induction rule: lrun.induct) (auto dest: closing_own_main)

section \<open>Properties\<close>

text \<open>A hub that \<open>New\<close> has just returned, its gauge standing at \<open>base\<close>.\<close>

abbreviation closing_run :: "64 word \<Rightarrow> config \<Rightarrow> hub \<Rightarrow> clabel list \<Rightarrow> closing \<Rightarrow> bool" where
  "closing_run base c h ls s \<equiv> hub_new (Some c) base = Inr h \<and> lrun cstep (closing_start h) ls s"

lemma closing_run_inv: "closing_run base c h ls s \<Longrightarrow> closing_inv base s"
proof -
  assume r: "closing_run base c h ls s"
  then have "hub_inv base h" by (blast intro: hub_new_inv)
  moreover have "hb_sessions h = []" using r by (auto simp: hub_new_def Let_def split: if_splits)
  ultimately have "closing_inv base (closing_start h)"
    by (simp add: closing_inv_def closing_start_def conns_ok_def slots_backed_def in_slot_def)
  then show ?thesis using r closing.run_inv by blast
qed

text \<open>C24: Closing the hub always completes, and finds nothing left to clear.  At any moment of any run,
  with any number of connections in any state (stalled ones included) and lonely timers
  firing: when the wait group's wait returns, every session has already been dropped by its
  own connections and the gauge is back at its base value; once Close was called, the
  goroutines have at most the remaining weight in steps to make (17 for a fresh connection, one for a
  queued frame), they lead to Close's return, and they cannot stop before it.\<close>

theorem hub_close_completes:
  assumes run: "closing_run base c h ls s"
  shows "(list_all (\<lambda>v. \<not> counted v) (cl_conns s) \<longrightarrow>
            hb_sessions (cl_hub s) = [] \<and> hb_active (cl_hub s) = base)
    \<and> (cl_main s \<noteq> CloseIdle \<longrightarrow>
         (\<exists>ls' t. lrun cstep s ls' t \<and> list_all own' ls' \<and> cl_main t = CloseDone)
         \<and> (\<forall>ls' t. lrun cstep s ls' t \<and> list_all own' ls' \<longrightarrow>
              length ls' \<le> closing_weight s
              \<and> ((\<exists>l u. own' l \<and> cstep t l u) \<or> cl_main t = CloseDone)))"
proof -
  note inv = closing_run_inv [OF run]
  have fin: "cl_main t = CloseDone"
    if "cl_main s \<noteq> CloseIdle" "lrun cstep s ls' t" "list_all own' ls'" "\<not> (\<exists>l u. own' l \<and> cstep t l u)" for ls' t
    using closing_rest [OF closing.run_inv [OF that(2) inv] closing_run_main [OF that(2,3,1)] that(4)] .
  have len: "length ls' \<le> closing_weight s" if "lrun cstep s ls' t" "list_all own' ls'" for ls' t
  proof -
    have "List.filter own' ls' = ls'" "List.filter (\<lambda>l. \<not> own' l) ls' = []"
      using that(2) by (auto simp: list_all_iff filter_empty_conv intro: filter_True)
    then show ?thesis using closing.work_bound [OF that(1) inv] by simp
  qed
  obtain ls' t where "lrun cstep s ls' t" "list_all own' ls'" "\<not> (\<exists>l u. own' l \<and> cstep t l u)"
    using closing.comes_to_rest [OF inv] by blast
  then show ?thesis using fin len waited_registry [OF inv] by blast
qed

text \<open>One device connection that joins the demo hub, after whatever went before.\<close>

definition demo_joined_hub :: "hub \<Rightarrow> hub" where
  "demo_joined_hub h =
     fst (join_locked demo_env (hb_npeers h) (demo_msg roleDevice)
       (snd (new_peer demo_env (demo_msg roleDevice) ''a:1'' h)))"

definition joined_live :: "nat \<Rightarrow> bool \<Rightarrow> nat \<Rightarrow> live" where
  "joined_live cap base p = (live_start cap base)\<lparr>lv_handler := HSpawn, lv_hook := HookArmed, lv_peer := Some p\<rparr>"

lemma one_connection_joins:
  assumes "cl_conns s = [live_start cap b]"
  shows "lrun cstep s [Of 0 Handler, Of 0 Handler, Of 0 (Joins (hb_npeers (cl_hub s)))]
    (s\<lparr>cl_conns := [joined_live cap b (hb_npeers (cl_hub s))], cl_hub := demo_joined_hub (cl_hub s)\<rparr>)"
proof -
  let ?h = "cl_hub s" and ?p = "hb_npeers (cl_hub s)"
  let ?v0 = "live_start cap b"
  let ?v1 = "?v0\<lparr>lv_handler := HHook\<rparr>"
  let ?v2 = "?v1\<lparr>lv_handler := HAwait, lv_hook := HookArmed\<rparr>"
  let ?v3 = "?v2\<lparr>lv_handler := HSpawn, lv_peer := Some ?p\<rparr>"
  let ?s1 = "s\<lparr>cl_conns := [?v1]\<rparr>" and ?s2 = "s\<lparr>cl_conns := [?v2]\<rparr>"
  have v0: "lstep c ?v0 Handler ?v1" for c by (rule adds) (simp add: live_start_def)
  have v1: "lstep c ?v1 Handler ?v2" for c by (rule hooks) simp
  have v2: "lstep c ?v2 (Joins ?p) ?v3" for c by (rule joins) (simp_all add: live_start_def)
  have 1: "cstep s (Of 0 Handler) ?s1"
    using conn_moves [of 0 s Handler ?v1] v0 assms by (simp add: unshared_def)
  have 2: "cstep ?s1 (Of 0 Handler) ?s2"
    using conn_moves [of 0 ?s1 Handler ?v2] v1 by (simp add: unshared_def)
  obtain h0 where np: "new_peer demo_env (demo_msg roleDevice) ''a:1'' ?h = (?p, h0)"
    by (simp add: new_peer_def)
  obtain h1 es r where jl: "join_locked demo_env ?p (demo_msg roleDevice) h0 = (h1, es, r)"
    by (metis prod_cases3)
  have 3: "cstep ?s2 (Of 0 (Joins ?p)) (?s2\<lparr>cl_conns := [?v3], cl_hub := h1\<rparr>)"
    using conn_joins [of 0 ?s2 ?p ?v3, OF _ _ demo_check(1)] v2 np jl by simp
  have "h1 = demo_joined_hub ?h" by (simp add: demo_joined_hub_def np jl)
  moreover have "?v3 = joined_live cap b ?p" by (simp add: joined_live_def live_start_def)
  ultimately show ?thesis
    using lrun_Cons [where step = cstep, OF 1 lrun_Cons [where step = cstep, OF 2 lrun_one [where step = cstep, OF 3]]]
    by simp
qed

lemma demo_joined_session: "hub_inv base h \<Longrightarrow> hb_sessions (demo_joined_hub h) \<noteq> []"
proof -
  assume inv: "hub_inv base h"
  obtain p h0 where np: "new_peer demo_env (demo_msg roleDevice) ''a:1'' h = (p, h0)" by force
  then have p: "p = hb_npeers h" by (simp add: new_peer_def)
  have "pairing (demo_joined_hub h) (p_sessionID (hb_peers h0 p)) \<noteq> (None, None)"
    using join_refines [OF new_peer_inv(1) [OF inv np], of demo_env p "demo_msg roleDevice"]
    by (simp add: demo_joined_hub_def np spec_join_def set_side_def flip: p)
  then show ?thesis by (auto simp: pairing_def)
qed

text \<open>The run: a connection is accepted and joins, and the hub is closed.\<close>

definition demo_closing :: closing where
  "demo_closing =
     \<lparr>cl_hub = demo_joined_hub demo_hub, cl_conns = [joined_live 2 True 0], cl_base = True, cl_main = CloseWait\<rparr>"

lemma demo_closing_run:
  "closing_run 0 demo_config demo_hub
     [Accept, Of 0 Handler, Of 0 Handler, Of 0 (Joins 0), CallClose] demo_closing"
proof -
  let ?s1 = "(closing_start demo_hub)\<lparr>cl_conns := [live_start 2 False]\<rparr>"
  have n: "hb_npeers demo_hub = 0" by (simp add: demo_hub_def)
  have 1: "cstep (closing_start demo_hub) Accept ?s1"
    using accepts [of "closing_start demo_hub"]
    by (simp add: closing_start_def demo_hub_def demo_config_def)
  have "lrun cstep ?s1 [Of 0 Handler, Of 0 Handler, Of 0 (Joins 0)]
     (?s1\<lparr>cl_conns := [joined_live 2 False 0], cl_hub := demo_joined_hub demo_hub\<rparr>)"
    using one_connection_joins [of ?s1 2 False] by (simp add: closing_start_def n)
  from lrun_snoc [where step = cstep, OF lrun_Cons [where step = cstep, OF 1 this] cancels_base]
  show ?thesis
    by (simp add: demo_closing_def demo_hub_new closing_start_def joined_live_def live_start_def)
qed

theorem hub_close_completes_witness:
  "\<exists>ls t. lrun cstep demo_closing ls t \<and> list_all own' ls \<and> cl_main t = CloseDone"
  using hub_close_completes [OF demo_closing_run] by (simp add: demo_closing_def)

text \<open>Close waits for the connections its wait group has counted, and for no other: the HTTP server
  still accepts connections (it is shut down after the hub), and one whose handler gets to
  wg.Add after the wait joins a hub that is closed.  There is a run at whose end Close has
  returned and a connection is counted and in a slot of the registry.\<close>

theorem late_connection_joins_a_closed_hub:
  "\<exists>ls s. closing_run 0 demo_config demo_hub ls s \<and> cl_main s = CloseDone \<and> hb_closed (cl_hub s)
     \<and> list_ex counted (cl_conns s) \<and> hb_sessions (cl_hub s) \<noteq> []"
proof -
  let ?s1 = "(closing_start demo_hub)\<lparr>cl_base := True, cl_main := CloseWait\<rparr>"
  let ?s2 = "?s1\<lparr>cl_main := CloseClear\<rparr>"
  let ?s3 = "?s2\<lparr>cl_main := CloseDone, cl_hub := hub_close demo_hub\<rparr>"
  let ?s4 = "?s3\<lparr>cl_conns := [live_start 2 True]\<rparr>"
  have 1: "cstep (closing_start demo_hub) CallClose ?s1"
    using cancels_base [of "closing_start demo_hub"] by (simp add: closing_start_def)
  have 2: "cstep ?s1 Main ?s2" by (rule waited) (simp_all add: closing_start_def)
  have 3: "cstep ?s2 Main ?s3" using clears [of ?s2] by (simp add: closing_start_def)
  have cap: "send_buffer (hub_close demo_hub) = 2"
    by (simp add: hub_close_def once_do_def hub_close_body_def Let_def demo_hub_def demo_config_def)
  have 4: "cstep ?s3 Accept ?s4" using accepts [of ?s3] cap by (simp add: closing_start_def)
  note go = lrun_Cons [where step = cstep]
  have c: "hb_closed (demo_joined_hub (hub_close demo_hub))"
    using join_locked_frame(4) by (simp add: demo_joined_hub_def new_peer_def hub_close_def once_do_def)
  have "hub_inv 0 (hub_close demo_hub)" by (rule hub_close_inv [OF hub_new_inv [OF demo_hub_new]])
  then have s: "hb_sessions (demo_joined_hub (hub_close demo_hub)) \<noteq> []" by (rule demo_joined_session)
  note run = go [OF 1 go [OF 2 go [OF 3 go [OF 4 one_connection_joins [of ?s4 2 True]]]]]
  have "counted (joined_live 2 True p)" for p by (simp add: counted_def joined_live_def)
  then show ?thesis using run c s demo_hub_new by (intro exI conjI) (auto simp: closing_start_def)
qed

end
