(* ===== verification/WireTypes.thy ===== *)
theory WireTypes
  imports ConnProps RelayRace
begin

text \<open>
  What the hub hands to a socket is of the type the WebSocket protocol asks for: a text frame
  is UTF-8, and the reason of a close frame is UTF-8 of at most 123 bytes.  The server's own
  frames are, whatever text they quote, because \<open>json.Marshal\<close> replaces every byte
  that does not decode; the close reasons are, because there are four of them.
\<close>

section \<open>UTF-8 of what json.Marshal builds\<close>

lemma rune_ok_append:
  assumes "rune_ok s"
  shows "decode_rune (s @ t) = decode_rune s"
  using decode_rune_prefix [OF assms, of "drop (snd (decode_rune s)) s @ t"]
  by (metis append.assoc append_take_drop_id)

lemma valid_utf8_append: "valid_utf8 a \<Longrightarrow> valid_utf8 b \<Longrightarrow> valid_utf8 (a @ b)"
proof (induction a rule: valid_utf8.induct)
  case (2 c s)
  let ?n = "snd (decode_rune (c # s))"
  have ok: "rune_ok (c # s)" using 2 by (simp add: rune_ok_def)
  have d: "decode_rune (c # s @ b) = decode_rune (c # s)" using rune_ok_append [OF ok, of b] by simp
  have "drop ?n (c # s @ b) = drop ?n (c # s) @ b"
    using decode_rune_width [of "c # s"] drop_append [of ?n "c # s" b] by simp
  then show ?case using 2 d by simp
qed simp

lemma valid_utf8_rune:
  assumes "rune_ok s"
  shows "valid_utf8 (take (snd (decode_rune s)) s)"
proof -
  let ?n = "snd (decode_rune s)"
  obtain c r where t: "take ?n s = c # r"
    using assms decode_rune_width [of s] by (cases "take ?n s") (auto simp: rune_ok_def)
  have d: "decode_rune (c # r) = decode_rune s" using decode_rune_prefix [OF assms, of "[]"] t by simp
  have "length (c # r) = ?n" using t decode_rune_width [of s] assms
    by (metis length_take min.absorb2 rune_ok_def)
  then show ?thesis using assms d t by (simp add: rune_ok_def)
qed

lemma valid_utf8_ascii_Cons [simp]: "code c < 0x80 \<Longrightarrow> valid_utf8 (c # s) = valid_utf8 s"
  by (auto simp: rune_error_def)

declare valid_utf8.simps(2) [simp del]

lemma escape_ascii_ascii: "code c < 0x80 \<Longrightarrow> ascii (escape_ascii c)"
  by (auto simp: escape_ascii_def hex_digit_def)

lemma valid_utf8_escape_rune: "s \<noteq> [] \<Longrightarrow> valid_utf8 (escape_rune s)"
proof (cases "code (hd s) < 0x80")
  case True
  then show ?thesis
    by (auto simp: escape_rune_def split_beta intro!: ascii_valid escape_ascii_ascii)
next
  case False
  moreover assume "s \<noteq> []"
  ultimately show ?thesis
    using valid_utf8_rune [of s]
    by (auto simp: escape_rune_def split_beta rune_ok_def prod_eq_iff hex_digit_def)
qed

lemma valid_utf8_escape: "valid_utf8 (json_escape s)"
  by (induction s rule: json_escape.induct)
     (simp_all add: json_escape.simps(2) valid_utf8_append valid_utf8_escape_rune)

lemma valid_utf8_quote [simp]: "valid_utf8 (json_quote s)"
  by (simp add: json_quote_def valid_utf8_append valid_utf8_escape)

lemma valid_utf8_fields: "list_all (\<lambda>(k, v). valid_utf8 v) fs \<Longrightarrow> valid_utf8 (json_fields fs)"
  by (induction fs rule: json_fields.induct) (simp_all add: valid_utf8_append)

lemma valid_utf8_object [simp]: "list_all (\<lambda>(k, v). valid_utf8 v) fs \<Longrightarrow> valid_utf8 (json_object fs)"
  by (simp add: json_object_def valid_utf8_append valid_utf8_fields)

lemma valid_utf8_turn [simp]: "valid_utf8 (marshal_turn t)"
  by (cases t) (simp_all add: marshal_turn_def)

lemma server_frames_utf8 [simp]:
  "valid_utf8 joinedFrame" "valid_utf8 byeFrame" "valid_utf8 (remoteJoinedFrame x)"
  "valid_utf8 (readyFrame c s i)"
  by (simp_all add: joinedFrame_def byeFrame_def remoteJoinedFrame_def readyFrame_def marshal_joined_def
      marshal_bye_def marshal_remote_joined_def marshal_ready_def json_bool_def)

section \<open>Close reasons\<close>

text \<open>The reasons the hub closes a peer with.\<close>

definition close_reasons :: "string set" where
  "close_reasons =
     {''send buffer full'', ''no receiver'', ''replaced by a new device'', ''replaced by a new phone''}"

definition closes_ok :: "effect list \<Rightarrow> bool" where
  "closes_ok es \<longleftrightarrow> (\<forall>p r. ClosePeer p r \<in> set es \<longrightarrow> r \<in> close_reasons)"

definition box_reasons :: "mailbox \<Rightarrow> bool" where
  "box_reasons b \<longleftrightarrow> set (mb_closing b) \<subseteq> close_reasons"

definition reasons_ok :: "relay \<Rightarrow> bool" where
  "reasons_ok s \<longleftrightarrow>
     (\<forall>p. box_reasons (n_box (r_net s) p))
     \<and> (\<forall>g p r. Do (ClosePeer p r) \<in> set (r_tasks s g) \<longrightarrow> r \<in> close_reasons)"

lemma join_closes:
  assumes "join_check m = None" "new_peer env m addr h = (p, h0)" "join_locked env p m h0 = (h1, es, r)"
  shows "closes_ok es" "closes_ok (join_unlocked p r h1)"
proof -
  obtain s0 h2 where f: "find_session env (p_sessionID (hb_peers h0 p)) (jm_Session m) h0 = (s0, h2)" by force
  obtain s4 h3 ready where pu: "pair_up p (join_slots m (hb_peers h0 p) p s0) h2 = (s4, h3, ready)"
    by (metis prod_cases3)
  have "ClosePeer q x \<notin> set ready" for q x using pu by (auto elim!: pair_up_cases split: if_splits)
  moreover have "ClosePeer q x \<notin> set (announceJoin v p t ss)" for q x v t ss
    by (auto simp: announceJoin_def split: option.splits)
  ultimately show "closes_ok es"
    using assms(3) by (auto simp: join_locked_eq [OF f pu] closes_ok_def)
  have "hb_peers h1 p = hb_peers h0 p" using join_locked_frame(1) [of env p m h0] assms(3) by simp
  then have "p_role (hb_peers h1 p) = jm_Role m" using assms(2) by (auto simp: new_peer_def)
  then show "closes_ok (join_unlocked p r h1)"
    using assms(1)
    by (auto simp: closes_ok_def join_unlocked_def Let_def join_check_None roleDevice_def rolePhone_def
        close_reasons_def split: option.splits)
qed

lemma leave_closes: "closes_ok (snd (leave_locked p h))"
  by (auto simp: closes_ok_def leave_locked_def Let_def split_beta split: option.splits if_splits)

lemma forward_closes: "closes_ok (forward_effects p ft raw h)"
  by (auto simp: closes_ok_def forward_effects_def Let_def split: option.splits if_splits)

lemma expire_closes: "closes_ok (snd (expire_locked p h))"
  by (auto simp: closes_ok_def expire_locked_def Let_def close_reasons_def split: option.splits if_splits)

lemma box_reasons_close: "box_reasons b \<Longrightarrow> r \<in> close_reasons \<Longrightarrow> box_reasons (peer_close r b)"
  by (auto simp: box_reasons_def peer_close_def once_do_def requestClose_def split_beta)

lemma box_reasons_send: "box_reasons b \<Longrightarrow> box_reasons (peer_send m b)"
  using box_reasons_close [of b "''send buffer full''"]
  by (auto simp: peer_send_def close_reasons_def) (simp add: box_reasons_def)

lemma box_reasons_perform:
  assumes "\<And>p. box_reasons (n_box n p)" "\<And>p r. e = ClosePeer p r \<Longrightarrow> r \<in> close_reasons"
  shows "box_reasons (n_box (perform e n) p)"
  using assms by (cases e) (auto simp: box_reasons_send box_reasons_close countPeerJoined_def countMessageForwarded_def)

lemma reasons_section:
  assumes "reasons_ok s" "closes_ok es" "closes_ok fs"
    and "r_tasks t = (r_tasks s)(g := map Do es @ us @ map Do fs)" "set us \<subseteq> {Unlock}"
    and "\<And>p. box_reasons (n_box (r_net t) p)"
  shows "reasons_ok t"
  using assms by (fastforce simp: reasons_ok_def closes_ok_def)

lemma reasons_ok_step:
  assumes "rstep s t" "reasons_ok s"
  shows "reasons_ok t"
  using assms(1)
proof (cases rule: rstep.cases)
  case (step_join m env addr p h0 h1 locked replaced)
  then show ?thesis
    using join_closes [OF step_join(3-5)] assms(2)
    by (intro reasons_section [OF assms(2), of locked _ _ "Conn p" "[Unlock]"])
       (auto simp: reasons_ok_def box_reasons_def new_box_def empty_box_def)
next
  case (step_leave p h1 es)
  then show ?thesis
    using leave_closes [of p "r_hub s"] assms(2)
    by (intro reasons_section [OF assms(2), of es "[]" _ "Conn p" "[]"]) (auto simp: reasons_ok_def closes_ok_def)
next
  case (step_forward p raw ft)
  then show ?thesis
    using forward_closes assms(2)
    by (intro reasons_section [OF assms(2), of "forward_effects p ft raw (r_hub s)" "[]" _ "Conn p" "[]"])
       (auto simp: reasons_ok_def closes_ok_def)
next
  case (step_expire u h1 es)
  then show ?thesis
    using expire_closes [of "tm_peer (hb_timers (r_hub s) u)" "r_hub s"] assms(2)
    by (intro reasons_section [OF assms(2), of es "[]" _ "Timer u" "[]"]) (auto simp: reasons_ok_def closes_ok_def)
next
  case (step_do g e ts)
  have "r \<in> close_reasons" if "e = ClosePeer p r" for p r
    using assms(2) step_do(2) that unfolding reasons_ok_def by (metis list.set_intros(1))
  then have "box_reasons (n_box (r_net t) p)" for p
    using box_reasons_perform [of "r_net s" e p] assms(2) step_do(1) by (simp add: reasons_ok_def)
  then show ?thesis
    using assms(2) step_do by (auto simp: reasons_ok_def) (metis list.set_intros(2))
next
  case (step_unlock g ts)
  then show ?thesis
    using assms(2) by (auto simp: reasons_ok_def) (metis list.set_intros(2))
next
  case (step_close p reason rs)
  have "set rs \<subseteq> close_reasons"
    using assms(2) step_close(3) unfolding reasons_ok_def box_reasons_def by (metis set_subset_Cons subset_trans)
  then show ?thesis using assms(2) step_close(1) by (simp add: reasons_ok_def box_reasons_def)
qed (use assms(2) in \<open>auto simp: reasons_ok_def box_reasons_def\<close>)

interpretation reasons: invariant_system "relay_init base" rstep reasons_ok for base
proof
  show "reasons_ok s" if "relay_init base s" for s
    using that by (auto simp: relay_init_def relay_start_def reasons_ok_def box_reasons_def empty_net_def empty_box_def)
  show "reasons_ok t" if "reasons_ok s" "rstep s t" for s t by (rule reasons_ok_step [OF that(2,1)])
qed

section \<open>Properties\<close>

text \<open>C25: What the hub hands to a socket has the type the protocol of the socket asks for, in every schedule:
  each frame queued for or written to a peer is a JSON message with a type, either one of the
  server's four types, and then valid UTF-8 whatever text the configuration or a client put into it, or an
  offer, answer or candidate passed on; and each close reason is valid UTF-8 and shorter than the
  cut of truncateReason, which therefore never splits a character.\<close>

theorem socket_traffic_is_well_typed:
  assumes "reach_from (relay_init base) rstep s" "p < hb_npeers (r_hub s)"
  shows "list_all (\<lambda>f. \<exists>t. frameType f = (t, True)
      \<and> (relayed_type t \<or> t \<in> {typeJoined, typeReady, typeBye, typeRemoteJoined} \<and> valid_utf8 f)) (history s p)
    \<and> list_all (\<lambda>r. truncateReason r = r \<and> valid_utf8 r \<and> length r \<le> 123) (mb_closing (n_box (r_net s) p))"
proof -
  have "\<forall>f\<in>set (history s p). frame_ok (r_hub s) p f"
    using relay_invD(5) [OF relay.inv_reachable [OF assms(1)] assms(2)] by (simp add: peer_safe_def)
  then have frames: "list_all (\<lambda>f. \<exists>t. frameType f = (t, True)
      \<and> (relayed_type t \<or> t \<in> {typeJoined, typeReady, typeBye, typeRemoteJoined} \<and> valid_utf8 f)) (history s p)"
    unfolding list_all_iff frame_ok_def using frame_tags by fastforce
  have "truncateReason r = r \<and> valid_utf8 r \<and> length r \<le> 123" if "r \<in> close_reasons" for r
    using that by (auto simp: close_reasons_def truncateReason_def maxReason_def)
  then show ?thesis
    using frames reasons.inv_reachable [OF assms(1)] by (auto simp: reasons_ok_def box_reasons_def list_all_iff)
qed

theorem socket_traffic_is_well_typed_witness:
  "\<exists>s :: relay. joinedFrame \<in> set (history s 1)
     \<and> list_all (\<lambda>r. truncateReason r = r \<and> length r \<le> 123) (mb_closing (n_box (r_net s) 1))"
proof -
  obtain s where s: "reach_from (relay_init 0) rstep s" "joinedFrame \<in> set (r_wire s 1)"
    "1 < hb_npeers (r_hub s)" using reach_race_write by blast
  then have "joinedFrame \<in> set (history s 1)" by (simp add: history_def)
  with socket_traffic_is_well_typed [OF s(1,3)] show ?thesis by (auto simp: list_all_iff)
qed

end
