(* ===== verification/Delivery.thy ===== *)
theory Delivery
  imports ConnProps
begin

text \<open>
  What one client's reader delivers to the other client: the specification is a filter
  over the results its socket reads return, the code is \<open>readLoop\<close>, \<open>handleFrame\<close>, \<open>Hub.forward\<close> and
  \<open>peer.send\<close> one after the other.
\<close>

section \<open>The frames a client has relayed\<close>

text \<open>A read result that ends the loop: a failed read, or the client's own bye.\<close>

fun ends_loop :: "read_result \<Rightarrow> bool" where
  "ends_loop (ReadFailed _) = True"
| "ends_loop (Frame mt data) = (mt = MessageText \<and> frameType data = (typeBye, True))"

text \<open>A read result that is for the counterpart.\<close>

fun is_relayed :: "read_result \<Rightarrow> bool" where
  "is_relayed (ReadFailed _) = False"
| "is_relayed (Frame mt data) =
     (mt = MessageText \<and> frameType data \<in> {(typeOffer, True), (typeAnswer, True), (typeCandidate, True)})"

fun frame_body :: "read_result \<Rightarrow> string" where
  "frame_body (Frame _ data) = data"
| "frame_body (ReadFailed _) = []"

definition relayed_frames :: "read_result list \<Rightarrow> string list" where
  "relayed_frames rs = map frame_body (filter is_relayed (takeWhile (Not \<circ> ends_loop) rs))"

lemma relayed_frames_simps [simp]:
  "relayed_frames [] = []"
  "ends_loop r \<Longrightarrow> relayed_frames (r # rs) = []"
  "\<not> ends_loop r \<Longrightarrow> relayed_frames (r # rs) = (if is_relayed r then [frame_body r] else []) @ relayed_frames rs"
  by (simp_all add: relayed_frames_def)

text \<open>How the loop ends, read off its first result that ends it.\<close>

definition loop_result :: "read_result list \<Rightarrow> read_end" where
  "loop_result rs =
     (case dropWhile (Not \<circ> ends_loop) rs of
        [] \<Rightarrow> Reading
      | ReadFailed e # _ \<Rightarrow> ReadError e
      | Frame _ _ # _ \<Rightarrow> ClientBye)"

section \<open>Delivering to the counterpart\<close>

definition deliver :: "nat option \<Rightarrow> string list \<Rightarrow> (nat \<Rightarrow> mailbox) \<Rightarrow> nat \<Rightarrow> mailbox" where
  "deliver to fs bs = (case to of None \<Rightarrow> bs | Some q \<Rightarrow> bs(q := fold peer_send fs (bs q)))"

lemma deliver_simps [simp]:
  "deliver to [] bs = bs"
  "deliver to (fs @ gs) bs = deliver to gs (deliver to fs bs)"
  by (auto simp: deliver_def split: option.split)

lemma forward_delivers:
  assumes "hub_inv base (w_hub w)"
  shows "n_box (w_net (hub_forward p ft raw w)) = deliver (counterpart (w_hub w) p) [raw] (n_box (w_net w))"
  using assms
  by (simp add: hub_forward_def forward_effects_counterpart deliver_def countMessageForwarded_def split: option.split)

text \<open>The types a client sends are four different ones.\<close>

lemma client_tags:
  "typeBye \<noteq> typeOffer" "typeBye \<noteq> typeAnswer" "typeBye \<noteq> typeCandidate"
  by (simp_all add: typeBye_def typeOffer_def typeAnswer_def typeCandidate_def)

lemma handleFrame_delivers:
  assumes inv: "hub_inv base (w_hub w)"
  shows "fst (handleFrame addr p data w) = ends_loop (Frame MessageText data)"
    and "n_box (w_net (snd (handleFrame addr p data w))) =
      deliver (counterpart (w_hub w) p) (if is_relayed (Frame MessageText data) then [data] else []) (n_box (w_net w))"
  using client_tags inv forward_delivers [of base "logFrame ''in'' addr (Some p) data w" p]
  by (auto simp: handleFrame_def Let_def split: prod.split)

lemma loop_result_simps [simp]:
  "loop_result [] = Reading" "loop_result (ReadFailed e # rs) = ReadError e"
  "ends_loop (Frame mt data) \<Longrightarrow> loop_result (Frame mt data # rs) = ClientBye"
  "\<not> ends_loop r \<Longrightarrow> loop_result (r # rs) = loop_result rs"
  by (simp_all add: loop_result_def)

lemma bye_not_relayed: "ends_loop r \<Longrightarrow> \<not> is_relayed r"
  using client_tags by (cases r) auto

lemma readLoop_delivers:
  "hub_inv base (w_hub w) \<Longrightarrow>
     fst (readLoop addr p rs w) = loop_result rs
     \<and> n_box (w_net (snd (readLoop addr p rs w))) =
         deliver (counterpart (w_hub w) p) (relayed_frames rs) (n_box (w_net w))"
proof (induction addr p rs w rule: readLoop.induct)
  case (3 addr p mt data rs w)
  show ?case
  proof (cases "mt = MessageText")
    case False
    then show ?thesis using 3 by simp
  next
    case True
    obtain b w1 where h: "handleFrame addr p data w = (b, w1)" by force
    then have "w_hub w1 = w_hub w" using handleFrame_hub [of addr p data w] by simp
    then show ?thesis
      using 3 h True handleFrame_delivers [OF 3(3), of addr p data] bye_not_relayed
      by (cases b) (auto simp del: ends_loop.simps is_relayed.simps)
  qed
qed simp_all

section \<open>Properties\<close>

text \<open>C6: Whatever a client's socket delivers, its reader puts the bodies of the text frames of
  type offer, answer and candidate, up to the client's bye or the first failed read, byte for byte
  and in order behind what the counterpart's queue holds, as many as it has room for; a frame that
  does not fit asks for the counterpart's close.  No other queue is touched, the registry stays as
  it is, and the counterpart is a different peer of the other role in the same session; a
  peer with no counterpart, or one that was replaced, relays nothing.  This is the reader on its
  own, while no other goroutine acts.\<close>

theorem relay_preserves_order:
  assumes inv: "hub_inv base (w_hub w)"
    and queues: "\<forall>q. length (mb_out (n_box (w_net w) q)) \<le> mb_cap (n_box (w_net w) q)"
  shows "case readLoop addr p rs w of (e, w') \<Rightarrow>
      e = loop_result rs \<and> w_hub w' = w_hub w
    \<and> (case counterpart (w_hub w) p of
        None \<Rightarrow> n_box (w_net w') = n_box (w_net w)
      | Some q \<Rightarrow>
          q \<noteq> p \<and> p_role (hb_peers (w_hub w) q) \<noteq> p_role (hb_peers (w_hub w) p)
        \<and> p_sessionID (hb_peers (w_hub w) q) = p_sessionID (hb_peers (w_hub w) p)
        \<and> (let old = n_box (w_net w) q; room = mb_cap old - length (mb_out old)
            in mb_out (n_box (w_net w') q) = mb_out old @ take room (relayed_frames rs)
             \<and> (room < length (relayed_frames rs) \<longrightarrow> mb_once (n_box (w_net w') q)))
        \<and> (\<forall>r. r \<noteq> q \<longrightarrow> n_box (w_net w') r = n_box (w_net w) r))"
proof (cases "counterpart (w_hub w) p")
  case None
  then show ?thesis using readLoop_delivers [OF inv, of addr p rs] by (simp add: split_beta deliver_def)
next
  case (Some q)
  have q: "length (mb_out (n_box (w_net w) q)) \<le> mb_cap (n_box (w_net w) q)" using queues by blast
  show ?thesis
    using readLoop_delivers [OF inv, of addr p rs] counterpart_other_role [OF inv Some] Some
      box_out.burst [OF q, of "relayed_frames rs"] burst_closed [OF q, of "relayed_frames rs"]
    by (simp add: split_beta deliver_def Let_def)
qed

text \<open>A paired phone whose socket reads two frames to relay, two to ignore and a bye.\<close>

definition tagged :: "string \<Rightarrow> string" where
  "tagged ft = marshal_bye \<lparr>bm_Type = ft\<rparr>"

definition demo_reads :: "read_result list" where
  "demo_reads = [Frame MessageBinary (tagged typeOffer), Frame MessageText (tagged typeAnswer),
     Frame MessageText joinedFrame, Frame MessageText (tagged typeCandidate),
     Frame MessageText byeFrame, Frame MessageText (tagged typeOffer)]"

lemma demo_types:
  "frameType (tagged typeOffer) = (typeOffer, True)"
  "frameType (tagged typeAnswer) = (typeAnswer, True)"
  "frameType (tagged typeCandidate) = (typeCandidate, True)"
  by (simp_all add: tagged_def frameType_bye protocol_consts)

lemma demo_relayed: "relayed_frames demo_reads = [tagged typeAnswer, tagged typeCandidate]"
  "loop_result demo_reads = ClientBye"
  by (simp_all add: demo_reads_def demo_types [unfolded protocol_consts]
      frame_tags [unfolded protocol_consts] protocol_consts)

theorem relay_preserves_order_witness:
  "\<exists>w. hub_inv 0 (w_hub w) \<and> fst (readLoop ''b:2'' 1 demo_reads w) = ClientBye
     \<and> mb_out (n_box (w_net (snd (readLoop ''b:2'' 1 demo_reads w))) 0) =
         [tagged typeAnswer, tagged typeCandidate]"
proof (intro exI conjI)
  let ?w = "demo_world2\<lparr>w_net := empty_net\<lparr>n_box := (\<lambda>_. empty_box 2)\<rparr>\<rparr>"
  show inv: "hub_inv 0 (w_hub ?w)" using demo_inv2 by simp
  have "\<forall>q. length (mb_out (n_box (w_net ?w) q)) \<le> mb_cap (n_box (w_net ?w) q)"
    by (simp add: empty_box_def)
  note r = relay_preserves_order [OF inv this, where addr = "''b:2''" and p = 1 and rs = demo_reads]
  show "fst (readLoop ''b:2'' 1 demo_reads ?w) = ClientBye"
    using r by (simp add: split_beta demo_relayed)
  show "mb_out (n_box (w_net (snd (readLoop ''b:2'' 1 demo_reads ?w))) 0) =
         [tagged typeAnswer, tagged typeCandidate]"
    using r demo_counterpart by (simp add: split_beta demo_relayed empty_box_def)
qed

section \<open>A frame with two types\<close>

text \<open>
  The server's decoder matches the key \<open>type\<close> without regard to case and lets the last match
  win, but forwards the bytes it read; the page in \<open>server/static/webrtc-websocket.html\<close> switches
  on \<open>JSON.parse(raw).type\<close>, which goes by the exact key (and its last occurrence).
\<close>

definition page_type :: "string \<Rightarrow> string option" where
  "page_type raw =
     (case parse_json raw of
        Some (JObj ms) \<Rightarrow> (case map_of (rev ms) ''type'' of Some (JStr t) \<Rightarrow> Some t | _ \<Rightarrow> None)
      | _ \<Rightarrow> None)"

definition disguised :: "string \<Rightarrow> string" where
  "disguised t = json_object [(''type'', json_quote t), (''Type'', json_quote ''offer'')]"

lemma disguised_types:
  assumes "ascii t"
  shows "frameType (disguised t) = (typeOffer, True)" "page_type (disguised t) = Some t"
proof -
  have "field_of [''type''] ''Type'' = Some ''type''"
    by (simp add: field_of_def equal_fold_ascii ascii_lower_def chr_of_eq_iff)
  then show "frameType (disguised t) = (typeOffer, True)"
    by (simp add: frameType_def unmarshal_strings_def disguised_def parse_two_strings store_member_def
        field_of_consts typeOffer_def)
  show "page_type (disguised t) = Some t"
    using assms by (simp add: page_type_def disguised_def parse_two_strings)
qed

text \<open>A client may send its counterpart a frame that the server takes for an offer and relays as
  such, and that the page takes for any message it likes, a server message such as ready or
  bye included.\<close>

lemma disguised_frame_is_relayed:
  assumes inv: "hub_inv base (w_hub w)" and q: "counterpart (w_hub w) p = Some q"
    and room: "box_has_room (n_box (w_net w) q)" and t: "ascii t"
  shows "mb_out (n_box (w_net (snd (handleFrame addr p (disguised t) w))) q)
      = mb_out (n_box (w_net w) q) @ [disguised t] \<and> page_type (disguised t) = Some t"
  using handleFrame_delivers(2) [OF inv, of addr p "disguised t"] q room disguised_types [OF t]
  by (simp add: deliver_def peer_send_def)

end
