(* ===== verification/HubLocks.thy ===== *)
theory HubLocks
  imports HubLife
begin

text \<open>
  The mutex of the hub, statement by statement.  Each method that takes \<open>s.mu\<close> is written as
  the sequence of its steps (\<open>prog\<close>): taking and releasing the lock, on every early return too,
  reading and mutating the registry, and what it does outside it (sends, counters, the
  process-wide gauge).  Any number of calls run interleaved, one step at a time.

  The lemmas show that a method run alone does what the operation of the theory \<open>Hub\<close> says; the
  properties that only the holder of the mutex touches the registry, that the mutex
  is always released, and that every interleaving amounts to the calls made one after the other in
  the order in which they took the mutex.

  A peer record is there before its join takes the lock and is never changed; so the
  peers of all calls are taken to be in \<open>hb_peers\<close> from the start.  The runtime that fires a
  timer is not a step here: an expiry call may come at any moment.
\<close>

section \<open>Methods as steps\<close>

datatype out = Eff effect | Gauge "64 word"

datatype prog =
    MuLock prog
  | MuUnlock prog
  | Look "hub \<Rightarrow> prog"
  | Mutate "hub \<Rightarrow> hub" prog
  | Out out prog
  | Return

fun outs :: "effect list \<Rightarrow> prog \<Rightarrow> prog" where
  "outs [] c = c"
| "outs (e # es) c = Out (Eff e) (outs es c)"

text \<open>
  \<open>sess\<close> is a pointer into the session table; here it is the key, and a field is
  read or assigned through it.  (There is a session under the key whenever it is used; the other
  branch gives the lock back.)
\<close>

definition with_session :: "string \<Rightarrow> (session \<Rightarrow> prog) \<Rightarrow> prog" where
  "with_session k f =
     Look (\<lambda>h. case tbl_get (hb_sessions h) k of None \<Rightarrow> MuUnlock Return | Some s \<Rightarrow> f s)"

definition on_session :: "string \<Rightarrow> (session \<Rightarrow> session) \<Rightarrow> hub \<Rightarrow> hub" where
  "on_session k f h =
     (case tbl_get (hb_sessions h) k of
        None \<Rightarrow> h
      | Some s \<Rightarrow> h\<lparr>hb_sessions := tbl_put k (f s) (hb_sessions h)\<rparr>)"

definition stop_lonely_at :: "string \<Rightarrow> hub \<Rightarrow> hub" where
  "stop_lonely_at k h =
     (case tbl_get (hb_sessions h) k of
        None \<Rightarrow> h
      | Some s \<Rightarrow> h\<lparr>hb_timers := snd (stopLonely s (hb_timers h)),
                    hb_sessions := tbl_put k (fst (stopLonely s (hb_timers h))) (hb_sessions h)\<rparr>)"

definition arm_lonely :: "nat \<Rightarrow> string \<Rightarrow> hub \<Rightarrow> hub" where
  "arm_lonely p k h =
     on_session k (\<lambda>s. s\<lparr>s_lonely := Some (hb_ntimers h)\<rparr>)
       (h\<lparr>hb_timers := (hb_timers h)(hb_ntimers h :=
            \<lparr>tm_peer = p, tm_after = cfg_NoReceiverTimeout (hb_cfg h), tm_state = Armed\<rparr>),
          hb_ntimers := Suc (hb_ntimers h)\<rparr>)"

definition insert_session :: "string \<Rightarrow> session \<Rightarrow> hub \<Rightarrow> hub" where
  "insert_session k s h = h\<lparr>hb_sessions := tbl_put k s (hb_sessions h)\<rparr>"

definition delete_session :: "string \<Rightarrow> hub \<Rightarrow> hub" where
  "delete_session k h = h\<lparr>hb_sessions := tbl_del k (hb_sessions h)\<rparr>"

subsection \<open>join\<close>

definition pair_code :: "nat \<Rightarrow> peer \<Rightarrow> string \<Rightarrow> prog \<Rightarrow> prog" where
  "pair_code p pr k rest =
     with_session k (\<lambda>sess.
       case (s_device sess, s_phone sess) of
         (Some d, Some q) \<Rightarrow>
           Mutate (stop_lonely_at k) (with_session k (\<lambda>sess.
             if s_readySent sess then rest
             else Mutate (on_session k (\<lambda>s. s\<lparr>s_readySent := True\<rparr>)) (with_session k (\<lambda>sess.
               Look (\<lambda>h. outs [Send d (readyFrame (hb_cfg h) sess False),
                               Send q (readyFrame (hb_cfg h) sess True)] rest)))))
       | _ \<Rightarrow>
           Look (\<lambda>h. if p_role pr = roleDevice \<and> cfg_NoReceiverTimeout (hb_cfg h) > 0
                     then Mutate (arm_lonely p k) rest else rest))"

definition join_code :: "join_env \<Rightarrow> nat \<Rightarrow> joinMessage \<Rightarrow> prog" where
  "join_code env p m =
     MuLock (Look (\<lambda>h.
       let pr = hb_peers h p; k = p_sessionID pr;
           create = (if tbl_get (hb_sessions h) k = None
                     then (\<lambda>c. Mutate (insert_session k
                             \<lparr>s_id = k, s_label = jm_Session m, s_imei = [], s_device = None, s_phone = None,
                              s_turnToken = newTurnToken (je_rand env), s_readySent = False, s_lonely = None\<rparr>)
                            (Out (Gauge 1) c))
                     else (\<lambda>c. c));
           set_imei = (if jm_Imei m \<noteq> [] then Mutate (on_session k (\<lambda>s. s\<lparr>s_imei := jm_Imei m\<rparr>)) else (\<lambda>c. c))
       in create (set_imei (with_session k (\<lambda>sess.
            let replaced = slot (p_role pr) sess;
                reset = (if replaced \<noteq> None
                         then Mutate (on_session k (\<lambda>s. s\<lparr>s_readySent := False\<rparr>)) else (\<lambda>c. c))
            in Mutate (on_session k (setSlot (p_role pr) (Some p))) (reset
                 (outs [Send p joinedFrame] (pair_code p pr k
                   (Look (\<lambda>h. outs (announceJoin (je_visit env) p (jm_Session m) (hb_sessions h))
                     (MuUnlock (outs (join_unlocked p replaced h) Return)))))))))))) "

subsection \<open>leave, forward, expireLonely, Close, sessionCount\<close>

definition leave_code :: "nat \<Rightarrow> prog" where
  "leave_code p =
     MuLock (Look (\<lambda>h.
       let pr = hb_peers h p; k = p_sessionID pr in
       case tbl_get (hb_sessions h) k of
         None \<Rightarrow> MuUnlock Return
       | Some sess \<Rightarrow>
           if slot (p_role pr) sess \<noteq> Some p then MuUnlock Return
           else Mutate (on_session k (setSlot (p_role pr) None))
               (Mutate (stop_lonely_at k)
               (Mutate (on_session k (\<lambda>s. s\<lparr>s_readySent := False\<rparr>))
               (with_session k (\<lambda>sess.
                 let after = MuUnlock (outs
                       ((case other (p_role pr) sess of None \<Rightarrow> [] | Some q \<Rightarrow> [Send q byeFrame])
                        @ [LogLine (log_at LInfo ''signaling peer left''
                             [(''role'', VStr (p_role pr)), (''session'', VStr (p_label pr)),
                              (''remoteAddr'', VStr (p_addr pr))])]) Return)
                 in if isEmpty sess then Mutate (delete_session k) (Out (Gauge (- 1)) after) else after))))))"

definition forward_code :: "nat \<Rightarrow> string \<Rightarrow> string \<Rightarrow> prog" where
  "forward_code p frame_type raw =
     MuLock (Look (\<lambda>h.
       let pr = hb_peers h p in
       case tbl_get (hb_sessions h) (p_sessionID pr) of
         None \<Rightarrow> MuUnlock Return
       | Some sess \<Rightarrow>
           if slot (p_role pr) sess \<noteq> Some p then MuUnlock Return
           else MuUnlock (outs
                  (case other (p_role pr) sess of
                     None \<Rightarrow> [LogLine (log_at LDebug ''signaling frame dropped: no counterpart''
                        [(''role'', VStr (p_role pr)), (''session'', VStr (p_label pr)),
                         (''bytes'', VInt (int (length raw)))])]
                   | Some q \<Rightarrow> [CountForwarded frame_type, Send q raw]) Return)))"

definition expire_code :: "nat \<Rightarrow> prog" where
  "expire_code device =
     MuLock (Look (\<lambda>h.
       let pr = hb_peers h device; k = p_sessionID pr in
       case tbl_get (hb_sessions h) k of
         None \<Rightarrow> MuUnlock Return
       | Some sess \<Rightarrow>
           if s_device sess \<noteq> Some device \<or> s_phone sess \<noteq> None then MuUnlock Return
           else Mutate (on_session k (\<lambda>s. s\<lparr>s_lonely := None\<rparr>))
               (Mutate (on_session k (\<lambda>s. s\<lparr>s_device := None\<rparr>))
               (with_session k (\<lambda>sess.
                 let after = MuUnlock (outs
                       [CountNoReceiver,
                        LogLine (log_at LInfo ''signaling device had no receiver''
                          [(''session'', VStr (p_label pr)), (''remoteAddr'', VStr (p_addr pr)),
                           (''timeout'', VInt (cfg_NoReceiverTimeout (hb_cfg h)))]),
                        Send device byeFrame, ClosePeer device ''no receiver''] Return)
                 in if isEmpty sess then Mutate (delete_session k) (Out (Gauge (- 1)) after) else after)))))"

text \<open>The locked part of \<open>Close\<close>, after its wait, and what follows it.\<close>

definition clear_code :: prog where
  "clear_code =
     MuLock (Look (\<lambda>h.
       let remaining = length (hb_sessions h) in
       Mutate (\<lambda>h. h\<lparr>hb_timers := stop_all (hb_sessions h) (hb_timers h)\<rparr>)
         (Mutate (\<lambda>h. h\<lparr>hb_sessions := []\<rparr>)
         (MuUnlock (Out (Gauge (of_int (- int remaining))) Return)))))"

definition count_code :: prog where
  "count_code = MuLock (Look (\<lambda>_. MuUnlock Return))"

datatype call =
    CJoin join_env nat joinMessage
  | CLeave nat
  | CForward nat string string
  | CExpire nat
  | CClear
  | CCount

fun code_of :: "call \<Rightarrow> prog" where
  "code_of (CJoin env p m) = join_code env p m"
| "code_of (CLeave p) = leave_code p"
| "code_of (CForward p ft raw) = forward_code p ft raw"
| "code_of (CExpire p) = expire_code p"
| "code_of CClear = clear_code"
| "code_of CCount = count_code"

section \<open>A method run alone\<close>

primrec run :: "prog \<Rightarrow> hub \<Rightarrow> hub \<times> out list" where
  "run (MuLock c) h = run c h"
| "run (MuUnlock c) h = run c h"
| "run (Look f) h = run (f h) h"
| "run (Mutate f c) h = run c (f h)"
| "run (Out x c) h = (fst (run c h), x # snd (run c h))"
| "run Return h = (h, [])"

definition effects :: "out list \<Rightarrow> effect list" where
  "effects xs = concat (map (\<lambda>x. case x of Eff e \<Rightarrow> [e] | Gauge _ \<Rightarrow> []) xs)"

definition gauge :: "out list \<Rightarrow> 64 word" where
  "gauge xs = sum_list (map (\<lambda>x. case x of Eff _ \<Rightarrow> 0 | Gauge d \<Rightarrow> d) xs)"

lemma effects_simps [simp]:
  "effects [] = []" "effects (Eff e # xs) = e # effects xs" "effects (Gauge d # xs) = effects xs"
  "effects (xs @ ys) = effects xs @ effects ys"
  by (simp_all add: effects_def)

lemma gauge_simps [simp]:
  "gauge [] = 0" "gauge (Eff e # xs) = gauge xs" "gauge (Gauge d # xs) = d + gauge xs"
  "gauge (xs @ ys) = gauge xs + gauge ys"
  by (simp_all add: gauge_def)

text \<open>The operations of the theory \<open>Hub\<close>, each one indivisible.\<close>

fun atomic :: "call \<Rightarrow> hub \<Rightarrow> hub \<times> effect list" where
  "atomic (CJoin env p m) h =
     (case join_locked env p m h of (h1, locked, replaced) \<Rightarrow> (h1, locked @ join_unlocked p replaced h1))"
| "atomic (CLeave p) h = leave_locked p h"
| "atomic (CForward p ft raw) h = (h, forward_effects p ft raw h)"
| "atomic (CExpire p) h = expire_locked p h"
| "atomic CClear h = (hub_close_body h, [])"
| "atomic CCount h = (h, [])"

lemma run_outs [simp]:
  "fst (run (outs es c) h) = fst (run c h)"
  "snd (run (outs es c) h) = map Eff es @ snd (run c h)"
  by (induction es) simp_all

lemma effects_Eff [simp]: "effects (map Eff es) = es" "gauge (map Eff es) = 0"
  by (induction es) simp_all

lemma tbl_put_put [simp]: "tbl_put k a (tbl_put k b m) = tbl_put k a m"
  "tbl_del k (tbl_put k a m) = tbl_del k m"
  by (simp_all add: tbl_put_def tbl_del_def delete_update_same)

lemma tbl_put_same: "tbl_get m k = Some v \<Longrightarrow> tbl_put k v m = m"
  by (induction m) (auto simp: tbl_get_def tbl_put_def split: if_splits)

lemmas code_defs = with_session_def on_session_def stop_lonely_at_def arm_lonely_def insert_session_def
  delete_session_def

definition does :: "call \<Rightarrow> hub \<Rightarrow> bool" where
  "does c h \<longleftrightarrow>
     (let (h', xs) = run (code_of c) h
      in hb_active h' = hb_active h \<and> atomic c h = (h'\<lparr>hb_active := hb_active h + gauge xs\<rparr>, effects xs))"

lemma hub_self [simp]: "(h :: hub)\<lparr>hb_active := hb_active h\<rparr> = h"
  by simp

lemma does_leave: "does (CLeave p) h"
  by (auto simp: does_def leave_code_def leave_locked_def Let_def code_defs tbl.get_put stopLonely_def
      split: option.splits prod.splits)

lemma does_forward: "does (CForward p ft raw) h"
  by (auto simp: does_def forward_code_def forward_effects_def Let_def split: option.splits)

lemma does_expire: "does (CExpire p) h"
  by (auto simp: does_def expire_code_def expire_locked_def Let_def code_defs tbl.get_put split: option.splits)

lemma does_close: "does CClear h" "does CCount h"
  by (auto simp: does_def clear_code_def count_code_def hub_close_body_def Let_def)

text \<open>A join: first the session, then the slots, then the pairing.\<close>

lemma run_pair:
  assumes s: "tbl_get (hb_sessions h) k = Some s" and role: "p_role (hb_peers h p) = p_role pr"
    and pu: "pair_up p s h = (s', h', es)"
    and h2: "h2 = h'\<lparr>hb_sessions := tbl_put k s' (hb_sessions h)\<rparr>"
  shows "run (pair_code p pr k rest) h = (fst (run rest h2), map Eff es @ snd (run rest h2))"
  using pu
proof (cases rule: pair_up_cases)
  case (paired d q)
  obtain ts where st: "stopLonely s (hb_timers h) = (s\<lparr>s_lonely := None\<rparr>, ts)"
    by (cases "s_lonely s") (simp_all add: stopLonely_def)
  have same: "s_readySent s \<Longrightarrow> s\<lparr>s_lonely := None, s_readySent := True\<rparr> = s\<lparr>s_lonely := None\<rparr>" by (cases s) simp
  show ?thesis using s paired st same h2
    by (cases "s_readySent s") (simp_all add: pair_code_def code_defs tbl.get_put)
next
  case armed
  then show ?thesis using s role h2
    by (auto simp: pair_code_def code_defs split: option.split)
next
  case waits
  then show ?thesis using s role h2 tbl_put_same [OF s]
    by (auto simp: pair_code_def code_defs split: option.split)
qed

lemma pair_up_elsewhere:
  "pair_up p s (h\<lparr>hb_sessions := ss, hb_active := a\<rparr>) =
     (case pair_up p s h of (s', h', es) \<Rightarrow> (s', h'\<lparr>hb_sessions := ss, hb_active := a\<rparr>, es))"
  by (auto simp: pair_up_def Let_def split: option.split prod.split)

text \<open>The join up to its pairing decision.\<close>

lemma run_slots:
  assumes f: "find_session env (p_sessionID (hb_peers h p)) (jm_Session m) h = (s0, h0)"
  defines "pr \<equiv> hb_peers h p" and "k \<equiv> p_sessionID (hb_peers h p)"
  defines "h3 \<equiv> h0\<lparr>hb_sessions := tbl_put k (join_slots m pr p s0) (hb_sessions h0), hb_active := hb_active h\<rparr>"
    and "tail \<equiv> pair_code p pr k (Look (\<lambda>h. outs (announceJoin (je_visit env) p (jm_Session m) (hb_sessions h))
                     (MuUnlock (outs (join_unlocked p (slot (p_role pr) s0) h) Return))))"
  shows "run (join_code env p m) h =
     (fst (run tail h3),
      (if tbl_get (hb_sessions h) k = None then [Gauge 1] else []) @
      Eff (Send p joinedFrame) # snd (run tail h3))"
proof -
  have slot_imei: "slot r (s\<lparr>s_imei := i\<rparr>) = slot r s" for r s i by (simp add: slot_def)
  have kp: "p_sessionID pr = k" by (simp add: pr_def k_def)
  have slot_new: "slot r \<lparr>s_id = i, s_label = l, s_imei = e, s_device = None, s_phone = None,
      s_turnToken = t, s_readySent = b, s_lonely = x\<rparr> = None" for r i l e t b x
    by (simp add: slot_def)
  show ?thesis
  proof (cases "tbl_get (hb_sessions h) k")
    case None
    then have s0: "h0 = h\<lparr>hb_sessions := tbl_put k s0 (hb_sessions h), hb_active := hb_active h + 1\<rparr>"
      "s0 = \<lparr>s_id = k, s_label = jm_Session m, s_imei = [], s_device = None, s_phone = None,
             s_turnToken = newTurnToken (je_rand env), s_readySent = False, s_lonely = None\<rparr>"
      using f by (auto simp: find_session_def k_def Let_def)
    show ?thesis using None
      by (cases "jm_Imei m = []")
         (simp_all add: join_code_def Let_def code_defs tbl.get_put join_slots_def slot_imei slot_new h3_def tail_def
             pr_def [symmetric] kp s0)
  next
    case (Some s)
    then have s0: "h0 = h" "s0 = s" using f by (auto simp: find_session_def k_def)
    show ?thesis using Some
      by (cases "jm_Imei m = []"; cases "slot (p_role pr) s")
         (simp_all add: join_code_def Let_def code_defs tbl.get_put join_slots_def slot_imei slot_new h3_def tail_def
             pr_def [symmetric] kp s0)
  qed
qed

lemma join_unlocked_frame [simp]:
  "join_unlocked p r (h\<lparr>hb_active := a\<rparr>) = join_unlocked p r h"
  "join_unlocked p r (h\<lparr>hb_sessions := ss\<rparr>) = join_unlocked p r h"
  by (simp_all add: join_unlocked_def)

lemma does_join: "does (CJoin env p m) h"
proof -
  let ?pr = "hb_peers h p" let ?k = "p_sessionID ?pr"
  obtain s0 h0 where f: "find_session env ?k (jm_Session m) h = (s0, h0)" by force
  let ?s3 = "join_slots m ?pr p s0"
  let ?h3 = "h0\<lparr>hb_sessions := tbl_put ?k ?s3 (hb_sessions h0), hb_active := hb_active h\<rparr>"
  obtain s4 h1 ready where pu: "pair_up p ?s3 h0 = (s4, h1, ready)" by (metis prod_cases3)
  note ff = find_session_frame [OF f] and pf = pair_up_frame [OF pu]
  have pu3: "pair_up p ?s3 ?h3 = (s4, h1\<lparr>hb_sessions := hb_sessions ?h3, hb_active := hb_active h\<rparr>, ready)"
    using pair_up_elsewhere [where p = p and s = ?s3 and h = h0] by (simp add: pu)
  have active: "hb_active h1 = hb_active h + gauge (if tbl_get (hb_sessions h) ?k = None then [Gauge 1] else [])"
    using f pf(4) by (auto simp: find_session_def Let_def split: option.splits)
  let ?rest = "Look (\<lambda>h. outs (announceJoin (je_visit env) p (jm_Session m) (hb_sessions h))
                     (MuUnlock (outs (join_unlocked p (slot (p_role ?pr) s0) h) Return)))"
  let ?h4 = "h1\<lparr>hb_sessions := tbl_put ?k s4 (hb_sessions h1), hb_active := hb_active h\<rparr>"
  have h4: "?h4 = (h1\<lparr>hb_sessions := hb_sessions ?h3, hb_active := hb_active h\<rparr>)
      \<lparr>hb_sessions := tbl_put ?k s4 (hb_sessions ?h3)\<rparr>"
    using pf(3) by simp
  have "run (pair_code p ?pr ?k ?rest) ?h3 =
      (fst (run ?rest ?h4), map Eff ready @ snd (run ?rest ?h4))"
    using ff by (intro run_pair [OF _ _ pu3 h4]) (simp_all add: tbl.get_put)
  then have r: "run (join_code env p m) h = (?h4,
      (if tbl_get (hb_sessions h) ?k = None then [Gauge 1] else [])
      @ Eff (Send p joinedFrame) # map Eff ready
      @ map Eff (announceJoin (je_visit env) p (jm_Session m) (hb_sessions ?h4))
      @ map Eff (join_unlocked p (slot (p_role ?pr) s0) ?h4))"
    using run_slots [OF f] by simp
  show ?thesis
    unfolding does_def code_of.simps r using active
    by (simp add: join_locked_eq [OF f pu])
qed

lemma code_does: "does c h"
  by (cases c) (simp_all add: does_join does_leave does_forward does_expire does_close)

section \<open>Lock discipline of the methods\<close>

datatype phase = Before | Held | After

primrec obeys :: "prog \<Rightarrow> phase \<Rightarrow> bool" where
  "obeys (MuLock c) = (\<lambda>ph. ph = Before \<and> obeys c Held)"
| "obeys (MuUnlock c) = (\<lambda>ph. ph = Held \<and> obeys c After)"
| "obeys (Look f) = (\<lambda>ph. ph = Held \<and> (\<forall>h. obeys (f h) Held))"
| "obeys (Mutate f c) = (\<lambda>ph. ph = Held \<and> obeys c Held)"
| "obeys (Out x c) = (\<lambda>ph. ph \<noteq> Before \<and> obeys c ph)"
| "obeys Return = (\<lambda>ph. ph = After)"

lemma obeys_outs [simp]: "ph \<noteq> Before \<Longrightarrow> obeys (outs es c) ph = obeys c ph"
  by (induction es) simp_all

lemma obeys_code: "obeys (code_of c) Before"
  by (cases c) (auto simp: join_code_def leave_code_def forward_code_def expire_code_def clear_code_def
      count_code_def pair_code_def with_session_def Let_def split: option.split)

text \<open>After the unlock nothing depends on the registry.\<close>

lemma after_run: "obeys c After \<Longrightarrow> run c h = (h, snd (run c h0))"
  by (induction c arbitrary: h h0) (auto simp: prod_eq_iff)

text \<open>No method reads the gauge.\<close>

primrec blind :: "prog \<Rightarrow> bool" where
  "blind (MuLock c) = blind c"
| "blind (MuUnlock c) = blind c"
| "blind (Look f) = ((\<forall>h a. f (h\<lparr>hb_active := a\<rparr>) = f h) \<and> (\<forall>h. blind (f h)))"
| "blind (Mutate f c) = ((\<forall>h a. f (h\<lparr>hb_active := a\<rparr>) = (f h)\<lparr>hb_active := a\<rparr>) \<and> blind c)"
| "blind (Out x c) = blind c"
| "blind Return = True"

lemma blind_outs [simp]: "blind (outs es c) = blind c"
  by (induction es) simp_all

lemma blind_run: "blind c \<Longrightarrow> run c (h\<lparr>hb_active := a\<rparr>) = ((fst (run c h))\<lparr>hb_active := a\<rparr>, snd (run c h))"
  by (induction c arbitrary: h) simp_all

lemma blind_mutators:
  "on_session k f (h\<lparr>hb_active := a\<rparr>) = (on_session k f h)\<lparr>hb_active := a\<rparr>"
  "stop_lonely_at k (h\<lparr>hb_active := a\<rparr>) = (stop_lonely_at k h)\<lparr>hb_active := a\<rparr>"
  "arm_lonely p k (h\<lparr>hb_active := a\<rparr>) = (arm_lonely p k h)\<lparr>hb_active := a\<rparr>"
  "insert_session k s (h\<lparr>hb_active := a\<rparr>) = (insert_session k s h)\<lparr>hb_active := a\<rparr>"
  "delete_session k (h\<lparr>hb_active := a\<rparr>) = (delete_session k h)\<lparr>hb_active := a\<rparr>"
  by (simp_all add: code_defs split: option.split)

lemma blind_with_session: "(\<And>s. blind (f s)) \<Longrightarrow> blind (with_session k f)"
  by (simp add: with_session_def split: option.split)

lemma blind_pair: "blind rest \<Longrightarrow> blind (pair_code p pr k rest)"
  by (auto simp: pair_code_def blind_mutators split: option.split intro!: blind_with_session)

lemma blind_join: "blind (join_code env p m)"
  by (simp add: join_code_def Let_def blind_mutators cong: if_cong)
     (auto simp: blind_mutators intro!: blind_with_session blind_pair)

lemma blind_leave: "blind (leave_code p)"
  by (simp add: leave_code_def Let_def blind_mutators cong: option.case_cong if_cong) (auto simp: blind_mutators Let_def split: option.split intro!: blind_with_session)

lemma blind_expire: "blind (expire_code p)"
  by (simp add: expire_code_def Let_def blind_mutators cong: option.case_cong if_cong) (auto simp: blind_mutators Let_def split: option.split intro!: blind_with_session)

lemma blind_forward: "blind (forward_code p ft raw)"
  by (simp add: forward_code_def Let_def cong: option.case_cong if_cong) (auto split: option.split)

lemma blind_code: "blind (code_of c)"
  by (cases c) (simp_all add: blind_join blind_leave blind_expire blind_forward clear_code_def count_code_def)

section \<open>Any number of calls, interleaved\<close>

text \<open>
  \<open>lk_code t\<close> is what is left of the call \<open>t\<close>, \<open>lk_out\<close> what the calls have done outside the
  registry, and \<open>lk_order\<close> records the order in which the calls have taken the mutex.
  As in Go, \<open>Unlock\<close> does not ask who holds the mutex; unlocking a free one is a crash, here a
  call that cannot go on.
\<close>

record locks =
  lk_hub :: hub
  lk_owner :: "nat option"
  lk_code :: "nat \<Rightarrow> prog"
  lk_out :: "(nat \<times> out) list"
  lk_order :: "nat list"

definition lk_start :: "(nat \<Rightarrow> call) \<Rightarrow> hub \<Rightarrow> locks" where
  "lk_start calls h =
     \<lparr>lk_hub = h, lk_owner = None, lk_code = (\<lambda>t. code_of (calls t)), lk_out = [], lk_order = []\<rparr>"

inductive lk_step :: "locks \<Rightarrow> nat \<Rightarrow> locks \<Rightarrow> bool" where
  lk_lock:
    "\<lbrakk>lk_owner s = None; lk_code s t = MuLock c\<rbrakk> \<Longrightarrow>
     lk_step s t (s\<lparr>lk_owner := Some t, lk_code := (lk_code s)(t := c), lk_order := lk_order s @ [t]\<rparr>)"
| lk_unlock:
    "\<lbrakk>lk_owner s \<noteq> None; lk_code s t = MuUnlock c\<rbrakk> \<Longrightarrow>
     lk_step s t (s\<lparr>lk_owner := None, lk_code := (lk_code s)(t := c)\<rparr>)"
| lk_look:
    "lk_code s t = Look f \<Longrightarrow> lk_step s t (s\<lparr>lk_code := (lk_code s)(t := f (lk_hub s))\<rparr>)"
| lk_mutate:
    "lk_code s t = Mutate f c \<Longrightarrow>
     lk_step s t (s\<lparr>lk_hub := f (lk_hub s), lk_code := (lk_code s)(t := c)\<rparr>)"
| lk_out:
    "lk_code s t = Out x c \<Longrightarrow>
     lk_step s t (s\<lparr>lk_out := lk_out s @ [(t, x)], lk_code := (lk_code s)(t := c)\<rparr>)"

text \<open>The calls made one after the other, each one indivisible.\<close>

definition serial :: "(nat \<Rightarrow> call) \<Rightarrow> nat list \<Rightarrow> hub \<Rightarrow> hub" where
  "serial calls ts h = fold (\<lambda>t h. fst (atomic (calls t) h)) ts h"

text \<open>The same with the method bodies, which leave the gauge to the outside.\<close>

definition bodies :: "(nat \<Rightarrow> call) \<Rightarrow> nat list \<Rightarrow> hub \<Rightarrow> hub" where
  "bodies calls ts h = fold (\<lambda>t h. fst (run (code_of (calls t)) h)) ts h"

lemma bodies_snoc [simp]:
  "bodies calls [] h = h" "bodies calls (ts @ [t]) h = fst (run (code_of (calls t)) (bodies calls ts h))"
  "serial calls [] h = h" "serial calls (ts @ [t]) h = fst (atomic (calls t) (serial calls ts h))"
  by (simp_all add: bodies_def serial_def)

definition out_of :: "locks \<Rightarrow> nat \<Rightarrow> out list" where
  "out_of s t = map snd (List.filter (\<lambda>x. fst x = t) (lk_out s))"

definition lk_inv :: "(nat \<Rightarrow> call) \<Rightarrow> hub \<Rightarrow> locks \<Rightarrow> bool" where
  "lk_inv calls h s \<longleftrightarrow>
     distinct (lk_order s) \<and> fst ` set (lk_out s) \<subseteq> set (lk_order s)
     \<and> (\<forall>t. t \<notin> set (lk_order s) \<longrightarrow> lk_code s t = code_of (calls t))
     \<and> (\<forall>t\<in>set (lk_order s). obeys (lk_code s t) (if lk_owner s = Some t then Held else After))
     \<and> (case lk_owner s of
          None \<Rightarrow> lk_hub s = bodies calls (lk_order s) h
        | Some t \<Rightarrow> t \<in> set (lk_order s)
            \<and> fst (run (lk_code s t) (lk_hub s)) = bodies calls (lk_order s) h)
     \<and> (\<forall>t xs ys. lk_order s = xs @ t # ys \<longrightarrow>
          out_of s t @ snd (run (lk_code s t) (lk_hub s)) = snd (run (code_of (calls t)) (bodies calls xs h)))"

lemma lk_invD:
  assumes "lk_inv calls h s"
  shows "distinct (lk_order s)" "fst ` set (lk_out s) \<subseteq> set (lk_order s)"
    "t \<notin> set (lk_order s) \<Longrightarrow> lk_code s t = code_of (calls t)"
    "t \<in> set (lk_order s) \<Longrightarrow> obeys (lk_code s t) (if lk_owner s = Some t then Held else After)"
    "lk_owner s = None \<Longrightarrow> lk_hub s = bodies calls (lk_order s) h"
    "lk_owner s = Some t \<Longrightarrow> t \<in> set (lk_order s)"
    "lk_owner s = Some t \<Longrightarrow> fst (run (lk_code s t) (lk_hub s)) = bodies calls (lk_order s) h"
    "lk_order s = xs @ t # ys \<Longrightarrow>
       out_of s t @ snd (run (lk_code s t) (lk_hub s)) = snd (run (code_of (calls t)) (bodies calls xs h))"
  using assms by (auto simp: lk_inv_def)

text \<open>A call that is not waiting for the mutex has taken it; one at a registry access holds it.\<close>

lemma code_starts: "\<exists>c. code_of x = MuLock c \<and> obeys c Held"
  using obeys_code [of x] by (cases "code_of x") simp_all

lemma lk_holder:
  assumes "lk_inv calls h s"
  shows "lk_code s t = MuUnlock c \<Longrightarrow> lk_owner s = Some t"
    "lk_code s t = Look f \<Longrightarrow> lk_owner s = Some t" "lk_code s t = Mutate g c \<Longrightarrow> lk_owner s = Some t"
    "lk_code s t = Out x c \<Longrightarrow> t \<in> set (lk_order s)"
    "lk_code s t = MuLock c \<Longrightarrow> t \<notin> set (lk_order s)"
  using lk_invD(3,4) [OF assms, of t] code_starts [of "calls t"]
  by (cases "t \<in> set (lk_order s)"; force split: if_splits)+

text \<open>What is left of a call that has released the mutex does not depend on the registry.\<close>

lemma lk_indep:
  assumes "lk_inv calls h s" "t \<in> set (lk_order s)" "lk_owner s \<noteq> Some t"
  shows "snd (run (lk_code s t) a) = snd (run (lk_code s t) b)"
  using lk_invD(4) [OF assms(1,2)] assms(3) after_run [of "lk_code s t" a b] by simp

lemma lk_start_inv: "lk_inv calls h (lk_start calls h)"
  by (simp add: lk_inv_def lk_start_def)

lemma snoc_split: "ys @ [a] = us @ b # vs \<longleftrightarrow> (vs = [] \<and> us = ys \<and> b = a) \<or> (\<exists>ws. vs = ws @ [a] \<and> ys = us @ b # ws)"
  by (cases vs rule: rev_cases) auto

lemma out_of_none: "lk_inv calls h s \<Longrightarrow> t \<notin> set (lk_order s) \<Longrightarrow> out_of s t = []"
  using lk_invD(2) [of calls h s] by (force simp: out_of_def filter_empty_conv)

lemma lk_lock_inv:
  assumes inv: "lk_inv calls h s" and o: "lk_owner s = None" and c: "lk_code s t = MuLock c"
  shows "lk_inv calls h (s\<lparr>lk_owner := Some t, lk_code := (lk_code s)(t := c), lk_order := lk_order s @ [t]\<rparr>)"
proof -
  have t: "t \<notin> set (lk_order s)" by (rule lk_holder(5) [OF inv c])
  then have m: "code_of (calls t) = MuLock c" "obeys c Held"
    using lk_invD(3) [OF inv t] c code_starts [of "calls t"] by auto
  note hub = lk_invD(5) [OF inv o]
  have obey: "obeys (lk_code s u) After" if "u \<in> set (lk_order s)" for u
    using lk_invD(4) [OF inv that] o by simp
  show ?thesis unfolding lk_inv_def
    using lk_invD(1,2,3) [OF inv] t m hub obey lk_invD(8) [OF inv] out_of_none [OF inv t]
    by (auto simp: snoc_split out_of_def)
qed

text \<open>A step of the holder that leaves it the holder.\<close>

lemma lk_inside:
  assumes inv: "lk_inv calls h s" and o: "lk_owner s = Some t"
    and c: "obeys c Held" and r: "run c g = run (lk_code s t) (lk_hub s)"
  shows "lk_inv calls h (s\<lparr>lk_hub := g, lk_code := (lk_code s)(t := c)\<rparr>)"
proof -
  have "snd (run (lk_code s u) g) = snd (run (lk_code s u) (lk_hub s))" if "u \<in> set (lk_order s)" "u \<noteq> t" for u
    using lk_indep [OF inv that(1)] that(2) o by simp
  then have outs: "out_of s u @ snd (run (if u = t then c else lk_code s u) g)
      = snd (run (code_of (calls u)) (bodies calls xs h))" if "lk_order s = xs @ u # ys" for u xs ys
    using lk_invD(8) [OF inv that] that r by auto
  have obey: "obeys (lk_code s u) After" if "u \<in> set (lk_order s)" "u \<noteq> t" for u
    using lk_invD(4) [OF inv that(1)] that(2) o by simp
  show ?thesis unfolding lk_inv_def
    using lk_invD(1-3,6,7) [OF inv] o c r outs obey by (auto simp: out_of_def)
qed

lemma lk_out_inv:
  assumes inv: "lk_inv calls h s" and c: "lk_code s t = Out x c"
  shows "lk_inv calls h (s\<lparr>lk_out := lk_out s @ [(t, x)], lk_code := (lk_code s)(t := c)\<rparr>)"
proof -
  have t: "t \<in> set (lk_order s)" by (rule lk_holder(4) [OF inv c])
  then have "obeys c (if lk_owner s = Some t then Held else After)"
    using lk_invD(4) [OF inv t] c by (simp split: if_splits)
  then have obey: "obeys (if u = t then c else lk_code s u) (if lk_owner s = Some u then Held else After)"
    if "u \<in> set (lk_order s)" for u using lk_invD(4) [OF inv that] by (auto split: if_splits)
  have outs: "out_of (s\<lparr>lk_out := lk_out s @ [(t, x)], lk_code := (lk_code s)(t := c)\<rparr>) u =
      out_of s u @ (if u = t then [x] else [])" for u by (simp add: out_of_def)
  have mine: "snd (run (code_of (calls t)) (bodies calls xs h)) = out_of s t @ x # snd (run c (lk_hub s))"
    if "lk_order s = xs @ t # ys" for xs ys using lk_invD(8) [OF inv that] c by simp
  have same: "fst (run c (lk_hub s)) = fst (run (lk_code s t) (lk_hub s))" using c by simp
  show ?thesis unfolding lk_inv_def outs
    using lk_invD(1-3,5-8) [OF inv] t obey mine same by (auto split: option.split)
qed

lemma lk_unlock_inv:
  assumes inv: "lk_inv calls h s" and c: "lk_code s t = MuUnlock c"
  shows "lk_inv calls h (s\<lparr>lk_owner := None, lk_code := (lk_code s)(t := c)\<rparr>)"
proof -
  have o: "lk_owner s = Some t" by (rule lk_holder(1) [OF inv c])
  then have a: "obeys c After" using lk_invD(4,6) [OF inv, of t] c by simp
  have hub: "lk_hub s = bodies calls (lk_order s) h"
    using lk_invD(7) [OF inv o] after_run [OF a, of "lk_hub s" "lk_hub s"] c by (simp add: prod_eq_iff)
  have obey: "obeys (lk_code s u) After" if "u \<in> set (lk_order s)" "u \<noteq> t" for u
    using lk_invD(4) [OF inv that(1)] that(2) o by simp
  have outs: "out_of s t @ snd (run c (lk_hub s)) = snd (run (code_of (calls t)) (bodies calls xs h))"
    if "lk_order s = xs @ t # ys" for xs ys using lk_invD(8) [OF inv that] c by simp
  show ?thesis unfolding lk_inv_def
    using lk_invD(1-3,8) [OF inv] lk_invD(6) [OF inv o] a hub obey outs by (auto simp: out_of_def)
qed

lemma lk_step_inv: "lk_step s t s' \<Longrightarrow> lk_inv calls h s \<Longrightarrow> lk_inv calls h s'"
proof (induction rule: lk_step.induct)
  case (lk_look s t f)
  have o: "lk_owner s = Some t" by (rule lk_holder(2) [OF lk_look(2,1)])
  have "obeys (f (lk_hub s)) Held" using lk_invD(4,6) [OF lk_look(2), of t] o lk_look(1) by simp
  from lk_inside [OF lk_look(2) o this, of "lk_hub s"] show ?case by (simp add: lk_look(1))
next
  case (lk_mutate s t f c)
  have o: "lk_owner s = Some t" by (rule lk_holder(3) [OF lk_mutate(2,1)])
  have "obeys c Held" using lk_invD(4,6) [OF lk_mutate(2), of t] o lk_mutate(1) by simp
  from lk_inside [OF lk_mutate(2) o this, of "f (lk_hub s)"] show ?case by (simp add: lk_mutate(1))
qed (blast intro: lk_lock_inv lk_unlock_inv lk_out_inv)+

lemma lk_reach: "lrun lk_step (lk_start calls h) ls s \<Longrightarrow> lk_inv calls h s"
  by (induction "lk_start calls h" ls s rule: lrun.induct) (auto intro: lk_start_inv lk_step_inv)

section \<open>The holder reaches its unlock, and every call its end\<close>

lemmas lk_one = lrun_one [of lk_step]
lemmas lk_Cons = lrun_Cons [of lk_step]

lemma held_runs:
  "obeys c Held \<Longrightarrow> lk_code s t = c \<Longrightarrow> lk_owner s \<noteq> None \<Longrightarrow>
   \<exists>ls s'. lrun lk_step s ls s' \<and> set ls \<subseteq> {t} \<and> lk_owner s' = None \<and> obeys (lk_code s' t) After
     \<and> (\<forall>u. u \<noteq> t \<longrightarrow> lk_code s' u = lk_code s u)"
proof (induction c arbitrary: s)
  case (MuUnlock c)
  let ?s = "s\<lparr>lk_owner := None, lk_code := (lk_code s)(t := c)\<rparr>"
  have "lrun lk_step s [t] ?s" using MuUnlock.prems by (intro lk_one lk_unlock) simp_all
  then show ?case using MuUnlock.prems by (intro exI [of _ "[t]"] exI [of _ ?s]) simp
next
  case (Look f)
  let ?s = "s\<lparr>lk_code := (lk_code s)(t := f (lk_hub s))\<rparr>"
  obtain ls s' where "lrun lk_step ?s ls s'" "set ls \<subseteq> {t}" "lk_owner s' = None" "obeys (lk_code s' t) After"
    "\<forall>u. u \<noteq> t \<longrightarrow> lk_code s' u = lk_code ?s u"
    using Look.IH [of "f (lk_hub s)" ?s] Look.prems by auto
  then show ?case using lk_Cons [OF lk_look [OF Look.prems(2)]] by (intro exI [of _ "t # ls"] exI [of _ s']) simp
next
  case (Mutate f c)
  let ?s = "s\<lparr>lk_hub := f (lk_hub s), lk_code := (lk_code s)(t := c)\<rparr>"
  obtain ls s' where "lrun lk_step ?s ls s'" "set ls \<subseteq> {t}" "lk_owner s' = None" "obeys (lk_code s' t) After"
    "\<forall>u. u \<noteq> t \<longrightarrow> lk_code s' u = lk_code ?s u"
    using Mutate.IH [of ?s] Mutate.prems by auto
  then show ?case using lk_Cons [OF lk_mutate [OF Mutate.prems(2)]]
    by (intro exI [of _ "t # ls"] exI [of _ s']) simp
next
  case (Out x c)
  let ?s = "s\<lparr>lk_out := lk_out s @ [(t, x)], lk_code := (lk_code s)(t := c)\<rparr>"
  obtain ls s' where "lrun lk_step ?s ls s'" "set ls \<subseteq> {t}" "lk_owner s' = None" "obeys (lk_code s' t) After"
    "\<forall>u. u \<noteq> t \<longrightarrow> lk_code s' u = lk_code ?s u"
    using Out.IH [of ?s] Out.prems by auto
  then show ?case using lk_Cons [OF lk_out [OF Out.prems(2)]]
    by (intro exI [of _ "t # ls"] exI [of _ s']) simp
qed simp_all

lemma after_runs:
  "obeys c After \<Longrightarrow> lk_code s t = c \<Longrightarrow> \<exists>ls s'. lrun lk_step s ls s' \<and> lk_code s' t = Return"
proof (induction c arbitrary: s)
  case (Out x c)
  let ?s = "s\<lparr>lk_out := lk_out s @ [(t, x)], lk_code := (lk_code s)(t := c)\<rparr>"
  obtain ls s' where "lrun lk_step ?s ls s'" "lk_code s' t = Return"
    using Out.IH [of ?s] Out.prems by auto
  then show ?case using lk_Cons [OF lk_out [OF Out.prems(2)]] by blast
next
  case Return
  then show ?case using lrun_nil [of lk_step s] by blast
qed simp_all

lemma every_call_ends:
  assumes inv: "lk_inv calls h s"
  shows "\<exists>ls s'. lrun lk_step s ls s' \<and> lk_code s' t = Return"
proof -
  have ends: "\<exists>ls s'. lrun lk_step a ls s' \<and> lk_code s' t = Return"
    if o: "lk_owner a = Some t" and c: "obeys (lk_code a t) Held" for a
  proof -
    obtain ls b where b: "lrun lk_step a ls b" "obeys (lk_code b t) After"
      using held_runs [OF c refl] o by auto
    then show ?thesis using after_runs [OF b(2) refl] lrun_append [OF _ b(1)] by blast
  qed
  have begins: "\<exists>ls s'. lrun lk_step a ls s' \<and> lk_code s' t = Return"
    if "lk_owner a = None" "lk_code a t = code_of (calls t)" for a
  proof -
    obtain c where c: "code_of (calls t) = MuLock c" "obeys c Held" using code_starts by blast
    let ?b = "a\<lparr>lk_owner := Some t, lk_code := (lk_code a)(t := c), lk_order := lk_order a @ [t]\<rparr>"
    have "lk_step a t ?b" using that c by (intro lk_lock) simp_all
    then show ?thesis using ends [of ?b] c(2) lk_Cons [of a t ?b] by auto
  qed
  show ?thesis
  proof (cases "lk_owner s")
    case None
    then show ?thesis using begins [of s] lk_invD(3,4) [OF inv, of t] after_runs [of "lk_code s t" s t] by fastforce
  next
    case (Some u)
    have u: "u \<in> set (lk_order s)" "obeys (lk_code s u) Held"
      using lk_invD(4,6) [OF inv, of u] Some by simp_all
    show ?thesis
    proof (cases "t \<in> set (lk_order s)")
      case True
      then show ?thesis using ends [of s] after_runs [of "lk_code s t" s t] lk_invD(4) [OF inv True] Some u
        by (cases "t = u") auto
    next
      case False
      obtain ls b where b: "lrun lk_step s ls b" "lk_owner b = None" "\<forall>v. v \<noteq> u \<longrightarrow> lk_code b v = lk_code s v"
        using held_runs [OF u(2) refl] Some by auto
      have "t \<noteq> u" using False u(1) by blast
      then have "lk_code b t = code_of (calls t)" using b(3) lk_invD(3) [OF inv False] by simp
      then show ?thesis using begins [OF b(2)] lrun_append [OF _ b(1)] by blast
    qed
  qed
qed

section \<open>The calls in the order of the mutex\<close>

lemma run_active: "hb_active (fst (run (code_of c) h)) = hb_active h"
  using code_does [of c h] by (simp add: does_def split_beta Let_def)

lemma bodies_active: "hb_active (bodies calls ts h) = hb_active h"
  by (induction ts rule: rev_induct) (simp_all add: run_active)

lemma atomic_run:
  "atomic c (h\<lparr>hb_active := a\<rparr>) =
     ((fst (run (code_of c) h))\<lparr>hb_active := a + gauge (snd (run (code_of c) h))\<rparr>, effects (snd (run (code_of c) h)))"
  using code_does [of c "h\<lparr>hb_active := a\<rparr>"] blind_run [OF blind_code, where c1 = c and h = h and a = a]
  by (simp add: does_def split_beta Let_def)

lemma serial_bodies: "serial calls ts h = (bodies calls ts h)\<lparr>hb_active := hb_active (serial calls ts h)\<rparr>"
proof (induction ts rule: rev_induct)
  case (snoc t ts)
  show ?case using atomic_run [where c = "calls t" and h = "bodies calls ts h" and a = "hb_active (serial calls ts h)"]
    by (simp flip: snoc)
qed simp

lemma serial_snoc:
  "hb_active (serial calls (ts @ [t]) h) =
     hb_active (serial calls ts h) + gauge (snd (run (code_of (calls t)) (bodies calls ts h)))"
  "snd (atomic (calls t) (serial calls ts h)) = effects (snd (run (code_of (calls t)) (bodies calls ts h)))"
  using atomic_run [where c = "calls t" and h = "bodies calls ts h" and a = "hb_active (serial calls ts h)"] serial_bodies [of calls ts h]
  by simp_all

lemma gauge_by_call:
  "distinct ts \<Longrightarrow> fst ` set xs \<subseteq> set ts \<Longrightarrow>
   gauge (map snd xs) = sum_list (map (\<lambda>t. gauge (map snd (List.filter (\<lambda>x. fst x = t) xs))) ts)"
proof (induction xs)
  case (Cons x xs)
  have "sum_list (map (\<lambda>t. gauge (map snd (List.filter (\<lambda>y. fst y = t) (x # xs)))) ts) =
      sum_list (map (\<lambda>t. (if t = fst x then gauge [snd x] else 0)
        + gauge (map snd (List.filter (\<lambda>y. fst y = t) xs))) ts)"
    by (rule arg_cong [where f = sum_list]) (auto simp: gauge_def)
  also have "\<dots> = sum_list (map (\<lambda>t. if t = fst x then gauge [snd x] else 0) ts) + gauge (map snd xs)"
    using Cons by (simp add: sum_list_addf)
  also have "sum_list (map (\<lambda>t. if t = fst x then gauge [snd x] else 0) ts) = gauge [snd x]"
    using Cons.prems by (simp add: sum_list_distinct_conv_sum_set)
  finally show ?case by (simp add: gauge_def)
qed simp

lemma finished_gauge:
  assumes inv: "lk_inv calls h s" and fin: "\<forall>t\<in>set (lk_order s). lk_code s t = Return"
  shows "lk_order s = xs @ ys \<Longrightarrow>
    hb_active (serial calls xs h) = hb_active h + sum_list (map (\<lambda>t. gauge (out_of s t)) xs)"
proof (induction xs arbitrary: ys rule: rev_induct)
  case (snoc t xs)
  have "out_of s t = snd (run (code_of (calls t)) (bodies calls xs h))"
    using lk_invD(8) [OF inv, of xs t ys] snoc.prems fin by simp
  then show ?case using snoc.IH [of "t # ys"] snoc.prems
    by (simp add: serial_snoc add.assoc del: bodies_snoc)
qed simp

section \<open>Properties\<close>

text \<open>C16: Whatever calls run and however they are interleaved, the registry is read and written
  only by the call that holds the mutex, and no call unlocks a mutex it does not hold.  The holder
  reaches its unlock on its own, whichever return it takes, without any other call having
  to move; so every call can always run to its end.\<close>

theorem hub_lock_discipline:
  assumes "lrun lk_step (lk_start calls h) ls s"
  shows "(\<forall>t f g c. lk_code s t = Look f \<or> lk_code s t = Mutate g c \<or> lk_code s t = MuUnlock c \<longrightarrow>
        lk_owner s = Some t)
    \<and> (\<forall>t. lk_owner s = Some t \<longrightarrow>
        (\<exists>own s'. lrun lk_step s own s' \<and> set own \<subseteq> {t} \<and> lk_owner s' = None
           \<and> (\<forall>u. u \<noteq> t \<longrightarrow> lk_code s' u = lk_code s u)))
    \<and> (\<forall>t. \<exists>more s'. lrun lk_step s more s' \<and> lk_code s' t = Return)"
proof (intro conjI allI impI)
  note inv = lk_reach [OF assms]
  show "lk_owner s = Some t" if "lk_code s t = Look f \<or> lk_code s t = Mutate g c \<or> lk_code s t = MuUnlock c" for t f g c
    using lk_holder(1-3) [OF inv, of t] that by blast
  show "\<exists>own s'. lrun lk_step s own s' \<and> set own \<subseteq> {t} \<and> lk_owner s' = None
      \<and> (\<forall>u. u \<noteq> t \<longrightarrow> lk_code s' u = lk_code s u)" if "lk_owner s = Some t" for t
  proof -
    have "obeys (lk_code s t) Held" using lk_invD(4,6) [OF inv, of t] that by simp
    then show ?thesis using held_runs [of "lk_code s t" s t] that by auto
  qed
  show "\<exists>more s'. lrun lk_step s more s' \<and> lk_code s' t = Return" for t by (rule every_call_ends [OF inv])
qed

theorem hub_lock_discipline_witness:
  "\<exists>s own s'. lrun lk_step (lk_start (\<lambda>_. CLeave 0) (w_hub demo_world2)) [7] s \<and> lk_owner s = Some 7
     \<and> lrun lk_step s own s' \<and> lk_owner s' = None"
proof -
  let ?s = "lk_start (\<lambda>_. CLeave 0) (w_hub demo_world2)"
  have "lk_code ?s 7 = leave_code 0" "lk_owner ?s = None" by (simp_all add: lk_start_def)
  then obtain t where t: "lk_step ?s 7 t" "lk_owner t = Some 7"
    using lk_lock [of ?s 7] by (fastforce simp: leave_code_def)
  from hub_lock_discipline [OF lk_one [OF t(1)]] show ?thesis using t lk_one [OF t(1)] by blast
qed

text \<open>C17: Every interleaving of joins, leaves, forwards, expiries, \<open>Close\<close> and counts is
  equivalent to making the calls one after the other, each indivisible, in the order in which they
  took the mutex.  While nobody holds it the registry is that of the serial calls (the
  gauge apart, which \<open>Close\<close> lowers after its unlock); a call that has returned has done to
  queues, counters and log just what it does at its place in that order; and when all have returned
  the gauge has moved by what the calls added to it.\<close>

theorem hub_calls_are_linearizable:
  assumes "lrun lk_step (lk_start calls h) ls s"
  shows "distinct (lk_order s)
    \<and> (lk_owner s = None \<longrightarrow> lk_hub s = (serial calls (lk_order s) h)\<lparr>hb_active := hb_active h\<rparr>)
    \<and> (\<forall>t xs ys. lk_order s = xs @ t # ys \<and> lk_code s t = Return \<longrightarrow>
         effects (out_of s t) = snd (atomic (calls t) (serial calls xs h)))
    \<and> ((\<forall>t\<in>set (lk_order s). lk_code s t = Return) \<longrightarrow>
         hb_active (serial calls (lk_order s) h) = hb_active h + gauge (map snd (lk_out s)))"
proof (intro conjI allI impI)
  note inv = lk_reach [OF assms]
  show "distinct (lk_order s)" by (rule lk_invD(1) [OF inv])
  have "bodies calls ts h = (serial calls ts h)\<lparr>hb_active := hb_active h\<rparr>" for ts
    by (subst serial_bodies) (simp flip: bodies_active [of calls ts h])
  then show "lk_hub s = (serial calls (lk_order s) h)\<lparr>hb_active := hb_active h\<rparr>" if "lk_owner s = None"
    using lk_invD(5) [OF inv that] by simp
  show "effects (out_of s t) = snd (atomic (calls t) (serial calls xs h))"
    if "lk_order s = xs @ t # ys \<and> lk_code s t = Return" for t xs ys
    using lk_invD(8) [OF inv, of xs t ys] that by (simp add: serial_snoc)
  show "hb_active (serial calls (lk_order s) h) = hb_active h + gauge (map snd (lk_out s))"
    if "\<forall>t\<in>set (lk_order s). lk_code s t = Return"
    using finished_gauge [OF inv that, of "lk_order s" "[]"] gauge_by_call [OF lk_invD(1,2) [OF inv]]
    by (simp add: out_of_def)
qed

theorem hub_calls_are_linearizable_witness:
  "\<exists>ls s xs. lrun lk_step (lk_start (\<lambda>_. CLeave 0) (w_hub demo_world2)) ls s \<and> lk_code s 3 = Return
     \<and> effects (out_of s 3) = snd (leave_locked 0 (serial (\<lambda>_. CLeave 0) xs (w_hub demo_world2)))"
proof -
  let ?calls = "\<lambda>_. CLeave 0" let ?h = "w_hub demo_world2"
  obtain ls s where s: "lrun lk_step (lk_start ?calls ?h) ls s" "lk_code s 3 = Return"
    using every_call_ends [OF lk_start_inv, of ?calls ?h 3] by blast
  have "3 \<in> set (lk_order s)" using lk_invD(3) [OF lk_reach [OF s(1)], of 3] s(2) by (auto simp: leave_code_def)
  then obtain xs ys where "lk_order s = xs @ 3 # ys" by (auto simp: in_set_conv_decomp)
  then have "effects (out_of s 3) = snd (atomic (?calls 3) (serial ?calls xs ?h))"
    using hub_calls_are_linearizable [OF s(1)] s(2) by blast
  then show ?thesis using s by auto
qed

end
