(* ===== verification/StunProps.thy ===== *)
theory StunProps
  imports Stun
begin

text \<open>
  No datagram makes the STUN reader panic; the attribute walk is a fold over the list of
  attributes; and the mapped address that the log reports is the one the server encoded.
\<close>

section \<open>Reads that are in range\<close>

lemma read16_total: "off + 2 \<le> length b \<Longrightarrow> \<exists>w. read16 b off = Some w"
  using uint16_be_total [of "take 2 (drop off b)"] by (auto simp: read16_def slice_simps)

lemma stunMessageType_total: "\<exists>t. stunMessageType b = Some t"
proof (cases "length b < stunHeaderLen")
  case False
  then have "20 \<le> length b" by (simp add: stunHeaderLen_def)
  then show ?thesis
    using uint32_be_total [of "take 4 (drop 4 b)"] uint16_be_total [of "take 2 b"]
    by (auto simp: stunMessageType_def slice_simps)
qed (simp add: stunMessageType_def)

section \<open>The list of attributes\<close>

text \<open>
  The specification: the attributes of a message as a list of type, offset and value.
  It stops at the end of the message, or at an attribute that does not fit.
\<close>

definition u16_at :: "bytes \<Rightarrow> nat \<Rightarrow> 16 word" where
  "u16_at b off = (case read16 b off of Some w \<Rightarrow> w | None \<Rightarrow> 0)"

function attrs_from :: "bytes \<Rightarrow> nat \<Rightarrow> nat \<Rightarrow> (16 word \<times> nat \<times> bytes) list" where
  "attrs_from msg end off =
     (if off + 4 \<le> end \<and> off + 4 + unat (u16_at msg (off + 2)) \<le> end
      then (u16_at msg off, off, take (unat (u16_at msg (off + 2))) (drop (off + 4) msg))
             # attrs_from msg end (off + attr_advance (unat (u16_at msg (off + 2))))
      else [])"
  by pat_completeness auto
termination by (relation "measure (\<lambda>(msg, end, off). end - off)") (auto simp: attr_advance_def)

declare attrs_from.simps [simp del]

definition msg_end :: "bytes \<Rightarrow> nat" where
  "msg_end msg = min (20 + unat (u16_at msg 2)) (length msg)"

definition attributes :: "bytes \<Rightarrow> (16 word \<times> nat \<times> bytes) list" where
  "attributes msg = (if length msg < 20 then [] else attrs_from msg (msg_end msg) 20)"

text \<open>Running a callback over the list until it says stop.\<close>

fun run_attrs :: "'s attr_fn \<Rightarrow> (16 word \<times> nat \<times> bytes) list \<Rightarrow> 's \<Rightarrow> 's" where
  "run_attrs fn [] st = st"
| "run_attrs fn ((ty, off, v) # as) st =
     (case fn ty off v st of (st', go) \<Rightarrow> if go then run_attrs fn as st' else st')"

lemma attr_loop_run:
  assumes "end \<le> length msg"
  shows "attr_loop fn msg end off st = Some (run_attrs fn (attrs_from msg end off) st)"
  using assms
proof (induction fn msg "end" off st rule: attr_loop.induct)
  case (1 fn msg "end" off st)
  show ?case
  proof (cases "off + 4 \<le> end")
    case True
    then obtain ty len where r: "read16 msg off = Some ty" "read16 msg (off + 2) = Some len"
      using read16_total [of off msg] read16_total [of "off + 2" msg] "1.prems" by auto
    then have u: "u16_at msg off = ty" "u16_at msg (off + 2) = len" by (simp_all add: u16_at_def)
    show ?thesis
    proof (cases "off + 4 + unat len > end")
      case True
      then show ?thesis using \<open>off + 4 \<le> end\<close>
        by (simp add: attr_loop.simps [of fn msg "end" off] attrs_from.simps [of msg "end" off]
            r [simplified] u [simplified])
    next
      case False
      then have s: "slice msg (off + 4) (off + 4 + unat len) = Some (take (unat len) (drop (off + 4) msg))"
        using "1.prems" by (simp add: slice_simps)
      obtain st' go where f: "fn ty off (take (unat len) (drop (off + 4) msg)) st = (st', go)" by force
      show ?thesis
        using False True "1.IH" [OF True r False s f [symmetric]] "1.prems"
        by (simp add: attr_loop.simps [of fn msg "end" off] attrs_from.simps [of msg "end" off] r [simplified] u [simplified] s f)
    qed
  qed (simp add: attr_loop.simps attrs_from.simps)
qed

lemma forEachAttribute_run: "forEachAttribute msg fn st = Some (run_attrs fn (attributes msg) st)"
proof (cases "length msg < 20")
  case False
  then obtain l where l: "read16 msg 2 = Some l" using read16_total [of 2 msg] by auto
  have e: "(if 20 + unat l \<le> length msg then 20 + unat l else length msg) = msg_end msg"
    by (simp add: msg_end_def u16_at_def l)
  have "msg_end msg \<le> length msg" by (simp add: msg_end_def)
  from attr_loop_run [OF this] show ?thesis
    using False by (simp add: forEachAttribute_def stunHeaderLen_def l Let_def e attributes_def)
qed (simp add: forEachAttribute_def stunHeaderLen_def attributes_def)

text \<open>Where the attributes lie.\<close>

lemma attrs_from_range:
  "(ty, o', v) \<in> set (attrs_from msg end off) \<Longrightarrow> end \<le> length msg \<Longrightarrow>
   off \<le> o' \<and> o' + 4 + length v \<le> end \<and> v = take (length v) (drop (o' + 4) msg)
   \<and> ty = u16_at msg o' \<and> length v = unat (u16_at msg (o' + 2))"
proof (induction msg "end" off rule: attrs_from.induct)
  case (1 msg "end" off)
  show ?case
    using "1.prems" "1.IH"
    by (subst (asm) attrs_from.simps) (force simp: attr_advance_def split: if_splits)
qed

lemma attributes_range:
  assumes "(ty, off, v) \<in> set (attributes msg)"
  shows "20 \<le> off" "off + 4 + length v \<le> length msg" "v = take (length v) (drop (off + 4) msg)"
    "ty = u16_at msg off"
proof -
  have "20 \<le> length msg" "(ty, off, v) \<in> set (attrs_from msg (msg_end msg) 20)"
    using assms by (auto simp: attributes_def split: if_splits)
  moreover have "msg_end msg \<le> length msg" by (simp add: msg_end_def)
  ultimately show "20 \<le> off" "off + 4 + length v \<le> length msg" "v = take (length v) (drop (off + 4) msg)"
    "ty = u16_at msg off"
    using attrs_from_range [of ty off v msg "msg_end msg" 20] by auto
qed

section \<open>Decoding addresses\<close>

lemma xor_mask_total: "20 \<le> length msg \<Longrightarrow> \<exists>m. xor_mask msg = Some m"
  by (auto simp: xor_mask_def transactionIDOffsetHigh_def slice_simps)

lemma decodeAddress_total:
  assumes "20 \<le> length msg"
  shows "\<exists>s. decodeAddress value msg x = Some s"
proof -
  obtain m where m: "xor_mask msg = Some m" using xor_mask_total [OF assms] by blast
  have r: "\<exists>w. read16 value 2 = Some w" if "4 \<le> length value" using read16_total [of 2 "value"] that by simp
  show ?thesis using r
    by (auto simp: decodeAddress_def Let_def slice_simps index_in_range m not_less split: if_splits)
qed

lemma run_mapped_total:
  assumes "20 \<le> length b"
  shows "\<exists>a. run_attrs (mapped_fn b) xs (Some s) = Some a"
proof (induction xs arbitrary: s)
  case (Cons x xs)
  obtain ty off v where x: "x = (ty, off, v)" by (cases x)
  have "\<exists>s' go. mapped_fn b ty off v (Some s) = (Some s', go)"
    using decodeAddress_total [OF assms, of v True] decodeAddress_total [OF assms, of v False]
    by (auto simp: mapped_fn_def Let_def)
  then obtain s' go where f: "mapped_fn b ty off v (Some s) = (Some s', go)" by blast
  show ?case using Cons.IH [of s'] by (simp add: x f)
qed simp

lemma mappedAddress_total: "\<exists>s. mappedAddress b = Some s"
proof (cases "length b < 20")
  case True
  then show ?thesis by (simp add: mappedAddress_def forEachAttribute_def stunHeaderLen_def)
next
  case False
  then show ?thesis
    using run_mapped_total [of b "attributes b" "[]"] by (simp add: mappedAddress_def forEachAttribute_run)
qed

section \<open>Messages as a server encodes them\<close>

text \<open>RFC 5389, section 15: type, length of the value before padding, the value, and padding up to a
  multiple of four bytes.\<close>

definition encode_attr :: "16 word \<times> bytes \<Rightarrow> bytes" where
  "encode_attr a =
     (case a of (ty, v) \<Rightarrow> put16_be ty @ put16_be (of_nat (length v)) @ v
        @ replicate ((4 - length v mod 4) mod 4) 0)"

definition encode_attrs :: "(16 word \<times> bytes) list \<Rightarrow> bytes" where
  "encode_attrs as = concat (map encode_attr as)"

text \<open>Any header: \<open>mid\<close> is the cookie and the transaction id of a STUN message.\<close>

definition stun_like :: "16 word \<Rightarrow> bytes \<Rightarrow> (16 word \<times> bytes) list \<Rightarrow> bytes" where
  "stun_like ty mid as =
     put16_be ty @ put16_be (of_nat (length (encode_attrs as))) @ mid @ encode_attrs as"

definition stun_message :: "16 word \<Rightarrow> bytes \<Rightarrow> (16 word \<times> bytes) list \<Rightarrow> bytes" where
  "stun_message ty tid as = stun_like ty (put32_be stunMagicCookie @ tid) as"

fun with_offsets :: "nat \<Rightarrow> (16 word \<times> bytes) list \<Rightarrow> (16 word \<times> nat \<times> bytes) list" where
  "with_offsets off [] = []"
| "with_offsets off ((ty, v) # as) = (ty, off, v) # with_offsets (off + attr_advance (length v)) as"

lemma length_put32_be [simp]: "length (put32_be w) = 4"
  by (simp add: put32_be_def)

lemma length_encode_attr [simp]: "length (encode_attr (ty, v)) = attr_advance (length v)"
proof -
  have "(4 - n mod 4) mod 4 = (if n mod 4 \<noteq> 0 then 4 - n mod 4 else 0)" for n :: nat
    by (simp add: mod_less)
  then show ?thesis by (simp add: encode_attr_def attr_advance_def)
qed

lemma encode_attrs_simps [simp]:
  "encode_attrs [] = []" "encode_attrs (a # as) = encode_attr a @ encode_attrs as"
  by (simp_all add: encode_attrs_def)

lemma read16_put16:
  "read16 (xs @ put16_be w @ ys) (length xs) = Some w"
  using uint16_be_put16 [of w "[]"] by (simp add: read16_def slice_def)

lemma unat_len16: "n < 65536 \<Longrightarrow> unat (of_nat n :: 16 word) = n"
  by (simp add: unat_of_nat)

lemma attrs_from_encode:
  "(\<And>ty v. (ty, v) \<in> set as \<Longrightarrow> length v < 65536) \<Longrightarrow>
   attrs_from (pre @ encode_attrs as) (length pre + length (encode_attrs as)) (length pre)
     = with_offsets (length pre) as"
proof (induction as arbitrary: pre)
  case Nil
  then show ?case by (simp add: attrs_from.simps encode_attrs_def)
next
  case (Cons a as)
  obtain ty v where a: "a = (ty, v)" by (cases a)
  have v: "length v < 65536" using Cons.prems a by auto
  let ?pad = "replicate ((4 - length v mod 4) mod 4) (0 :: byte)"
  have msg: "pre @ encode_attrs (a # as) = pre @ put16_be ty @ put16_be (of_nat (length v)) @ v @ ?pad @ encode_attrs as"
    by (simp add: encode_attrs_def encode_attr_def a)
  have 1: "u16_at (pre @ encode_attrs (a # as)) (length pre) = ty"
    by (simp only: msg u16_at_def read16_put16 option.case)
  have 2: "u16_at (pre @ encode_attrs (a # as)) (length pre + 2) = of_nat (length v)"
    using read16_put16 [of "pre @ put16_be ty" "of_nat (length v)" "v @ ?pad @ encode_attrs as"]
    by (simp only: msg u16_at_def append_assoc length_append length_put16_be option.case)
  have 3: "take (length v) (drop (length pre + 4) (pre @ encode_attrs (a # as))) = v"
    unfolding msg by simp
  have len: "length (encode_attrs (a # as)) = attr_advance (length v) + length (encode_attrs as)"
    by (simp add: encode_attrs_def a)
  have adv: "4 + length v \<le> attr_advance (length v)" by (simp add: attr_advance_def)
  have ih: "attrs_from ((pre @ encode_attr a) @ encode_attrs as)
      (length (pre @ encode_attr a) + length (encode_attrs as)) (length (pre @ encode_attr a))
     = with_offsets (length (pre @ encode_attr a)) as"
    using Cons.prems by (intro Cons.IH) auto
  let ?M = "pre @ encode_attrs (a # as)" let ?E = "length pre + length (encode_attrs (a # as))"
  have "length pre + 4 + length v \<le> ?E" "length pre + 4 \<le> ?E" using adv len by simp_all
  then have "attrs_from ?M ?E (length pre) = (ty, length pre, v) # attrs_from ?M ?E (length pre + attr_advance (length v))"
    by (subst attrs_from.simps) (simp only: 1 2 3 unat_len16 [OF v], simp)
  moreover have "(pre @ encode_attr a) @ encode_attrs as = ?M"
    "length (pre @ encode_attr a) + length (encode_attrs as) = ?E"
    "length (pre @ encode_attr a) = length pre + attr_advance (length v)"
    by (simp_all add: encode_attrs_def a)
  ultimately show ?case using ih by (simp only: a with_offsets.simps)
qed

lemma attributes_like:
  assumes "length mid = 16" "length (encode_attrs as) < 65536"
    and "\<And>ty v. (ty, v) \<in> set as \<Longrightarrow> length v < 65536"
  shows "attributes (stun_like ty mid as) = with_offsets 20 as"
proof -
  let ?h = "put16_be ty @ put16_be (of_nat (length (encode_attrs as))) @ mid"
  have m: "stun_like ty mid as = ?h @ encode_attrs as" by (simp add: stun_like_def)
  have l: "length ?h = 20" using assms(1) by simp
  have "u16_at (stun_like ty mid as) 2 = of_nat (length (encode_attrs as))"
    using read16_put16 [of "put16_be ty"]
    by (simp add: stun_like_def u16_at_def)
  then have e: "msg_end (stun_like ty mid as) = length ?h + length (encode_attrs as)"
    using assms(2) l by (simp add: msg_end_def m unat_len16)
  have "\<not> length (?h @ encode_attrs as) < 20" using l by simp
  then have "attributes (stun_like ty mid as)
      = attrs_from (?h @ encode_attrs as) (length ?h + length (encode_attrs as)) (length ?h)"
    unfolding attributes_def e unfolding m l by simp
  also have "\<dots> = with_offsets (length ?h) as" by (rule attrs_from_encode [OF assms(3)])
  finally show ?thesis unfolding l .
qed

lemma attributes_message:
  assumes "length tid = 12" "length (encode_attrs as) < 65536"
    and "\<And>ty v. (ty, v) \<in> set as \<Longrightarrow> length v < 65536"
  shows "attributes (stun_message ty tid as) = with_offsets 20 as"
  unfolding stun_message_def by (rule attributes_like) (use assms in auto)

section \<open>XOR-MAPPED-ADDRESS\<close>

text \<open>RFC 5389, section 15.2: the value a server puts into the attribute.\<close>

definition xor_value :: "bytes \<Rightarrow> bytes \<Rightarrow> 16 word \<Rightarrow> bytes" where
  "xor_value tid ip port =
     [0, if length ip = 16 then addressFamilyIPv6 else addressFamilyIPv4]
       @ put16_be (port XOR 0x2112) @ xor_bytes ip (put32_be stunMagicCookie @ tid)"

lemma xor_bytes_twice: "length ip \<le> length m \<Longrightarrow> xor_bytes (xor_bytes ip m) (m @ r) = ip"
proof (induction ip arbitrary: m)
  case (Cons a ip)
  then show ?case by (cases m) (auto simp: xor_bytes_def xor.assoc)
qed (simp add: xor_bytes_def)

lemma length_xor_bytes: "length ip \<le> length m \<Longrightarrow> length (xor_bytes ip m) = length ip"
  by (simp add: xor_bytes_def)

lemma cookie_port: "ucast (drop_bit 16 stunMagicCookie) = (0x2112 :: 16 word)"
  by (simp add: stunMagicCookie_def)

lemma decode_xor_value:
  assumes ip: "length ip = 4 \<or> length ip = 16" and tid: "length tid = 12"
    and msg: "slice msg 8 20 = Some tid"
  shows "decodeAddress (xor_value tid ip port) msg True
    = Some (join_host_port (ip_string ip) (itoa (int (unat port))))"
proof -
  let ?m = "put32_be stunMagicCookie @ tid"
  have lx: "length (xor_bytes ip ?m) = length ip" using ip tid by (intro length_xor_bytes) auto
  then have len: "length (xor_value tid ip port) = 4 + length ip" by (simp add: xor_value_def)
  have mask: "xor_mask msg = Some (?m @ replicate 4 0)"
    by (simp add: xor_mask_def transactionIDOffsetHigh_def msg)
  have r: "read16 (xor_value tid ip port) 2 = Some (port XOR 0x2112)"
    using read16_put16 [of "[0, if length ip = 16 then addressFamilyIPv6 else addressFamilyIPv4]"
        "port XOR 0x2112" "xor_bytes ip ?m"]
    by (simp add: xor_value_def numeral_2_eq_2)
  have s: "slice (xor_value tid ip port) 4 (4 + length ip) = Some (xor_bytes ip ?m)"
    using lx by (simp add: slice_def len) (simp add: xor_value_def put16_be_def)
  have i: "index (xor_value tid ip port) 1 = Some (if length ip = 16 then addressFamilyIPv6 else addressFamilyIPv4)"
    by (simp add: index_def len) (simp add: xor_value_def)
  have fam: "addressFamilyIPv6 \<noteq> addressFamilyIPv4" by (simp add: addressFamilyIPv6_def addressFamilyIPv4_def)
  have x: "xor_bytes (xor_bytes ip ?m) (?m @ replicate 4 0) = ip"
    using ip tid by (intro xor_bytes_twice) auto
  have p: "(port XOR 0x2112) XOR 0x2112 = port" by (simp add: xor.assoc)
  show ?thesis
  proof (cases "length ip = 16")
    case True
    then show ?thesis using s
      by (simp add: decodeAddress_def len i [unfolded One_nat_def] fam Let_def r mask x [simplified] cookie_port p)
  next
    case False
    then have "length ip = 4" using ip by blast
    then show ?thesis using s fam
      by (simp add: decodeAddress_def len i [unfolded One_nat_def] Let_def r mask x [simplified] cookie_port p)
  qed
qed

lemma join_host_port_nonempty [simp]: "join_host_port h p \<noteq> []"
  by (simp add: join_host_port_def)

text \<open>The walk passes over attributes that carry no address.\<close>

lemma run_skips:
  "(\<And>ty v. (ty, v) \<in> set as \<Longrightarrow> ty \<noteq> attrXORMappedAddress \<and> ty \<noteq> attrMappedAddress) \<Longrightarrow>
   run_attrs (mapped_fn b) (with_offsets off (as @ bs)) (Some [])
     = run_attrs (mapped_fn b) (with_offsets (off + length (encode_attrs as)) bs) (Some [])"
proof (induction as arbitrary: off)
  case (Cons a as)
  obtain ty v where a: "a = (ty, v)" by (cases a)
  have "mapped_fn b ty off v (Some []) = (Some [], True)"
    using Cons.prems [of ty v] by (simp add: a mapped_fn_def)
  moreover have "run_attrs (mapped_fn b) (with_offsets (off + attr_advance (length v)) (as @ bs)) (Some [])
      = run_attrs (mapped_fn b) (with_offsets (off + attr_advance (length v) + length (encode_attrs as)) bs) (Some [])"
    using Cons.prems by (intro Cons.IH) auto
  ultimately show ?case by (simp add: a add.assoc)
qed simp

section \<open>Properties\<close>

text \<open>C26: The port is open to anyone, and no datagram, however malformed, can make the packet
  reader panic: the classifiers and \<open>mappedAddress\<close> return a result on every byte sequence, and
  the attribute walk is exactly a fold, with early exit, over the attributes that lie wholly
  inside the message.\<close>

theorem stun_reader_is_total:
  "forEachAttribute msg fn st = Some (run_attrs fn (attributes msg) st)
   \<and> (\<exists>t. stunMessageType msg = Some t) \<and> (\<exists>b. isBindingRequest msg = Some b)
   \<and> (\<exists>r. isBindingResponse msg = Some r) \<and> (\<exists>s. mappedAddress msg = Some s)
   \<and> list_all (\<lambda>(ty, off, v). 20 \<le> off \<and> off + 4 + length v \<le> length msg) (attributes msg)"
  using stunMessageType_total [of msg] mappedAddress_total [of msg] attributes_range [of _ _ _ msg]
  by (auto simp: forEachAttribute_run isBindingRequest_def isBindingResponse_def list_all_iff)

text \<open>C27: The address in a binding response is read back exactly: a message with an
  XOR-MAPPED-ADDRESS, as RFC 5389 encodes it for an IPv4 or an IPv6 address, after any
  attributes that hold no address, is reported as that address and port.\<close>

theorem mapped_address_roundtrip:
  assumes "length ip = 4 \<or> length ip = 16" "length tid = 12"
    and "as = pre @ (attrXORMappedAddress, xor_value tid ip port) # post"
    and "\<And>ty v. (ty, v) \<in> set pre \<Longrightarrow> ty \<noteq> attrXORMappedAddress \<and> ty \<noteq> attrMappedAddress"
    and "length (encode_attrs as) < 65536" "\<And>ty v. (ty, v) \<in> set as \<Longrightarrow> length v < 65536"
  shows "mappedAddress (stun_message ty tid as)
    = Some (join_host_port (ip_string ip) (itoa (int (unat port))))"
proof -
  let ?msg = "stun_message ty tid as"
  have tid: "slice ?msg 8 20 = Some tid"
    using assms(2) by (simp add: stun_message_def stun_like_def slice_def)
  note dec = decode_xor_value [OF assms(1,2) tid, of port]
  have at: "attributes ?msg = with_offsets 20 as"
    by (rule attributes_message [OF assms(2,5)]) (rule assms(6))
  have "run_attrs (mapped_fn ?msg) (attributes ?msg) (Some [])
      = run_attrs (mapped_fn ?msg) (with_offsets (20 + length (encode_attrs pre))
          ((attrXORMappedAddress, xor_value tid ip port) # post)) (Some [])"
    unfolding at unfolding assms(3) by (rule run_skips) (rule assms(4))
  also have "\<dots> = Some (join_host_port (ip_string ip) (itoa (int (unat port))))"
    by (simp add: mapped_fn_def dec del: of_nat_unat)
  finally show ?thesis by (simp add: mappedAddress_def forEachAttribute_run)
qed

theorem mapped_address_roundtrip_witness:
  "mappedAddress (stun_message bindingSuccessType (replicate 12 7)
      [(attrRealm, [1, 2, 3]), (attrXORMappedAddress, xor_value (replicate 12 7) [192, 0, 2, 1] 32853)])
    = Some (join_host_port (ip_string [192, 0, 2, 1]) (itoa 32853))"
proof -
  let ?as = "[(attrRealm, [1, 2, 3]), (attrXORMappedAddress, xor_value (replicate 12 7) [192, 0, 2, 1] 32853)]"
  have "length (xor_value (replicate 12 7) [192, 0, 2, 1] 32853) = 8"
    by (simp add: xor_value_def length_xor_bytes)
  then have "mappedAddress (stun_message bindingSuccessType (replicate 12 7) ?as)
      = Some (join_host_port (ip_string [192, 0, 2, 1]) (itoa (int (unat (32853 :: 16 word)))))"
    by (intro mapped_address_roundtrip [where pre = "[(attrRealm, [1, 2, 3])]" and post = "[]"])
       (auto simp: encode_attr_def attr_advance_def attrRealm_def attrXORMappedAddress_def attrMappedAddress_def)
  then show ?thesis by simp
qed

end
