(* ===== verification/Crypto.thy ===== *)
theory Crypto
  imports Gostrings Goconv
begin

text \<open>
  The parts of Go's standard library that \<open>turn/anyauth.go\<close> hashes with: \<open>crypto/md5\<close>,
  \<open>crypto/sha1\<close> and \<open>crypto/hmac\<close>, on byte lists, and the two helpers of that file.
\<close>

section \<open>Padding and words\<close>

text \<open>A one bit, zeros up to eight bytes short of a block, and the length in bits.\<close>

definition pad_zeros :: "nat \<Rightarrow> nat" where
  "pad_zeros n = (119 - n mod 64) mod 64"

definition bit_length_le :: "nat \<Rightarrow> bytes" where
  "bit_length_le n = map (\<lambda>i. of_nat (8 * n div 256 ^ i)) [0..<8]"

fun words_be :: "bytes \<Rightarrow> 32 word list" where
  "words_be (a # b # c # d # r) =
     (push_bit 24 (ucast a) OR push_bit 16 (ucast b) OR push_bit 8 (ucast c) OR ucast d) # words_be r"
| "words_be _ = []"

fun words_le :: "bytes \<Rightarrow> 32 word list" where
  "words_le (a # b # c # d # r) =
     (ucast a OR push_bit 8 (ucast b) OR push_bit 16 (ucast c) OR push_bit 24 (ucast d)) # words_le r"
| "words_le _ = []"

definition put32_le :: "32 word \<Rightarrow> bytes" where
  "put32_le w = rev (put32_be w)"

function blocks :: "bytes \<Rightarrow> bytes list" where
  "blocks b = (if length b < 64 then [] else take 64 b # blocks (drop 64 b))"
  by pat_completeness auto
termination by (relation "measure length") auto

declare blocks.simps [simp del]

section \<open>SHA-1\<close>

type_synonym sha1_state = "32 word \<times> 32 word \<times> 32 word \<times> 32 word \<times> 32 word"

definition sha1_init :: sha1_state where
  "sha1_init = (0x67452301, 0xEFCDAB89, 0x98BADCFE, 0x10325476, 0xC3D2E1F0)"

definition sha1_f :: "nat \<Rightarrow> 32 word \<Rightarrow> 32 word \<Rightarrow> 32 word \<Rightarrow> 32 word" where
  "sha1_f t b c d =
     (if t < 20 then (b AND c) OR (NOT b AND d)
      else if 40 \<le> t \<and> t < 60 then (b AND c) OR (b AND d) OR (c AND d)
      else b XOR c XOR d)"

definition sha1_k :: "nat \<Rightarrow> 32 word" where
  "sha1_k t =
     (if t < 20 then 0x5A827999 else if t < 40 then 0x6ED9EBA1
      else if t < 60 then 0x8F1BBCDC else 0xCA62C1D6)"

definition sha1_schedule :: "bytes \<Rightarrow> 32 word list" where
  "sha1_schedule blk =
     fold (\<lambda>t w. w @ [word_rotl 1 (w ! (t - 3) XOR w ! (t - 8) XOR w ! (t - 14) XOR w ! (t - 16))])
       [16..<80] (words_be blk)"

definition sha1_block :: "bytes \<Rightarrow> sha1_state \<Rightarrow> sha1_state" where
  "sha1_block blk h =
     (let w = sha1_schedule blk;
          (a, b, c, d, e) = fold (\<lambda>t (a, b, c, d, e).
             (word_rotl 5 a + sha1_f t b c d + e + sha1_k t + w ! t, a, word_rotl 30 b, c, d)) [0..<80] h;
          (h0, h1, h2, h3, h4) = h
      in (h0 + a, h1 + b, h2 + c, h3 + d, h4 + e))"

definition sha1 :: "bytes \<Rightarrow> bytes" where
  "sha1 msg =
     (case fold sha1_block
        (blocks (msg @ [0x80] @ replicate (pad_zeros (length msg)) 0 @ rev (bit_length_le (length msg))))
        sha1_init of
      (a, b, c, d, e) \<Rightarrow> put32_be a @ put32_be b @ put32_be c @ put32_be d @ put32_be e)"

section \<open>MD5\<close>

definition md5_t :: "32 word list" where
  "md5_t =
    [0xD76AA478, 0xE8C7B756, 0x242070DB, 0xC1BDCEEE, 0xF57C0FAF, 0x4787C62A, 0xA8304613, 0xFD469501,
     0x698098D8, 0x8B44F7AF, 0xFFFF5BB1, 0x895CD7BE, 0x6B901122, 0xFD987193, 0xA679438E, 0x49B40821,
     0xF61E2562, 0xC040B340, 0x265E5A51, 0xE9B6C7AA, 0xD62F105D, 0x02441453, 0xD8A1E681, 0xE7D3FBC8,
     0x21E1CDE6, 0xC33707D6, 0xF4D50D87, 0x455A14ED, 0xA9E3E905, 0xFCEFA3F8, 0x676F02D9, 0x8D2A4C8A,
     0xFFFA3942, 0x8771F681, 0x6D9D6122, 0xFDE5380C, 0xA4BEEA44, 0x4BDECFA9, 0xF6BB4B60, 0xBEBFBC70,
     0x289B7EC6, 0xEAA127FA, 0xD4EF3085, 0x04881D05, 0xD9D4D039, 0xE6DB99E5, 0x1FA27CF8, 0xC4AC5665,
     0xF4292244, 0x432AFF97, 0xAB9423A7, 0xFC93A039, 0x655B59C3, 0x8F0CCC92, 0xFFEFF47D, 0x85845DD1,
     0x6FA87E4F, 0xFE2CE6E0, 0xA3014314, 0x4E0811A1, 0xF7537E82, 0xBD3AF235, 0x2AD7D2BB, 0xEB86D391]"

definition md5_shift :: "nat \<Rightarrow> nat" where
  "md5_shift i =
     (if i < 16 then [7, 12, 17, 22] else if i < 32 then [5, 9, 14, 20]
      else if i < 48 then [4, 11, 16, 23] else [6, 10, 15, 21]) ! (i mod 4)"

type_synonym md5_state = "32 word \<times> 32 word \<times> 32 word \<times> 32 word"

definition md5_step :: "32 word list \<Rightarrow> nat \<Rightarrow> md5_state \<Rightarrow> md5_state" where
  "md5_step x i s =
     (case s of (a, b, c, d) \<Rightarrow>
        let (f, g) =
          (if i < 16 then ((b AND c) OR (NOT b AND d), i)
           else if i < 32 then ((b AND d) OR (c AND NOT d), (5 * i + 1) mod 16)
           else if i < 48 then (b XOR c XOR d, (3 * i + 5) mod 16)
           else (c XOR (b OR NOT d), (7 * i) mod 16))
        in (d, b + word_rotl (md5_shift i) (a + f + md5_t ! i + x ! g), b, c))"

definition md5_block :: "bytes \<Rightarrow> md5_state \<Rightarrow> md5_state" where
  "md5_block blk h =
     (case (fold (md5_step (words_le blk)) [0..<64] h, h) of
        ((a, b, c, d), (h0, h1, h2, h3)) \<Rightarrow> (h0 + a, h1 + b, h2 + c, h3 + d))"

definition md5 :: "bytes \<Rightarrow> bytes" where
  "md5 msg =
     (case fold md5_block
        (blocks (msg @ [0x80] @ replicate (pad_zeros (length msg)) 0 @ bit_length_le (length msg)))
        (0x67452301, 0xEFCDAB89, 0x98BADCFE, 0x10325476) of
      (a, b, c, d) \<Rightarrow> put32_le a @ put32_le b @ put32_le c @ put32_le d)"

section \<open>The helpers of anyauth.go\<close>

definition str_bytes :: "string \<Rightarrow> bytes" where
  "str_bytes s = map (\<lambda>c. of_nat (code c)) s"

definition longTermKey :: "bytes \<Rightarrow> string \<Rightarrow> bytes \<Rightarrow> bytes" where
  "longTermKey username realm password =
     md5 (username @ str_bytes '':'' @ str_bytes realm @ str_bytes '':'' @ password)"

definition hmac_key :: "bytes \<Rightarrow> bytes" where
  "hmac_key key =
     (let k = (if length key > 64 then sha1 key else key) in k @ replicate (64 - length k) 0)"

definition hmacSHA1 :: "bytes \<Rightarrow> bytes \<Rightarrow> bytes" where
  "hmacSHA1 key data =
     sha1 (map (\<lambda>b. b XOR 0x5C) (hmac_key key)
       @ sha1 (map (\<lambda>b. b XOR 0x36) (hmac_key key) @ data))"

lemma length_sha1 [simp]: "length (sha1 msg) = 20"
  by (simp add: sha1_def put32_be_def split: prod.split)

lemma length_md5 [simp]: "length (md5 msg) = 16"
  by (simp add: md5_def put32_le_def put32_be_def split: prod.split)

lemma length_hmacSHA1 [simp]: "length (hmacSHA1 key data) = 20"
  by (simp add: hmacSHA1_def)

end
