(* ===== verification/Anyauth.thy ===== *)
theory Anyauth
  imports StunProps Crypto
begin

text \<open>
  \<open>turn/anyauth.go\<close> and \<open>turn/auth.go\<close>: the open-relay mode, which rewrites the
  MESSAGE-INTEGRITY of each request so that pion's check passes, and the authenticator
  whose key it forges with.
\<close>

section \<open>The authenticator\<close>

text \<open>\<open>gen\<close> is \<open>pion.GenerateAuthKey\<close>.\<close>

definition AllowAllAuth ::
  "(bytes \<Rightarrow> string \<Rightarrow> bytes \<Rightarrow> bytes) \<Rightarrow> bytes \<Rightarrow> string \<Rightarrow> bytes option" where
  "AllowAllAuth gen username realm =
     (if username = [] then None else Some (gen username realm username))"

section \<open>forgeIntegrity\<close>

text \<open>The variables the walk sets: \<open>username\<close>, \<open>integrityOffset\<close>, \<open>haveMI\<close>.\<close>

type_synonym forge_state = "bytes \<times> int \<times> bool"

definition forge_fn :: "forge_state attr_fn" where
  "forge_fn ty off value st =
     (case st of (username, integrityOffset, haveMI) \<Rightarrow>
        (if ty = attrUsername then (value, integrityOffset, haveMI)
         else if ty = attrMessageIntegrity then (username, int off, True)
         else st, True))"

text \<open>
  The new buffer and whether it was rewritten.  The buffer is written in place: the header
  length for the time of the HMAC, then the HMAC itself; the user name, which is a slice of
  the same buffer, is copied into the key before that.
\<close>

definition forgeIntegrity :: "string \<Rightarrow> bytes \<Rightarrow> (bytes \<times> bool) option" where
  "forgeIntegrity realm msg =
     do {
       st \<leftarrow> forEachAttribute msg forge_fn ([], -1, False);
       case st of (username, integrityOffset, haveMI) \<Rightarrow>
         if length username = 0 \<or> \<not> haveMI \<or> integrityOffset < 0 then Some (msg, False)
         else let off = nat integrityOffset in
           if off + 4 + messageIntegritySize > length msg then Some (msg, False)
           else do {
             restore \<leftarrow> read16 msg 2;
             let key = longTermKey username realm username;
             let lengthThroughMI = of_nat (off + 4 + messageIntegritySize - stunHeaderLen);
             let msg1 = overwrite msg 2 (put16_be lengthThroughMI);
             input \<leftarrow> slice msg1 0 off;
             let mac = hmacSHA1 key input;
             let msg2 = overwrite msg1 2 (put16_be restore);
             Some (overwrite msg2 (off + 4) mac, True)
           }
     }"

section \<open>What it does, in one equation\<close>

fun last_value :: "16 word \<Rightarrow> (16 word \<times> nat \<times> bytes) list \<Rightarrow> (nat \<times> bytes) option" where
  "last_value ty [] = None"
| "last_value ty ((t, off, v) # as) =
     (case last_value ty as of None \<Rightarrow> (if t = ty then Some (off, v) else None) | Some r \<Rightarrow> Some r)"

definition user_of :: "bytes \<Rightarrow> bytes" where
  "user_of msg = (case last_value attrUsername (attributes msg) of None \<Rightarrow> [] | Some (_, v) \<Rightarrow> v)"

definition mi_offset :: "bytes \<Rightarrow> nat option" where
  "mi_offset msg = map_option fst (last_value attrMessageIntegrity (attributes msg))"

text \<open>The input of the HMAC (RFC 5389, section 15.4).\<close>

definition mi_input :: "bytes \<Rightarrow> nat \<Rightarrow> bytes" where
  "mi_input msg off = take off (overwrite msg 2 (put16_be (of_nat (off + 4))))"

lemma attr_types_differ: "attrUsername \<noteq> attrMessageIntegrity"
  by (simp add: attrUsername_def attrMessageIntegrity_def)

lemma run_forge:
  "run_attrs forge_fn as (u, i, m) =
     (case last_value attrUsername as of None \<Rightarrow> u | Some (_, v) \<Rightarrow> v,
      case last_value attrMessageIntegrity as of None \<Rightarrow> i | Some (off, _) \<Rightarrow> int off,
      m \<or> last_value attrMessageIntegrity as \<noteq> None)"
proof (induction as arbitrary: u i m)
  case (Cons a as)
  obtain t off v where a: "a = (t, off, v)" by (cases a)
  have "forge_fn t off v (u, i, m) = (if t = attrUsername then (v, i, m)
      else if t = attrMessageIntegrity then (u, int off, True) else (u, i, m), True)"
    by (simp add: forge_fn_def)
  then show ?case
    using attr_types_differ by (simp add: a Cons.IH split: option.split)
qed simp

lemma last_value_in: "last_value ty as = Some (off, v) \<Longrightarrow> (ty, off, v) \<in> set as"
  by (induction ty as rule: last_value.induct) (auto split: option.splits if_splits)

lemma mi_offset_range:
  assumes "mi_offset msg = Some off"
  shows "20 \<le> off" "off + 4 \<le> length msg"
proof -
  obtain v where "(attrMessageIntegrity, off, v) \<in> set (attributes msg)"
    using assms last_value_in by (fastforce simp: mi_offset_def)
  from attributes_range(1,2) [OF this] show "20 \<le> off" "off + 4 \<le> length msg" by simp_all
qed

lemma forgeIntegrity_eq:
  "forgeIntegrity realm msg =
     (case mi_offset msg of
        None \<Rightarrow> Some (msg, False)
      | Some off \<Rightarrow>
          if user_of msg = [] \<or> off + 24 > length msg then Some (msg, False)
          else Some (overwrite msg (off + 4)
                 (hmacSHA1 (longTermKey (user_of msg) realm (user_of msg)) (mi_input msg off)), True))"
proof (cases "mi_offset msg")
  case None
  then have "last_value attrMessageIntegrity (attributes msg) = None" by (simp add: mi_offset_def)
  then show ?thesis using None
    by (simp add: forgeIntegrity_def forEachAttribute_run run_forge split_beta)
next
  case (Some off)
  then obtain v where lv: "last_value attrMessageIntegrity (attributes msg) = Some (off, v)"
    by (auto simp: mi_offset_def)
  note r = mi_offset_range [OF Some]
  obtain w where w: "read16 msg 2 = Some w" using read16_total [of 2 msg] r by auto
  let ?len = "put16_be (of_nat (off + 4)) :: bytes"
  have s: "slice (overwrite msg 2 ?len) 0 off = Some (mi_input msg off)"
    using r by (simp add: slice_def mi_input_def)
  have pw: "put16_be w = take 2 (drop 2 msg)"
  proof -
    have l4: "4 \<le> length msg" using r by simp
    then have "length (take 2 (drop 2 msg)) = Suc (Suc 0)" by simp
    then obtain a b where ab: "take 2 (drop 2 msg) = [a, b]"
      unfolding length_Suc_conv length_0_conv by blast
    have "uint16_be [a, b] = Some w" using w l4 ab by (simp add: read16_def slice_def)
    then have "w = push_bit 8 (ucast a) OR ucast b" by simp
    moreover have "put16_be (push_bit 8 (ucast a) OR ucast b :: 16 word) = [a, b]"
      by (auto simp: put16_be_def intro!: bit_word_eqI)
         (auto simp: bit_simps not_le dest: bit_imp_le_length)
    ultimately show ?thesis using ab by simp
  qed
  have same: "overwrite (overwrite msg 2 ?len) 2 (put16_be w) = msg"
    using r by (simp add: overwrite_overwrite) (simp add: pw overwrite_self)
  have u: "(case last_value attrUsername (attributes msg) of None \<Rightarrow> [] | Some (_, v) \<Rightarrow> v) = user_of msg"
    by (simp add: user_of_def)
  have len: "off + 4 + messageIntegritySize - stunHeaderLen = off + 4"
    by (simp add: messageIntegritySize_def stunHeaderLen_def)
  show ?thesis
    using Some r
    by (simp add: forgeIntegrity_def forEachAttribute_run run_forge lv u Let_def w len s same
        del: of_nat_add) (simp add: messageIntegritySize_def)
qed

end
