(* ===== verification/StunConns.thy ===== *)
theory StunConns
  imports Anyauth
begin

text \<open>
  The connections \<open>turn.New\<close> stacks on the UDP socket: \<open>turn/stunlog.go\<close>,
  \<open>turn/stunfilter.go\<close> and the reading half of \<open>turn/anyauth.go\<close>.  Each wraps a
  \<open>net.PacketConn\<close>, so each is a function from a reader to a reader; a reader gives a
  result and the connection after the read, or \<open>None\<close> when it does not return, because
  it waits for a packet that never comes or because it panics.
\<close>

section \<open>The socket\<close>

text \<open>A successful read has a source address (of which only the text is used).\<close>

datatype packet_result = Datagram bytes string | ReadErr string

type_synonym 'c reader = "'c \<Rightarrow> (packet_result \<times> 'c) option"

text \<open>The kernel socket: what will arrive on it, in order.\<close>

definition udp_read :: "packet_result list reader" where
  "udp_read q = (case q of [] \<Rightarrow> None | r # rs \<Rightarrow> Some (r, rs))"

section \<open>stunlog.go\<close>

definition maxTrackedSources :: nat where "maxTrackedSources = 1024"

record 'c stunLogConn =
  lg_inner :: 'c
  lg_attempts :: "(string \<times> 64 word) list"
  lg_log :: "log_line list"

definition newSTUNLogConn :: "'c \<Rightarrow> 'c stunLogConn" where
  "newSTUNLogConn conn = \<lparr>lg_inner = conn, lg_attempts = [], lg_log = []\<rparr>"

definition attemptsFor :: "string \<Rightarrow> (string \<times> 64 word) list \<Rightarrow> 64 word" where
  "attemptsFor key t = (case tbl_get t key of None \<Rightarrow> 0 | Some n \<Rightarrow> n)"

definition count_attempt :: "string \<Rightarrow> (string \<times> 64 word) list \<Rightarrow> 64 word \<times> (string \<times> 64 word) list" where
  "count_attempt key t =
     (if maxTrackedSources \<le> length t \<and> tbl_get t key = None then (1, t)
      else let n = attemptsFor key t + 1 in (n, tbl_put key n t))"

definition log_read :: "'c reader \<Rightarrow> 'c stunLogConn reader" where
  "log_read rd c =
     (case rd (lg_inner c) of
        None \<Rightarrow> None
      | Some (ReadErr e, i) \<Rightarrow> Some (ReadErr e, c\<lparr>lg_inner := i\<rparr>)
      | Some (Datagram p addr, i) \<Rightarrow>
          (case isBindingRequest p of
             None \<Rightarrow> None
           | Some False \<Rightarrow> Some (Datagram p addr, c\<lparr>lg_inner := i\<rparr>)
           | Some True \<Rightarrow>
               let (n, t) = count_attempt addr (lg_attempts c);
                   l = log_at (if n = 1 then LInfo else LDebug) ''STUN binding request''
                         [(''remoteAddr'', VStr addr), (''attempt'', VInt (sint n))]
               in Some (Datagram p addr, c\<lparr>lg_inner := i, lg_attempts := t, lg_log := lg_log c @ [l]\<rparr>)))"

text \<open>\<open>WriteTo\<close>: \<open>err\<close> is what the wrapped connection answers.\<close>

definition log_write :: "string option \<Rightarrow> bytes \<Rightarrow> string \<Rightarrow> 'c stunLogConn \<Rightarrow> 'c stunLogConn option" where
  "log_write err p addr c =
     do {
       rs \<leftarrow> isBindingResponse p;
       if \<not> fst rs then Some c
       else (case err of
           Some e \<Rightarrow>
             Some (c\<lparr>lg_log := lg_log c @ [log_at LWarn ''STUN binding response failed to send''
               [(''remoteAddr'', VStr addr), (''err'', VStr e)]]\<rparr>)
         | None \<Rightarrow>
             if snd rs then do {
               m \<leftarrow> mappedAddress p;
               Some (c\<lparr>lg_log := lg_log c @ [log_at LInfo ''STUN binding success''
                 [(''remoteAddr'', VStr addr), (''mappedAddr'', VStr m),
                  (''attempts'', VInt (sint (attemptsFor addr (lg_attempts c))))]]\<rparr>) }
             else Some (c\<lparr>lg_log := lg_log c @ [log_at LInfo ''STUN binding error response''
                 [(''remoteAddr'', VStr addr),
                  (''attempts'', VInt (sint (attemptsFor addr (lg_attempts c))))]]\<rparr>))
     }"

section \<open>stunfilter.go\<close>

record 'c stunFilterConn =
  fl_inner :: 'c
  fl_dropped :: "64 word"
  fl_hasLog :: bool
  fl_log :: "log_line list"

definition newStunFilterConn :: "'c \<Rightarrow> bool \<Rightarrow> 'c stunFilterConn" where
  "newStunFilterConn conn hasLog = \<lparr>fl_inner = conn, fl_dropped = 0, fl_hasLog = hasLog, fl_log = []\<rparr>"

definition drop_request :: "string \<Rightarrow> 'c stunFilterConn \<Rightarrow> 'c stunFilterConn" where
  "drop_request addr c =
     (let total = fl_dropped c + 1
      in c\<lparr>fl_dropped := total,
           fl_log := (if fl_hasLog c
             then fl_log c @ [log_at LDebug ''dropped a STUN binding request''
               [(''remoteAddr'', VStr addr), (''droppedTotal'', VInt (sint total))]]
             else fl_log c)\<rparr>)"

text \<open>The loop may run for as long as nothing but Binding requests arrives.\<close>

partial_function (option) filter_read ::
  "'c reader \<Rightarrow> 'c stunFilterConn \<Rightarrow> (packet_result \<times> 'c stunFilterConn) option" where
  "filter_read rd c =
     Option.bind (rd (fl_inner c)) (\<lambda>(r, i).
       case r of
         ReadErr e \<Rightarrow> Some (ReadErr e, c\<lparr>fl_inner := i\<rparr>)
       | Datagram p addr \<Rightarrow>
           Option.bind (isBindingRequest p) (\<lambda>b.
             if \<not> b then Some (Datagram p addr, c\<lparr>fl_inner := i\<rparr>)
             else filter_read rd (drop_request addr (c\<lparr>fl_inner := i\<rparr>))))"

section \<open>anyauth.go: the connection\<close>

record 'c anyCredentialConn =
  ac_inner :: 'c
  ac_realm :: string
  ac_hasLog :: bool
  ac_log :: "log_line list"

definition newAnyCredentialConn :: "'c \<Rightarrow> string \<Rightarrow> bool \<Rightarrow> 'c anyCredentialConn" where
  "newAnyCredentialConn conn realm hasLog =
     \<lparr>ac_inner = conn, ac_realm = realm, ac_hasLog = hasLog, ac_log = []\<rparr>"

definition any_read :: "'c reader \<Rightarrow> 'c anyCredentialConn reader" where
  "any_read rd c =
     (case rd (ac_inner c) of
        None \<Rightarrow> None
      | Some (ReadErr e, i) \<Rightarrow> Some (ReadErr e, c\<lparr>ac_inner := i\<rparr>)
      | Some (Datagram p addr, i) \<Rightarrow>
          (case forgeIntegrity (ac_realm c) p of
             None \<Rightarrow> None
           | Some (p', rewritten) \<Rightarrow>
               Some (Datagram p' addr,
                 c\<lparr>ac_inner := i,
                   ac_log := (if rewritten \<and> ac_hasLog c
                     then ac_log c @ [log_at LDebug ''rewrote MESSAGE-INTEGRITY to accept any credential''
                       [(''remoteAddr'', VStr addr)]]
                     else ac_log c)\<rparr>)))"

section \<open>The contract of a packet source\<close>

text \<open>
  What the code above a connection relies on: reads deliver the pending results one by
  one, in order, and wait when there is none.
\<close>

fun drain :: "nat \<Rightarrow> 'c reader \<Rightarrow> 'c \<Rightarrow> packet_result list" where
  "drain 0 rd c = []"
| "drain (Suc n) rd c = (case rd c of None \<Rightarrow> [] | Some (r, c') \<Rightarrow> r # drain n rd c')"

definition is_request :: "packet_result \<Rightarrow> bool" where
  "is_request r = (case r of Datagram p _ \<Rightarrow> isBindingRequest p = Some True | ReadErr _ \<Rightarrow> False)"

definition forge_result :: "string \<Rightarrow> packet_result \<Rightarrow> packet_result" where
  "forge_result realm r =
     (case r of
        Datagram p addr \<Rightarrow> Datagram (case forgeIntegrity realm p of None \<Rightarrow> p | Some (p', _) \<Rightarrow> p') addr
      | ReadErr e \<Rightarrow> ReadErr e)"

locale packet_source =
  fixes read :: "'c reader" and pending :: "'c \<Rightarrow> packet_result list"
  assumes read_none: "pending c = [] \<Longrightarrow> read c = None"
    and read_next: "pending c = r # rs \<Longrightarrow> \<exists>c'. read c = Some (r, c') \<and> pending c' = rs"
begin

lemma drain_pending: "drain n read c = take n (pending c)"
proof (induction n arbitrary: c)
  case (Suc n)
  show ?case
  proof (cases "pending c")
    case Nil
    then show ?thesis by (simp add: read_none)
  next
    case (Cons r rs)
    then obtain c' where "read c = Some (r, c')" "pending c' = rs" using read_next by blast
    then show ?thesis using Suc Cons by simp
  qed
qed simp

end

lemma isBindingRequest_total: "\<exists>b. isBindingRequest p = Some b"
  using stunMessageType_total [of p] by (auto simp: isBindingRequest_def)

lemma forgeIntegrity_total: "\<exists>p' b. forgeIntegrity realm p = Some (p', b)"
  by (cases "mi_offset p") (auto simp: forgeIntegrity_eq)

text \<open>Each layer turns a packet source into a packet source.\<close>

context packet_source
begin

lemma log_layer: "packet_source (log_read read) (\<lambda>c. pending (lg_inner c))"
proof
  show "pending (lg_inner d) = [] \<Longrightarrow> log_read read d = None" for d :: "'c stunLogConn"
    by (simp add: log_read_def read_none)
  show "\<exists>d'. log_read read d = Some (r, d') \<and> pending (lg_inner d') = rs"
    if pend: "pending (lg_inner d) = r # rs" for d :: "'c stunLogConn" and r rs
  proof -
    obtain i where i: "read (lg_inner d) = Some (r, i)" "pending i = rs" using read_next [OF pend] by blast
    show ?thesis
    proof (cases r)
      case (Datagram p addr)
      obtain b where "isBindingRequest p = Some b" using isBindingRequest_total by blast
      then show ?thesis using i Datagram by (cases b) (simp_all add: log_read_def split_beta Let_def)
    qed (simp add: log_read_def i)
  qed
qed

lemma filter_layer: "packet_source (filter_read read) (\<lambda>c. List.filter (\<lambda>r. \<not> is_request r) (pending (fl_inner c)))"
proof -
  have "(List.filter (\<lambda>r. \<not> is_request r) (pending (fl_inner d)) = [] \<longrightarrow> filter_read read d = None)
      \<and> (\<forall>r rs. List.filter (\<lambda>r. \<not> is_request r) (pending (fl_inner d)) = r # rs \<longrightarrow>
           (\<exists>d'. filter_read read d = Some (r, d')
              \<and> List.filter (\<lambda>r. \<not> is_request r) (pending (fl_inner d')) = rs))"
    for d :: "'c stunFilterConn"
  proof (induction "pending (fl_inner d)" arbitrary: d)
    case Nil
    then show ?case by (simp add: filter_read.simps read_none)
  next
    case (Cons x xs)
    obtain i where i: "read (fl_inner d) = Some (x, i)" "pending i = xs"
      using read_next [OF Cons(2) [symmetric]] by blast
    show ?case
    proof (cases x)
      case (Datagram p addr)
      obtain b where b: "isBindingRequest p = Some b" using isBindingRequest_total by blast
      have req: "is_request x = b" by (simp add: is_request_def Datagram b)
      show ?thesis
      proof (cases b)
        case True
        let ?d = "drop_request addr (d\<lparr>fl_inner := i\<rparr>)"
        have "filter_read read d = filter_read read ?d"
          by (subst filter_read.simps) (simp add: i(1) Datagram b True)
        moreover have "pending (fl_inner ?d) = xs" by (simp add: drop_request_def Let_def i(2))
        ultimately show ?thesis using Cons(1) [of ?d] Cons(2) [symmetric] req True by simp
      next
        case False
        then show ?thesis using Cons(2) [symmetric] i req b
          by (subst filter_read.simps) (simp add: Datagram)
      qed
    next
      case (ReadErr e)
      then show ?thesis using Cons(2) [symmetric] i
        by (subst filter_read.simps) (simp add: is_request_def)
    qed
  qed
  then show ?thesis by unfold_locales blast+
qed

lemma any_layer: "packet_source (any_read read) (\<lambda>c. map (forge_result (ac_realm c)) (pending (ac_inner c)))"
proof
  show "map (forge_result (ac_realm d)) (pending (ac_inner d)) = [] \<Longrightarrow> any_read read d = None"
    for d :: "'c anyCredentialConn" by (simp add: any_read_def read_none)
  show "\<exists>d'. any_read read d = Some (r, d') \<and> map (forge_result (ac_realm d')) (pending (ac_inner d')) = rs"
    if pend: "map (forge_result (ac_realm d)) (pending (ac_inner d)) = r # rs" for d :: "'c anyCredentialConn" and r rs
  proof -
    obtain x xs where x: "pending (ac_inner d) = x # xs" "r = forge_result (ac_realm d) x"
      "rs = map (forge_result (ac_realm d)) xs" using pend by (cases "pending (ac_inner d)") auto
    obtain i where i: "read (ac_inner d) = Some (x, i)" "pending i = xs" using read_next [OF x(1)] by blast
    show ?thesis
    proof (cases x)
      case (Datagram p addr)
      obtain p' b where "forgeIntegrity (ac_realm d) p = Some (p', b)" using forgeIntegrity_total by blast
      then show ?thesis using i x Datagram by (simp add: any_read_def forge_result_def)
    next
      case (ReadErr e)
      then show ?thesis using i x by (simp add: any_read_def forge_result_def)
    qed
  qed
qed

end

text \<open>The stacks that \<open>New\<close> can build, from the socket outwards.\<close>

interpretation udp: packet_source udp_read "\<lambda>q. q"
  by unfold_locales (simp_all add: udp_read_def)

interpretation logged: packet_source "log_read udp_read" lg_inner
  by (rule udp.log_layer)

interpretation filtered: packet_source "filter_read (log_read udp_read)"
  "\<lambda>c. List.filter (\<lambda>r. \<not> is_request r) (lg_inner (fl_inner c))"
  by (rule logged.filter_layer)

interpretation opened: packet_source "any_read (filter_read (log_read udp_read))"
  "\<lambda>c. map (forge_result (ac_realm c)) (List.filter (\<lambda>r. \<not> is_request r) (lg_inner (fl_inner (ac_inner c))))"
  by (rule filtered.any_layer)

interpretation filtered_only: packet_source "filter_read udp_read"
  "\<lambda>c. List.filter (\<lambda>r. \<not> is_request r) (fl_inner c)"
  by (rule udp.filter_layer)

interpretation opened_only: packet_source "any_read udp_read" "\<lambda>c. map (forge_result (ac_realm c)) (ac_inner c)"
  by (rule udp.any_layer)

interpretation opened_logged: packet_source "any_read (log_read udp_read)"
  "\<lambda>c. map (forge_result (ac_realm c)) (lg_inner (ac_inner c))"
  by (rule logged.any_layer)

interpretation opened_filtered: packet_source "any_read (filter_read udp_read)"
  "\<lambda>c. map (forge_result (ac_realm c)) (List.filter (\<lambda>r. \<not> is_request r) (fl_inner (ac_inner c)))"
  by (rule filtered_only.any_layer)

lemmas drains = udp.drain_pending logged.drain_pending filtered.drain_pending opened.drain_pending
  filtered_only.drain_pending opened_only.drain_pending opened_logged.drain_pending opened_filtered.drain_pending

end
