(* ===== verification/AnyauthProps.thy ===== *)
theory AnyauthProps
  imports Anyauth
begin

text \<open>
  The open-relay mode: the message it hands on passes the integrity check with the
  authenticator's key and is otherwise unchanged; and which packets it rewrites.
\<close>

section \<open>Overwriting the value of one attribute\<close>

lemma take_drop_overwrite:
  assumes "o' + length m \<le> length b" "off + n \<le> o' \<or> o' + length m \<le> off" "off + n \<le> length b"
  shows "take n (drop off (overwrite b o' m)) = take n (drop off b)"
proof (rule nth_equalityI)
  show "length (take n (drop off (overwrite b o' m))) = length (take n (drop off b))"
    using assms by simp
  fix i assume "i < length (take n (drop off (overwrite b o' m)))"
  then have i: "i < n" "off + i < length b" using assms by auto
  then have "overwrite b o' m ! (off + i) = b ! (off + i)"
    using assms by (subst overwrite_nth) auto
  then show "take n (drop off (overwrite b o' m)) ! i = take n (drop off b) ! i"
    using i assms by simp
qed

lemma u16_overwrite:
  assumes "o' + length m \<le> length b" "off + 2 \<le> o' \<or> o' + length m \<le> off" "off + 2 \<le> length b"
  shows "u16_at (overwrite b o' m) off = u16_at b off"
  using take_drop_overwrite [OF assms] assms by (simp add: u16_at_def read16_def slice_def)

definition put_value :: "nat \<Rightarrow> bytes \<Rightarrow> 16 word \<times> nat \<times> bytes \<Rightarrow> 16 word \<times> nat \<times> bytes" where
  "put_value o' m a = (case a of (t, off, v) \<Rightarrow> (t, off, if off = o' then m else v))"

lemma put_value_triple: "put_value o' m (t, off, v) = (t, off, if off = o' then m else v)"
  by (simp add: put_value_def)

lemma value_overwrite:
  assumes "o' + 4 + length m \<le> length b" "length m = unat (u16_at b (o' + 2))"
    and "off + 4 + unat (u16_at b (off + 2)) \<le> length b"
    and "off = o' \<or> off + 4 + unat (u16_at b (off + 2)) \<le> o' \<or> o' + 4 + length m \<le> off"
  shows "take (unat (u16_at b (off + 2))) (drop (off + 4) (overwrite b (o' + 4) m)) =
    (if off = o' then m else take (unat (u16_at b (off + 2))) (drop (off + 4) b))"
proof (cases "off = o'")
  case True
  have "slice (overwrite b (o' + 4) m) (o' + 4) (o' + 4 + length m) = Some m"
    using assms(1) by (intro overwrite_slice) simp
  then show ?thesis using True assms(2) by (simp add: slice_def split: if_splits)
next
  case False
  then show ?thesis using assms by (auto intro: take_drop_overwrite)
qed

lemma attrs_from_overwrite:
  assumes "end \<le> length b" "o' + 4 + length m \<le> length b"
    and "length m = unat (u16_at b (o' + 2))"
    and "o' + 4 + length m \<le> off \<or> (\<exists>t v. (t, o', v) \<in> set (attrs_from b end off))"
  shows "attrs_from (overwrite b (o' + 4) m) end off = map (put_value o' m) (attrs_from b end off)"
  using assms
proof (induction b "end" off rule: attrs_from.induct)
  case (1 b "end" off)
  let ?b = "overwrite b (o' + 4) m"
  let ?len = "unat (u16_at b (off + 2))"
  have lb: "length ?b = length b" using "1.prems"(2) by simp
  show ?case
  proof (cases "off + 4 \<le> end")
    case False
    then show ?thesis by (simp add: attrs_from.simps)
  next
    case fits: True
    have before: "o' + 4 + length m \<le> off \<or> off \<le> o'"
      using "1.prems"(1,4) attrs_from_range by fast
    have u: "u16_at ?b off = u16_at b off" "u16_at ?b (off + 2) = u16_at b (off + 2)"
      using before fits "1.prems"(1,2) by (auto intro!: u16_overwrite)
    show ?thesis
    proof (cases "off + 4 + ?len \<le> end")
      case False
      then show ?thesis by (simp add: attrs_from.simps [of _ _ off] u [simplified])
    next
      case True
      let ?next = "off + attr_advance ?len"
      let ?val = "\<lambda>c :: bytes. take ?len (drop (off + 4) c)"
      have unf: "attrs_from b end off = (u16_at b off, off, ?val b) # attrs_from b end ?next"
        "attrs_from ?b end off = (u16_at b off, off, ?val ?b) # attrs_from ?b end ?next"
        using fits True by (simp_all add: attrs_from.simps [of _ _ off] u [simplified])
      have adv: "off + 4 + ?len \<le> ?next" by (simp add: attr_advance_def)
      have nxt: "o' + 4 + length m \<le> ?next \<or> (\<exists>t v. (t, o', v) \<in> set (attrs_from b end ?next))"
        using "1.prems"(3,4) adv unf(1) by (cases "o' = off") auto
      have ih: "attrs_from ?b end ?next = map (put_value o' m) (attrs_from b end ?next)"
        using fits True "1.prems"(1-3) nxt by (intro "1.IH") auto
      have "off = o' \<or> off + 4 + ?len \<le> o' \<or> o' + 4 + length m \<le> off"
        using "1.prems"(1,4) unf(1) adv attrs_from_range [of _ o' _ b "end" ?next] by fastforce
      then have "?val ?b = (if off = o' then m else ?val b)"
        using True "1.prems"(1-3) by (intro value_overwrite) auto
      then show ?thesis by (simp only: unf ih list.map put_value_triple)
    qed
  qed
qed

lemma attributes_overwrite:
  assumes "(t, off, v) \<in> set (attributes b)" "length m = length v"
  shows "attributes (overwrite b (off + 4) m) = map (put_value off m) (attributes b)"
proof -
  have l: "\<not> length b < 20" and a: "(t, off, v) \<in> set (attrs_from b (msg_end b) 20)"
    using assms(1) by (auto simp: attributes_def split: if_splits)
  have e: "msg_end b \<le> length b" by (simp add: msg_end_def)
  note r = attrs_from_range [OF a e]
  have fit: "off + 4 + length m \<le> length b" "20 \<le> off" using r e assms(2) by linarith+
  have "u16_at (overwrite b (off + 4) m) 2 = u16_at b 2"
    using fit by (intro u16_overwrite) auto
  then have "msg_end (overwrite b (off + 4) m) = msg_end b" using fit by (simp add: msg_end_def)
  moreover have "attrs_from (overwrite b (off + 4) m) (msg_end b) 20
      = map (put_value off m) (attrs_from b (msg_end b) 20)"
    using a r assms(2) fit by (intro attrs_from_overwrite [OF e]) auto
  ultimately show ?thesis using l fit by (simp add: attributes_def)
qed

lemma last_value_put:
  "last_value ty (map (put_value o' m) as) =
     map_option (\<lambda>(off, v). (off, if off = o' then m else v)) (last_value ty as)"
  by (induction ty as rule: last_value.induct) (auto simp: put_value_def split: option.split)

lemma last_value_type: "last_value ty as = Some (off, v) \<Longrightarrow> (ty, off, v) \<in> set as"
  by (rule last_value_in)

section \<open>The integrity check of RFC 5389\<close>

text \<open>
  What a receiver of a request checks, stated from the RFC and without the forger's own
  functions.  Of an attribute that occurs more than once the first occurrence counts
  (section 15); the value of MESSAGE-INTEGRITY has to be the HMAC of the message up to that
  attribute, with a length field that counts the body through it (section 15.4: the offset of
  the attribute, its 24 bytes, less the 20 of the header).
\<close>

fun first_value :: "16 word \<Rightarrow> (16 word \<times> nat \<times> bytes) list \<Rightarrow> (nat \<times> bytes) option" where
  "first_value ty [] = None"
| "first_value ty ((t, off, v) # as) = (if t = ty then Some (off, v) else first_value ty as)"

definition request_user :: "bytes \<Rightarrow> bytes" where
  "request_user msg = (case first_value attrUsername (attributes msg) of None \<Rightarrow> [] | Some (_, v) \<Rightarrow> v)"

definition integrity_ok :: "bytes \<Rightarrow> bytes \<Rightarrow> bool" where
  "integrity_ok key msg \<longleftrightarrow>
     (case first_value attrMessageIntegrity (attributes msg) of
        None \<Rightarrow> False
      | Some (off, mac) \<Rightarrow>
          mac = hmacSHA1 key (take 2 msg @ put16_be (of_nat (off + 24 - 20)) @ take (off - 4) (drop 4 msg)))"

definition occurrences :: "16 word \<Rightarrow> bytes \<Rightarrow> nat" where
  "occurrences ty msg = length (List.filter (\<lambda>a. fst a = ty) (attributes msg))"

text \<open>Where an attribute occurs once, the first and the last occurrence are the same.\<close>

lemma last_value_None: "last_value ty as = None \<longleftrightarrow> List.filter (\<lambda>a. fst a = ty) as = []"
  by (induction ty as rule: last_value.induct) (auto split: option.split)

lemma first_is_last:
  "length (List.filter (\<lambda>a. fst a = ty) as) \<le> 1 \<Longrightarrow> first_value ty as = last_value ty as"
proof (induction ty as rule: first_value.induct)
  case (2 ty t off v as)
  then show ?case using last_value_None [of ty as] by (auto split: option.split)
qed simp

lemma occurrences_put [simp]:
  "List.filter (\<lambda>a. fst a = ty) (map (put_value o' m) as) = map (put_value o' m) (List.filter (\<lambda>a. fst a = ty) as)"
  by (induction as) (auto simp: put_value_def)

text \<open>Overwriting the value of MESSAGE-INTEGRITY changes neither the user name nor the HMAC's input.\<close>

lemma user_of_overwrite:
  assumes at: "(attrMessageIntegrity, off, v) \<in> set (attributes b)" and len: "length m = length v"
  shows "user_of (overwrite b (off + 4) m) = user_of b"
proof (cases "last_value attrUsername (attributes b)")
  case None
  then show ?thesis by (simp add: user_of_def attributes_overwrite [OF at len] last_value_put)
next
  case (Some p)
  obtain uo uv where p: "p = (uo, uv)" by (cases p)
  have "uo \<noteq> off"
  proof
    assume "uo = off"
    then have "(attrUsername, off, uv) \<in> set (attributes b)" using last_value_in Some p by metis
    then have "attrUsername = attrMessageIntegrity" using attributes_range(4) at by metis
    then show False using attr_types_differ by simp
  qed
  then show ?thesis by (simp add: user_of_def attributes_overwrite [OF at len] last_value_put Some p)
qed

lemma mi_input_overwrite:
  assumes "20 \<le> off" "off + 4 + length m \<le> length b"
  shows "mi_input (overwrite b (off + 4) m) off = mi_input b off"
proof -
  have parts: "mi_input c off = take 2 c @ put16_be (of_nat (off + 4)) @ take (off - 4) (drop 4 c)"
    if "length c = length b" for c
    using that assms by (simp add: mi_input_def overwrite_def)
  have "take (off - 4) (drop 4 (overwrite b (off + 4) m)) = take (off - 4) (drop 4 b)"
    using assms by (intro take_drop_overwrite) simp_all
  moreover have "take 2 (overwrite b (off + 4) m) = take 2 b"
    using assms by (intro overwrite_take) simp_all
  ultimately show ?thesis using assms by (simp add: parts)
qed

lemma mi_input_rfc:
  assumes "20 \<le> off" "off \<le> length msg"
  shows "mi_input msg off = take 2 msg @ put16_be (of_nat (off + 24 - 20)) @ take (off - 4) (drop 4 msg)"
  using assms by (simp add: mi_input_def overwrite_def add.commute)

text \<open>C28: In the open-relay mode a rewritten request passes the integrity check of RFC 5389 with
  the very key that \<open>AllowAllAuth\<close> derives for its user name, whatever the client signed it with,
  provided USERNAME and MESSAGE-INTEGRITY occur once each (the forger goes by the last
  occurrence, a receiver by the first).  Nothing else in the packet changes: same length, same user
  name, and every byte outside the 20 of the MESSAGE-INTEGRITY value as it was.\<close>

theorem forged_message_verifies:
  assumes forged: "forgeIntegrity realm msg = Some (msg', True)"
    and once: "occurrences attrUsername msg \<le> 1" "occurrences attrMessageIntegrity msg \<le> 1"
    and mi: "\<And>off v. (attrMessageIntegrity, off, v) \<in> set (attributes msg) \<Longrightarrow> length v = 20"
    and gen: "\<And>user password. gen user realm password = longTermKey user realm password"
  shows "\<exists>off mac key. first_value attrMessageIntegrity (attributes msg) = Some (off, mac)
    \<and> AllowAllAuth gen (request_user msg') realm = Some key \<and> integrity_ok key msg'
    \<and> request_user msg' = request_user msg \<and> length msg' = length msg
    \<and> (\<forall>i < length msg. i < off + 4 \<or> off + 24 \<le> i \<longrightarrow> msg' ! i = msg ! i)"
proof -
  obtain off where off: "mi_offset msg = Some off"
    using forged by (auto simp: forgeIntegrity_eq split: option.splits)
  let ?key = "longTermKey (user_of msg) realm (user_of msg)"
  let ?mac = "hmacSHA1 ?key (mi_input msg off)"
  have m': "msg' = overwrite msg (off + 4) ?mac" "user_of msg \<noteq> []" "off + 24 \<le> length msg"
    using forged by (auto simp: forgeIntegrity_eq off split: if_splits)
  note r = mi_offset_range [OF off]
  obtain v where lv: "last_value attrMessageIntegrity (attributes msg) = Some (off, v)"
    using off by (auto simp: mi_offset_def)
  then have v: "(attrMessageIntegrity, off, v) \<in> set (attributes msg)" by (rule last_value_in)
  have at: "attributes msg' = map (put_value off ?mac) (attributes msg)"
    unfolding m'(1) using mi [OF v] v by (intro attributes_overwrite) simp_all
  have same: "first_value ty (attributes m) = last_value ty (attributes m)"
    if "ty \<in> {attrUsername, attrMessageIntegrity}" "m \<in> {msg, msg'}" for ty m
    using that once by (intro first_is_last) (auto simp: occurrences_def at)
  have user: "request_user m = user_of m" if "m \<in> {msg, msg'}" for m
    using same [OF _ that] by (simp add: request_user_def user_of_def)
  have users: "user_of msg' = user_of msg"
    unfolding m'(1) using v mi [OF v] by (intro user_of_overwrite) simp_all
  have "mi_input msg' off = mi_input msg off"
    unfolding m'(1) using m'(3) r by (intro mi_input_overwrite) simp_all
  moreover have len: "length msg' = length msg" using m' by simp
  ultimately have input: "take 2 msg' @ put16_be (of_nat (off + 24 - 20)) @ take (off - 4) (drop 4 msg') = mi_input msg off"
    using mi_input_rfc [of off msg'] r by (simp only: add_leD1)
  have "first_value attrMessageIntegrity (attributes msg') = Some (off, ?mac)"
    using same [of attrMessageIntegrity msg'] by (simp add: at last_value_put lv)
  then have ok: "integrity_ok ?key msg'"
    by (simp only: integrity_ok_def option.case prod.case input)
  have auth: "AllowAllAuth gen (request_user msg') realm = Some ?key"
    using m'(2) by (simp add: AllowAllAuth_def user users gen)
  have rest: "msg' ! i = msg ! i" if "i < length msg" "i < off + 4 \<or> off + 24 \<le> i" for i
    unfolding m'(1) using that m'(3) by (subst overwrite_nth) auto
  have "first_value attrMessageIntegrity (attributes msg) = Some (off, v)" using same lv by simp
  then show ?thesis using auth ok user users len rest by auto
qed

section \<open>Which packets are rewritten\<close>

definition signed :: "bytes \<Rightarrow> bytes \<Rightarrow> (16 word \<times> bytes) list" where
  "signed user mac = [(attrUsername, user), (attrMessageIntegrity, mac)]"

lemma signed_attributes:
  assumes "length mid = 16" "length user < 60000" "length mac = 20"
  shows "attributes (stun_like ty mid (signed user mac)) =
    [(attrUsername, 20, user), (attrMessageIntegrity, 20 + attr_advance (length user), mac)]"
proof -
  have "attributes (stun_like ty mid (signed user mac)) = with_offsets 20 (signed user mac)"
    using assms by (intro attributes_like) (auto simp: signed_def attr_advance_def)
  then show ?thesis by (simp add: signed_def)
qed

lemma signed_split:
  assumes "length mid = 16"
  obtains pre where "\<And>mac'. length mac' = 20 \<Longrightarrow>
      stun_like ty mid (signed user mac') = pre @ mac'"
    "length pre = 20 + attr_advance (length user) + 4"
proof -
  let ?pre = "put16_be ty @ put16_be (of_nat (attr_advance (length user) + 24)) @ mid
    @ encode_attr (attrUsername, user) @ put16_be attrMessageIntegrity @ put16_be 20"
  show thesis
  proof (rule that [of ?pre])
    show "stun_like ty mid (signed user mac') = ?pre @ mac'" if "length mac' = 20" for mac'
      using that by (simp add: stun_like_def signed_def encode_attr_def [of "(attrMessageIntegrity, mac')"]
          attr_advance_def [of 20])
    show "length ?pre = 20 + attr_advance (length user) + 4" using assms by simp
  qed
qed

lemma forge_signed:
  assumes "length mid = 16" "user \<noteq> []" "length user < 60000" "length mac = 20"
  obtains mac' where "length mac' = 20" "forgeIntegrity realm (stun_like ty mid (signed user mac)) =
    Some (stun_like ty mid (signed user mac'), True)"
proof -
  let ?msg = "stun_like ty mid (signed user mac)"
  let ?off = "20 + attr_advance (length user)"
  note at = signed_attributes [OF assms(1,3,4), of ty]
  have mo: "mi_offset ?msg = Some ?off" and us: "user_of ?msg = user"
    using attr_types_differ by (simp_all add: mi_offset_def user_of_def at)
  let ?mac = "hmacSHA1 (longTermKey user realm user) (mi_input ?msg ?off)"
  obtain pre where pre: "\<And>m. length m = 20 \<Longrightarrow> stun_like ty mid (signed user m) = pre @ m"
    "length pre = ?off + 4"
    by (rule signed_split [OF assms(1), of ty user]) blast
  have l: "length ?msg = ?off + 24" using pre assms(4) by simp
  have "overwrite ?msg (?off + 4) ?mac = pre @ ?mac"
    using pre assms(4) by (simp add: overwrite_def)
  then have "forgeIntegrity realm ?msg = Some (stun_like ty mid (signed user ?mac), True)"
    using assms(2) l pre(1) [of ?mac] by (simp add: forgeIntegrity_eq mo us)
  then show thesis by (intro that [of ?mac]) simp_all
qed

text \<open>C29: The rewriting looks neither at the message type nor at the magic cookie: every packet
  that walks like a user name followed by a MESSAGE-INTEGRITY is rewritten, so also a Binding
  request of an ICE connectivity check and a datagram that is not STUN at all, such as relayed
  channel data (the comments promise that only TURN requests are touched).\<close>

theorem forging_ignores_message_kind:
  assumes "length mid = 16" "length tid = 12" "user \<noteq> []" "length user < 60000" "length mac = 20"
  shows "(\<exists>mac'. forgeIntegrity realm (stun_like ty mid (signed user mac))
            = Some (stun_like ty mid (signed user mac'), True))
    \<and> isBindingRequest (stun_message bindingRequestType tid (signed user mac)) = Some True
    \<and> (\<exists>msg'. forgeIntegrity realm (stun_message bindingRequestType tid (signed user mac)) = Some (msg', True))
    \<and> stunMessageType (stun_like 0x4000 (replicate 16 0) (signed user mac)) = Some None"
proof -
  let ?b = "stun_message bindingRequestType tid (signed user mac)"
  have mid: "length (put32_be stunMagicCookie @ tid) = 16" using assms(2) by simp
  have cookie: "uint32_be (put32_be stunMagicCookie) = Some stunMagicCookie"
    by (simp add: put32_be_def stunMagicCookie_def)
  have sl: "slice ?b 4 8 = Some (put32_be stunMagicCookie)" "slice ?b 0 2 = Some (put16_be bindingRequestType)"
    using assms(2) by (simp_all add: stun_message_def stun_like_def slice_def)
  have len: "20 \<le> length ?b" using assms(2) by (simp add: stun_message_def stun_like_def)
  have "isBindingRequest ?b = Some True"
    using len uint16_be_put16 [of bindingRequestType "[]"]
    by (simp add: isBindingRequest_def stunMessageType_def stunHeaderLen_def sl cookie)
  moreover have "stunMessageType (stun_like 0x4000 (replicate 16 0) (signed user mac)) = Some None"
  proof -
    have "replicate 16 (0 :: byte) = [0, 0, 0, 0] @ replicate 12 0" by (simp add: numeral_eq_Suc)
    then have "slice (stun_like 0x4000 (replicate 16 0) (signed user mac)) 4 8 = Some [0, 0, 0, 0]"
      by (simp add: stun_like_def slice_def)
    then show ?thesis
      by (simp add: stunMessageType_def stunHeaderLen_def stunMagicCookie_def)
  qed
  moreover have "\<exists>msg'. forgeIntegrity realm ?b = Some (msg', True)"
    using forge_signed [OF mid assms(3-5), of realm bindingRequestType] unfolding stun_message_def by metis
  ultimately show ?thesis using forge_signed [OF assms(1,3-5), of realm ty] by metis
qed

theorem forging_ignores_message_kind_witness:
  "isBindingRequest (stun_message bindingRequestType (replicate 12 7) (signed [1] (replicate 20 0))) = Some True"
  using forging_ignores_message_kind [of "replicate 16 0" "replicate 12 7" "[1]" "replicate 20 0" "''jokertc''" 3]
  by simp

theorem forged_message_verifies_witness:
  "\<exists>msg' key. forgeIntegrity ''jokertc'' (stun_like 3 (replicate 16 0) (signed [1] (replicate 20 0)))
      = Some (msg', True) \<and> AllowAllAuth longTermKey (request_user msg') ''jokertc'' = Some key
      \<and> integrity_ok key msg'"
proof -
  let ?msg = "stun_like 3 (replicate 16 0) (signed [1] (replicate 20 0))"
  obtain msg' where f: "forgeIntegrity ''jokertc'' ?msg = Some (msg', True)"
    using forge_signed [of "replicate 16 0" "[1]" "replicate 20 0" "''jokertc''" 3] by auto
  have at: "attributes ?msg = [(attrUsername, 20, [1]), (attrMessageIntegrity, 28, replicate 20 0)]"
    using signed_attributes [of "replicate 16 0" "[1]" "replicate 20 0" 3] by (simp add: attr_advance_def)
  have once: "occurrences attrUsername ?msg \<le> 1" "occurrences attrMessageIntegrity ?msg \<le> 1"
    using attr_types_differ by (simp_all add: occurrences_def at)
  have mi: "length v = 20" if "(attrMessageIntegrity, off, v) \<in> set (attributes ?msg)" for off v
    using that attr_types_differ by (auto simp: at)
  have "\<exists>off mac key. first_value attrMessageIntegrity (attributes ?msg) = Some (off, mac)
    \<and> AllowAllAuth longTermKey (request_user msg') ''jokertc'' = Some key \<and> integrity_ok key msg'
    \<and> request_user msg' = request_user ?msg \<and> length msg' = length ?msg
    \<and> (\<forall>i < length ?msg. i < off + 4 \<or> off + 24 \<le> i \<longrightarrow> msg' ! i = ?msg ! i)"
    by (rule forged_message_verifies [OF f once]) (auto dest: mi)
  then show ?thesis using f by blast
qed

end
