(* ===== verification/StunConnsProps.thy ===== *)
theory StunConnsProps
  imports StunConns AnyauthProps
begin

text \<open>
  What the stack on the UDP socket delivers and reports: the attempt table with its cap,
  the filter's loop, and the whole open-relay stack as one packet source.
\<close>

section \<open>The attempt table\<close>

text \<open>The distinct sources of a sequence of requests, in the order they first appear.\<close>

definition first_seen :: "string list \<Rightarrow> string list" where
  "first_seen ks = rev (remdups (rev ks))"

lemma first_seen_snoc:
  "first_seen (ks @ [k]) = (if k \<in> set ks then first_seen ks else first_seen ks @ [k])"
  by (simp add: first_seen_def)

lemma set_first_seen [simp]: "set (first_seen ks) = set ks"
  by (simp add: first_seen_def)

text \<open>The sources that have an entry: the cap admits the first ones only.\<close>

definition tracked :: "string list \<Rightarrow> string set" where
  "tracked ks = set (take maxTrackedSources (first_seen ks))"

definition attempt_number :: "string list \<Rightarrow> string \<Rightarrow> 64 word" where
  "attempt_number ks k = (if k \<in> tracked (ks @ [k]) then of_nat (Suc (count_list ks k)) else 1)"

definition attempt_table :: "string list \<Rightarrow> (string \<times> 64 word) list" where
  "attempt_table ks = foldl (\<lambda>t k. snd (count_attempt k t)) [] ks"

lemma attempt_table_snoc: "attempt_table (ks @ [k]) = snd (count_attempt k (attempt_table ks))"
  by (simp add: attempt_table_def)

lemma attempt_table_Nil [simp]: "attempt_table [] = []"
  by (simp add: attempt_table_def)

lemma tracked_snoc:
  "tracked (ks @ [k]) =
     (if k \<in> set ks \<or> maxTrackedSources \<le> length (first_seen ks) then tracked ks
      else insert k (tracked ks))"
  by (auto simp: tracked_def first_seen_snoc)

lemma tracked_seen: "tracked ks \<subseteq> set ks"
  using set_take_subset [of maxTrackedSources "first_seen ks"] by (simp add: tracked_def)

lemma tracked_all: "length (first_seen ks) \<le> maxTrackedSources \<Longrightarrow> tracked ks = set ks"
  by (simp add: tracked_def)

lemma count_attempt_entry:
  "\<not> (maxTrackedSources \<le> length t \<and> tbl_get t k = None) \<Longrightarrow>
   count_attempt k t = (attemptsFor k t + 1, tbl_put k (attemptsFor k t + 1) t)"
  by (auto simp: count_attempt_def Let_def)

text \<open>What the table holds after the requests \<open>ks\<close>.\<close>

definition counts :: "string list \<Rightarrow> (string \<times> 64 word) list \<Rightarrow> bool" where
  "counts ks t \<longleftrightarrow> tbl_wf t
     \<and> length t = min maxTrackedSources (length (first_seen ks))
     \<and> (\<forall>k. tbl_get t k = (if k \<in> tracked ks then Some (of_nat (count_list ks k)) else None))"

lemma counts_D:
  assumes "counts ks t"
  shows "tbl_wf t" "length t = min maxTrackedSources (length (first_seen ks))"
    "tbl_get t k = (if k \<in> tracked ks then Some (of_nat (count_list ks k)) else None)"
  using assms by (simp_all add: counts_def)

lemma counts_room: "counts ks t \<Longrightarrow> length t < maxTrackedSources \<Longrightarrow> tracked ks = set ks"
  using tracked_all [of ks] counts_D(2) [of ks t] by simp

lemma counts_known:
  assumes c: "counts ks t" and x: "x \<in> tracked ks"
  shows "counts (ks @ [x]) (tbl_put x (of_nat (Suc (count_list ks x))) t)"
proof -
  have seen: "x \<in> set ks" using x tracked_seen by blast
  have "length (tbl_put x v t) = length t" for v
    using tbl.size_put_old [OF counts_D(1) [OF c], of x v] counts_D(3) [OF c, of x] x by simp
  then show ?thesis
    using seen x counts_D [OF c] by (simp add: counts_def tbl.wf_put tbl.get_put tracked_snoc first_seen_snoc)
qed

lemma counts_new:
  assumes c: "counts ks t" and x: "x \<notin> tracked ks" and room: "length t < maxTrackedSources"
  shows "counts (ks @ [x]) (tbl_put x 1 t)"
proof -
  have new: "x \<notin> set ks" using x counts_room [OF c room] by simp
  have len: "length (tbl_put x 1 t) = Suc (length t)"
    using tbl.size_put_new [OF counts_D(1) [OF c], of x 1] counts_D(3) [OF c, of x] x by simp
  have trk: "tracked (ks @ [x]) = insert x (tracked ks)"
    using new room counts_D(2) [OF c] by (auto simp: tracked_snoc min_def split: if_splits)
  show ?thesis
    using new room len trk counts_D [OF c] by (auto simp: counts_def tbl.wf_put tbl.get_put first_seen_snoc)
qed

lemma counts_full:
  assumes "counts ks t" "x \<notin> tracked ks" "maxTrackedSources \<le> length t"
  shows "counts (ks @ [x]) t"
  using assms counts_D [OF assms(1)] by (auto simp: counts_def tracked_snoc first_seen_snoc)

lemma count_attempt_counts:
  assumes c: "counts ks t"
  shows "snd (count_attempt x t) =
    (if x \<in> tracked ks then tbl_put x (of_nat (Suc (count_list ks x))) t
     else if length t < maxTrackedSources then tbl_put x 1 t else t)"
  using counts_D(3) [OF c, of x] by (auto simp: count_attempt_def attemptsFor_def Let_def add.commute)

lemma counts_attempt_table: "counts ks (attempt_table ks)"
proof (induction ks rule: rev_induct)
  case Nil
  then show ?case by (simp add: counts_def first_seen_def tracked_def)
next
  case (snoc x ks)
  then show ?case
    unfolding attempt_table_snoc count_attempt_counts [OF snoc]
    by (auto intro: counts_known counts_new counts_full simp del: of_nat_Suc)
qed

lemma attempt_table_spec:
  "tbl_wf (attempt_table ks)
   \<and> length (attempt_table ks) = min maxTrackedSources (length (first_seen ks))
   \<and> (\<forall>k. tbl_get (attempt_table ks) k =
        (if k \<in> tracked ks then Some (of_nat (count_list ks k)) else None))"
  using counts_attempt_table unfolding counts_def .

lemma count_attempt_number: "fst (count_attempt k (attempt_table ks)) = attempt_number ks k"
proof (cases "maxTrackedSources \<le> length (attempt_table ks) \<and> tbl_get (attempt_table ks) k = None")
  case True
  then have "k \<notin> tracked (ks @ [k])"
    using attempt_table_spec [of ks] by (auto simp: tracked_snoc split: if_splits)
  then show ?thesis using True by (simp add: count_attempt_def attempt_number_def)
next
  case False
  let ?n = "attemptsFor k (attempt_table ks) + 1"
  have c: "count_attempt k (attempt_table ks) = (?n, tbl_put k ?n (attempt_table ks))"
    by (rule count_attempt_entry [OF False])
  have "tbl_get (attempt_table (ks @ [k])) k = Some ?n"
    by (simp add: attempt_table_snoc c tbl.get_put)
  then show ?thesis
    using attempt_table_spec [of "ks @ [k]"] by (auto simp: c attempt_number_def split: if_splits)
qed

section \<open>What the logger reports\<close>

text \<open>The connection after \<open>n\<close> reads; \<open>None\<close> when one of them does not return.\<close>

fun reads :: "nat \<Rightarrow> 'c reader \<Rightarrow> 'c \<Rightarrow> 'c option" where
  "reads 0 rd c = Some c"
| "reads (Suc n) rd c = Option.bind (rd c) (\<lambda>(_, c'). reads n rd c')"

fun requests_of :: "packet_result list \<Rightarrow> string list" where
  "requests_of [] = []"
| "requests_of (r # rs) =
     (case r of
        Datagram p addr \<Rightarrow> if isBindingRequest p = Some True then addr # requests_of rs else requests_of rs
      | ReadErr _ \<Rightarrow> requests_of rs)"

lemma requests_of_filter: "length (requests_of rs) = length (List.filter is_request rs)"
  by (induction rs) (auto simp: is_request_def split: packet_result.split)

definition attempt_line :: "string list \<Rightarrow> string \<Rightarrow> log_line" where
  "attempt_line ks k =
     log_at (if attempt_number ks k = 1 then LInfo else LDebug) ''STUN binding request''
       [(''remoteAddr'', VStr k), (''attempt'', VInt (sint (attempt_number ks k)))]"

fun attempt_lines :: "string list \<Rightarrow> string list \<Rightarrow> log_line list" where
  "attempt_lines seen [] = []"
| "attempt_lines seen (k # ks) = attempt_line seen k # attempt_lines (seen @ [k]) ks"

lemma attempt_lines_append:
  "attempt_lines seen (as @ bs) = attempt_lines seen as @ attempt_lines (seen @ as) bs"
  by (induction as arbitrary: seen) auto

lemma log_read_step:
  assumes "lg_inner c = r # rs" "lg_attempts c = attempt_table ks"
  shows "\<exists>c'. log_read udp_read c = Some (r, c') \<and> lg_inner c' = rs
    \<and> lg_attempts c' = attempt_table (ks @ requests_of [r])
    \<and> lg_log c' = lg_log c @ attempt_lines ks (requests_of [r])"
proof (cases r)
  case (Datagram p addr)
  obtain b where b: "isBindingRequest p = Some b" using isBindingRequest_total by blast
  show ?thesis
  proof (cases b)
    case True
    obtain n t where nt: "count_attempt addr (attempt_table ks) = (n, t)" by (cases "count_attempt addr (attempt_table ks)")
    then have "n = attempt_number ks addr" "t = attempt_table (ks @ [addr])"
      using count_attempt_number [of addr ks] by (simp_all add: attempt_table_snoc)
    then show ?thesis
      using assms Datagram b True nt
      by (simp add: log_read_def udp_read_def attempt_line_def)
  qed (use assms Datagram b in \<open>simp add: log_read_def udp_read_def\<close>)
qed (use assms in \<open>simp add: log_read_def udp_read_def\<close>)

lemma requests_of_Cons: "requests_of (r # rs) = requests_of [r] @ requests_of rs"
  by (simp split: packet_result.split)

lemma log_reads:
  assumes "lg_attempts c = attempt_table ks" "n \<le> length (lg_inner c)"
  shows "\<exists>c'. reads n (log_read udp_read) c = Some c' \<and> lg_inner c' = drop n (lg_inner c)
    \<and> lg_attempts c' = attempt_table (ks @ requests_of (take n (lg_inner c)))
    \<and> lg_log c' = lg_log c @ attempt_lines ks (requests_of (take n (lg_inner c)))"
  using assms
proof (induction n arbitrary: c ks)
  case (Suc n)
  then obtain r rs where q: "lg_inner c = r # rs" by (cases "lg_inner c") auto
  obtain c1 where c1: "log_read udp_read c = Some (r, c1)" "lg_inner c1 = rs"
    "lg_attempts c1 = attempt_table (ks @ requests_of [r])"
    "lg_log c1 = lg_log c @ attempt_lines ks (requests_of [r])"
    using log_read_step [OF q Suc.prems(1)] by blast
  have n: "n \<le> length (lg_inner c1)" using Suc.prems(2) q c1(2) by simp
  show ?case
    using Suc.IH [OF c1(3) n] c1 q
    by (simp add: requests_of_Cons [of r "take n rs"] attempt_lines_append del: requests_of.simps)
qed simp

lemma attempt_number_exact:
  assumes "length (first_seen (ks @ [k])) \<le> maxTrackedSources"
  shows "attempt_number ks k = of_nat (Suc (count_list ks k))"
  using tracked_all [OF assms] by (simp add: attempt_number_def)

lemma count_list_0: "count_list ks k = 0 \<longleftrightarrow> k \<notin> set ks"
  by (induction ks) auto

lemma attempt_level:
  assumes "length (first_seen (ks @ [k])) \<le> maxTrackedSources" "length ks < 2 ^ 64 - 1"
  shows "l_level (attempt_line ks k) = (if k \<in> set ks then LDebug else LInfo)"
proof -
  have "count_list ks k < 2 ^ 64 - 1" using count_le_length [of ks k] assms(2) by linarith
  then have "unat (of_nat (Suc (count_list ks k)) :: 64 word) = Suc (count_list ks k)"
    by (simp add: unat_of_nat del: of_nat_Suc)
  then have "attempt_number ks k = 1 \<longleftrightarrow> Suc (count_list ks k) = 1"
    unfolding attempt_number_exact [OF assms(1)] by (metis of_nat_1 unat_1)
  then show ?thesis by (simp add: attempt_line_def log_at_def count_list_0)
qed

definition line_source :: "log_line \<Rightarrow> attr_value" where
  "line_source l = snd (hd (l_attrs l))"

lemma info_lines:
  assumes "length (first_seen (seen @ ks)) \<le> maxTrackedSources" "length (seen @ ks) < 2 ^ 64"
  shows "map VStr (first_seen seen) @ map line_source (List.filter (\<lambda>l. l_level l = LInfo) (attempt_lines seen ks))
    = map VStr (first_seen (seen @ ks))"
  using assms
proof (induction ks arbitrary: seen)
  case (Cons k ks)
  have mono: "length (first_seen (seen @ [k])) \<le> length (first_seen ((seen @ [k]) @ ks))"
    by (induction ks rule: rev_induct) (auto simp: first_seen_snoc simp flip: append_assoc)
  have lev: "l_level (attempt_line seen k) = (if k \<in> set seen then LDebug else LInfo)"
    using Cons.prems mono by (intro attempt_level) simp_all
  have src: "line_source (attempt_line seen k) = VStr k"
    by (simp add: line_source_def attempt_line_def log_at_def)
  have "map VStr (first_seen (seen @ [k])) @ map line_source
      (List.filter (\<lambda>l. l_level l = LInfo) (attempt_lines (seen @ [k]) ks))
    = map VStr (first_seen ((seen @ [k]) @ ks))"
    using Cons.prems by (intro Cons.IH) simp_all
  then show ?case using lev src by (cases "k \<in> set seen") (simp_all add: first_seen_snoc)
qed simp

text \<open>C32: The STUN log of \<open>stunlog.go\<close>: after \<open>n\<close> packets it holds one line per Binding request among
  them, with the attempt number of its source; no more than 1024 sources are ever tracked, namely
  the first ones; their counts are exact (modulo 2^64) and every other source counts 0; and while
  there are at most 1024 sources, the lines at info are exactly the first request of each.\<close>

theorem stun_attempts_are_counted:
  assumes "n \<le> length q" and "ks = requests_of (take n q)"
  shows "\<exists>c. reads n (log_read udp_read) (newSTUNLogConn q) = Some c
    \<and> lg_inner c = drop n q \<and> lg_log c = attempt_lines [] ks
    \<and> length (lg_attempts c) \<le> 1024
    \<and> (\<forall>k. attemptsFor k (lg_attempts c) = (if k \<in> tracked ks then of_nat (count_list ks k) else 0))
    \<and> (length (first_seen ks) \<le> 1024 \<and> length ks < 2 ^ 64 \<longrightarrow>
         map line_source (List.filter (\<lambda>l. l_level l = LInfo) (lg_log c)) = map VStr (first_seen ks))"
proof -
  obtain c where c: "reads n (log_read udp_read) (newSTUNLogConn q) = Some c" "lg_inner c = drop n q"
    "lg_attempts c = attempt_table ks" "lg_log c = attempt_lines [] ks"
    using log_reads [of "newSTUNLogConn q" "[]" n] assms by (auto simp: newSTUNLogConn_def)
  have "length (lg_attempts c) \<le> 1024"
    using attempt_table_spec [of ks] by (simp add: c(3) maxTrackedSources_def)
  moreover have "attemptsFor k (lg_attempts c) = (if k \<in> tracked ks then of_nat (count_list ks k) else 0)" for k
    using attempt_table_spec [of ks] by (simp add: c(3) attemptsFor_def)
  moreover have "map line_source (List.filter (\<lambda>l. l_level l = LInfo) (lg_log c)) = map VStr (first_seen ks)"
    if "length (first_seen ks) \<le> 1024 \<and> length ks < 2 ^ 64"
    using info_lines [of "[]" ks] that by (simp add: c(4) maxTrackedSources_def first_seen_def)
  ultimately show ?thesis using c by blast
qed

definition sample_request :: bytes where
  "sample_request = [0, 1, 0, 0, 0x21, 0x12, 0xA4, 0x42, 1, 2, 3, 4, 5, 6, 7, 8, 9, 10, 11, 12]"

lemma sample_request_is: "isBindingRequest sample_request = Some True"
  by code_simp

theorem stun_attempts_are_counted_witness:
  "\<exists>c. reads 3 (log_read udp_read) (newSTUNLogConn
        [Datagram sample_request ''a'', ReadErr ''x'', Datagram sample_request ''a'', Datagram [] ''b''])
      = Some c \<and> lg_inner c = [Datagram [] ''b''] \<and> attemptsFor ''a'' (lg_attempts c) = 2"
proof -
  let ?q = "[Datagram sample_request ''a'', ReadErr ''x'', Datagram sample_request ''a'', Datagram [] ''b'']"
  have ks: "[''a'', ''a''] = requests_of (take 3 ?q)" by (simp add: sample_request_is)
  have "''a'' \<in> tracked [''a'', ''a'']" by (simp add: tracked_def first_seen_def maxTrackedSources_def)
  then show ?thesis using stun_attempts_are_counted [of 3 ?q, OF _ ks] by fastforce
qed

section \<open>The filter\<close>

lemma log_read_request:
  assumes "lg_inner c = x # xs"
  shows "\<exists>i. log_read udp_read c = Some (x, i) \<and> lg_inner i = xs
    \<and> length (lg_log i) = length (lg_log c) + (if is_request x then 1 else 0)"
proof (cases x)
  case (Datagram p a)
  obtain b where "isBindingRequest p = Some b" using isBindingRequest_total by blast
  then show ?thesis using assms Datagram
    by (cases b) (simp_all add: log_read_def udp_read_def is_request_def split_beta Let_def)
qed (use assms in \<open>simp add: log_read_def udp_read_def is_request_def\<close>)

text \<open>C31: With STUN disabled, a read returns exactly when something other than a Binding request is
  pending behind the requests: it discards the requests before it, counting each one (modulo
  2^64) and each of them having been logged as an attempt first, and hands on the result
  itself; while there are only requests it never returns.\<close>

theorem filtered_read_returns:
  "(case dropWhile is_request (lg_inner (fl_inner c)) of
      [] \<Rightarrow> filter_read (log_read udp_read) c = None
    | r # rs \<Rightarrow> \<exists>c'. filter_read (log_read udp_read) c = Some (r, c')
        \<and> lg_inner (fl_inner c') = rs
        \<and> fl_dropped c' = fl_dropped c + of_nat (length (takeWhile is_request (lg_inner (fl_inner c))))
        \<and> length (lg_log (fl_inner c')) = length (lg_log (fl_inner c))
            + length (takeWhile is_request (lg_inner (fl_inner c))))"
proof (induction "lg_inner (fl_inner c)" arbitrary: c)
  case Nil
  then show ?case by (simp add: filter_read.simps log_read_def udp_read_def flip: Nil)
next
  case (Cons x xs)
  note q = Cons(2) [symmetric]
  obtain i where i: "log_read udp_read (fl_inner c) = Some (x, i)" "lg_inner i = xs"
    "length (lg_log i) = length (lg_log (fl_inner c)) + (if is_request x then 1 else 0)"
    using log_read_request [OF q] by blast
  have step: "filter_read (log_read udp_read) c = (if is_request x
      then filter_read (log_read udp_read) (drop_request (case x of Datagram p a \<Rightarrow> a) (c\<lparr>fl_inner := i\<rparr>))
      else Some (x, c\<lparr>fl_inner := i\<rparr>))"
  proof (cases x)
    case (Datagram p a)
    obtain b where "isBindingRequest p = Some b" using isBindingRequest_total by blast
    then show ?thesis by (subst filter_read.simps) (simp add: i(1) is_request_def Datagram)
  qed (subst filter_read.simps, simp add: i(1) is_request_def)
  show ?case
  proof (cases "is_request x")
    case True
    obtain d where d: "filter_read (log_read udp_read) c = filter_read (log_read udp_read) d"
      "lg_inner (fl_inner d) = xs" "fl_dropped d = fl_dropped c + 1"
      "length (lg_log (fl_inner d)) = Suc (length (lg_log (fl_inner c)))"
      using that [of "drop_request (case x of Datagram p a \<Rightarrow> a) (c\<lparr>fl_inner := i\<rparr>)"] step i True
      by (simp add: drop_request_def Let_def)
    from Cons(1) [of d] show ?thesis using True
      by (cases "dropWhile is_request xs") (simp_all add: q d add.assoc del: dropWhile_eq_Nil_conv)
  next
    case False
    then show ?thesis using i by (simp add: q step)
  qed
qed

section \<open>Responses on their way out\<close>

text \<open>The logger reports each Binding response once, at warn when it could not be sent, and changes
  nothing else; no packet makes it panic.\<close>

lemma log_write_lines:
  "\<exists>c'. log_write err p addr c = Some c' \<and> lg_inner c' = lg_inner c \<and> lg_attempts c' = lg_attempts c
    \<and> (\<exists>ls. lg_log c' = lg_log c @ ls
        \<and> length ls = (if map_option fst (isBindingResponse p) = Some True then 1 else 0)
        \<and> (\<forall>l \<in> set ls. l_level l = (if err = None then LInfo else LWarn)))"
proof -
  obtain t where "stunMessageType p = Some t" using stunMessageType_total by blast
  then obtain a b where "isBindingResponse p = Some (a, b)" by (cases t) (auto simp: isBindingResponse_def)
  moreover obtain m where "mappedAddress p = Some m" using mappedAddress_total by blast
  ultimately show ?thesis
    by (auto simp: log_write_def log_at_def split: option.splits)
qed

end
