(* ===== verification/Netip.thy ===== *)
theory Netip
  imports StunProps
begin

text \<open>
  \<open>net.ParseIP\<close>, which \<open>turn.New\<close> applies to the configured external address: dotted
  IPv4 (no leading zeros, four fields) and IPv6 with \<open>::\<close> and an embedded IPv4 tail, no zone.
  The result is always the 16-byte form.
\<close>

section \<open>Dotted IPv4\<close>

text \<open>The fields of \<open>s\<close> separated by \<open>sep\<close>.\<close>

fun fields :: "char \<Rightarrow> string \<Rightarrow> string list" where
  "fields sep [] = [[]]"
| "fields sep (c # s) =
     (if c = sep then [] # fields sep s
      else (case fields sep s of f # fs \<Rightarrow> (c # f) # fs | [] \<Rightarrow> [[c]]))"

definition octet :: "string \<Rightarrow> byte option" where
  "octet s =
     (if s = [] \<or> (1 < length s \<and> hd s = CHR ''0'') then None
      else case parse_uint 0 s of Inl _ \<Rightarrow> None | Inr n \<Rightarrow> if n < 256 then Some (of_nat n) else None)"

definition parse_ipv4 :: "string \<Rightarrow> bytes option" where
  "parse_ipv4 s =
     (case map octet (fields CHR ''.'' s) of
        [Some a, Some b, Some c, Some d] \<Rightarrow> Some [a, b, c, d]
      | _ \<Rightarrow> None)"

section \<open>IPv6\<close>

definition hex_value :: "char \<Rightarrow> nat option" where
  "hex_value c =
     (let n = code c in
      if 48 \<le> n \<and> n \<le> 57 then Some (n - 48)
      else if 97 \<le> n \<and> n \<le> 102 then Some (n - 87)
      else if 65 \<le> n \<and> n \<le> 70 then Some (n - 55)
      else None)"

definition hex_number :: "string \<Rightarrow> nat" where
  "hex_number s = foldl (\<lambda>n c. n * 16 + (case hex_value c of None \<Rightarrow> 0 | Some d \<Rightarrow> d)) 0 s"

text \<open>
  The groups of an address: \<open>n\<close> bytes are filled, \<open>ell\<close> is where \<open>::\<close> stood.
  The result is the bytes, the place of the ellipsis and the text left over.
\<close>

fun ipv6_loop :: "nat \<Rightarrow> string \<Rightarrow> bytes \<Rightarrow> nat option \<Rightarrow> (bytes \<times> nat option \<times> string) option" where
  "ipv6_loop 0 s ip ell = Some (ip, ell, s)"
| "ipv6_loop (Suc k) s ip ell =
     (let grp = takeWhile (\<lambda>c. hex_value c \<noteq> None) s;
          rest = drop (length grp) s;
          v = hex_number grp;
          ip' = ip @ [of_nat (v div 256), of_nat v]
      in if grp = [] \<or> 4 < length grp then None
         else if rest \<noteq> [] \<and> hd rest = CHR ''.'' then
           (if (ell = None \<and> length ip \<noteq> 12) \<or> 16 < length ip + 4 then None
            else map_option (\<lambda>v4. (ip @ v4, ell, [])) (parse_ipv4 s))
         else (case rest of
             [] \<Rightarrow> Some (ip', ell, [])
           | c # s1 \<Rightarrow>
               if c \<noteq> CHR '':'' \<or> s1 = [] then None
               else if hd s1 = CHR '':'' then
                 (if ell \<noteq> None then None
                  else if tl s1 = [] then Some (ip', Some (length ip'), [])
                  else ipv6_loop k (tl s1) ip' (Some (length ip')))
               else ipv6_loop k s1 ip' ell))"

definition expand_ellipsis :: "bytes \<times> nat option \<times> string \<Rightarrow> bytes option" where
  "expand_ellipsis r =
     (case r of (ip, ell, s) \<Rightarrow>
        if s \<noteq> [] then None
        else (case ell of
            None \<Rightarrow> if length ip < 16 then None else Some ip
          | Some e \<Rightarrow>
              if length ip < 16 then Some (take e ip @ replicate (16 - length ip) 0 @ drop e ip)
              else None))"

definition parse_ipv6 :: "string \<Rightarrow> bytes option" where
  "parse_ipv6 s =
     (if take 2 s = ''::'' then
        (if drop 2 s = [] then Some (replicate 16 0)
         else Option.bind (ipv6_loop 8 (drop 2 s) [] (Some 0)) expand_ellipsis)
      else Option.bind (ipv6_loop 8 s [] None) expand_ellipsis)"

text \<open>The first of \<open>.\<close>, \<open>:\<close> and \<open>%\<close> decides the family.\<close>

definition parse_ip :: "string \<Rightarrow> bytes option" where
  "parse_ip s =
     (case dropWhile (\<lambda>c. c \<notin> set ''.:%'') s of
        [] \<Rightarrow> None
      | c # _ \<Rightarrow>
          if c = CHR ''.'' then map_option (\<lambda>v4. replicate 10 0 @ [0xFF, 0xFF] @ v4) (parse_ipv4 s)
          else if c = CHR '':'' then (if CHR ''%'' \<in> set s then None else parse_ipv6 s)
          else None)"

section \<open>Reading back what \<open>IP.String\<close> writes\<close>

lemma fields_sep: "sep \<notin> set a \<Longrightarrow> fields sep (a @ sep # s) = a # fields sep s"
  by (induction a) auto

lemma fields_none: "sep \<notin> set a \<Longrightarrow> fields sep a = [a]"
  by (induction a) auto

lemma itoa_nat_no_dot: "CHR ''.'' \<notin> set (itoa_nat n)"
  using itoa_nat_digits [of "CHR ''.''"] by (auto simp: is_digit_def)

lemma hd_itoa_nat: "0 < n \<Longrightarrow> hd (itoa_nat n) \<noteq> CHR ''0''"
proof (induction n rule: itoa_nat.induct)
  case (1 n)
  show ?case
  proof (cases "n < 10")
    case True
    have "code (digit n) \<noteq> code (CHR ''0'')" using 1(2) True by simp
    then have "digit n \<noteq> CHR ''0''" by metis
    then show ?thesis using True by (simp add: itoa_nat.simps [of n])
  next
    case False
    then show ?thesis using 1 by (subst itoa_nat.simps) simp
  qed
qed

lemma octet_itoa: "n < 256 \<Longrightarrow> octet (itoa_nat n) = Some (of_nat n)"
proof -
  assume n: "n < 256"
  have "\<not> (1 < length (itoa_nat n) \<and> hd (itoa_nat n) = CHR ''0'')"
    using hd_itoa_nat [of n] by (cases "n = 0") (auto simp: itoa_nat.simps [of 0])
  then show ?thesis using n parse_uint_itoa [of n] by (simp add: octet_def)
qed

lemma dotted_four: "dotted [a, b, c, d] =
    itoa_nat (unat a) @ ''.'' @ itoa_nat (unat b) @ ''.'' @ itoa_nat (unat c) @ ''.'' @ itoa_nat (unat d)"
  by (simp add: dotted_def upt_rec)

lemma unat_byte: "unat (a :: byte) < 256"
  using unsigned_less [of a] by simp

lemma parse_ipv4_dotted: "parse_ipv4 (dotted [a, b, c, d]) = Some [a, b, c, d]"
  by (simp add: parse_ipv4_def dotted_four fields_sep fields_none itoa_nat_no_dot octet_itoa unat_byte)

lemma parse_ip_dotted:
  "parse_ip (dotted [a, b, c, d]) = Some (replicate 10 0 @ [0xFF, 0xFF] @ [a, b, c, d])"
proof -
  have digits: "\<forall>x \<in> set (itoa_nat (unat a)). x \<notin> set ''.:%''"
    using itoa_nat_digits by (fastforce simp: is_digit_def)
  have "dropWhile (\<lambda>c. c \<notin> set ''.:%'') (dotted [a, b, c, d])
      = CHR ''.'' # itoa_nat (unat b) @ ''.'' @ itoa_nat (unat c) @ ''.'' @ itoa_nat (unat d)"
    using digits by (simp add: dotted_four)
  then show ?thesis by (simp add: parse_ip_def parse_ipv4_dotted)
qed

lemma ip_string_parsed: "to4 (replicate 10 0 @ [0xFF, 0xFF] @ [a, b, c, d]) = Some [a, b, c, d]"
  by (simp add: to4_def)

section \<open>The result has sixteen bytes\<close>

lemma parse_ipv4_length: "parse_ipv4 s = Some v4 \<Longrightarrow> length v4 = 4"
  by (auto simp: parse_ipv4_def split: list.splits option.splits)

lemma ipv6_loop_length:
  "ipv6_loop k s ip ell = Some (ip', ell', s') \<Longrightarrow> length ip + 2 * k \<le> 16 \<Longrightarrow> length ip' \<le> 16"
proof (induction k s ip ell rule: ipv6_loop.induct)
  case (2 k s ip ell)
  let ?grp = "takeWhile (\<lambda>c. hex_value c \<noteq> None) s"
  let ?rest = "drop (length ?grp) s"
  let ?ip = "ip @ [of_nat (hex_number ?grp div 256), of_nat (hex_number ?grp)]"
  have len: "length ?ip + 2 * k \<le> 16" using "2.prems"(2) by simp
  show ?case
    using "2.prems"(1) "2.IH" len parse_ipv4_length [of s]
    by (auto simp: Let_def split: if_splits list.splits)
qed simp

lemma parse_ip_length: "parse_ip s = Some ip \<Longrightarrow> length ip = 16"
proof -
  assume p: "parse_ip s = Some ip"
  have "length ip' = 16" if "parse_ipv6 t = Some ip'" for t ip'
  proof -
    have "length q = 16" if "Option.bind (ipv6_loop 8 u [] ell) expand_ellipsis = Some q" for u ell q
      using that ipv6_loop_length [of 8 u "[]" ell]
      by (cases "ipv6_loop 8 u [] ell") (auto simp: expand_ellipsis_def split: if_splits option.splits)
    then show ?thesis using that by (auto simp: parse_ipv6_def split: if_splits)
  qed
  then show ?thesis
    using p parse_ipv4_length by (auto simp: parse_ip_def split: list.splits if_splits)
qed

end
