(* ===== verification/TurnServer.thy ===== *)
theory TurnServer
  imports StunConnsProps Netip
begin

text \<open>
  \<open>turn/turn.go\<close> and \<open>turn/events.go\<close>: the embedded STUN/TURN server.  The
  network and pion are parameters (\<open>net_env\<close>); the process's open sockets, the sockets' fresh
  numbers and the log are the \<open>process\<close> the operations pass on.
\<close>

section \<open>The process and the libraries below\<close>

datatype socket = Socket (socket_id: nat) (socket_addr: string)

record process =
  pr_next :: nat
  pr_open :: "socket list"
  pr_log :: "log_line list"

definition open_socket :: "string \<Rightarrow> process \<Rightarrow> socket \<times> process" where
  "open_socket addr w =
     (let s = Socket (pr_next w) addr in (s, w\<lparr>pr_next := Suc (pr_next w), pr_open := s # pr_open w\<rparr>))"

definition close_sockets :: "socket list \<Rightarrow> process \<Rightarrow> process" where
  "close_sockets ss w = w\<lparr>pr_open := List.filter (\<lambda>s. s \<notin> set ss) (pr_open w)\<rparr>"

definition log_warn :: "bool \<Rightarrow> string \<Rightarrow> process \<Rightarrow> process" where
  "log_warn hasLog msg w = (if hasLog then w\<lparr>pr_log := pr_log w @ [log_at LWarn msg []]\<rparr> else w)"

definition fresh_ids :: "process \<Rightarrow> bool" where
  "fresh_ids w \<longleftrightarrow> (\<forall>s \<in> set (pr_open w). socket_id s < pr_next w)"

type_synonym authenticator = "bytes \<Rightarrow> string \<Rightarrow> bytes option"

record relay_gen =
  rg_RelayAddress :: bytes
  rg_MinPort :: "16 word"
  rg_MaxPort :: "16 word"
  rg_MaxRetries :: nat
  rg_Address :: string

text \<open>The wrappers around the UDP socket, innermost first.\<close>

datatype layer = LogLayer | FilterLayer | AnyLayer

record pion_config =
  pc_PacketConns :: "(socket \<times> layer list \<times> relay_gen) list"
  pc_Listeners :: "(socket \<times> relay_gen) list"
  pc_Realm :: string
  pc_AuthHandler :: "bytes \<Rightarrow> string \<Rightarrow> bytes \<times> bytes option"
  pc_hasEvents :: bool

text \<open>
  What \<open>net.InterfaceAddrs\<close>, \<open>ListenPacket\<close>, \<open>Listen\<close> (an error or the local
  address), \<open>pion.NewServer\<close> and \<open>pion.Server.Close\<close> do.
\<close>

datatype ifaddr = IPNet bytes | OtherAddr

record net_env =
  ne_interfaces :: "string + ifaddr list"
  ne_listenPacket :: "string \<Rightarrow> string + string"
  ne_listen :: "string \<Rightarrow> string + string"
  ne_newServer :: "pion_config \<Rightarrow> string option"
  ne_closeServer :: "socket list \<Rightarrow> process \<Rightarrow> string option \<times> process"

section \<open>externalIP\<close>

text \<open>\<open>net.IP.IsLoopback\<close>\<close>

definition is_loopback :: "bytes \<Rightarrow> bool" where
  "is_loopback ip = (case to4 ip of Some v4 \<Rightarrow> hd v4 = 127 | None \<Rightarrow> ip = replicate 15 0 @ [1])"

fun first_ipv4 :: "ifaddr list \<Rightarrow> bytes option" where
  "first_ipv4 [] = None"
| "first_ipv4 (a # as) =
     (case a of
        IPNet ip \<Rightarrow> if \<not> is_loopback ip \<and> to4 ip \<noteq> None then Some ip else first_ipv4 as
      | OtherAddr \<Rightarrow> first_ipv4 as)"

definition externalIP :: "net_env \<Rightarrow> string + bytes" where
  "externalIP env =
     (case ne_interfaces env of
        Inl e \<Rightarrow> Inl e
      | Inr as \<Rightarrow>
          (case first_ipv4 as of
             Some ip \<Rightarrow> Inr ip
           | None \<Rightarrow> Inl ''no non-loopback IPv4 address found''))"

section \<open>New\<close>

definition realm :: string where "realm = ''jokertc''"

record turnConfig =
  tc_ListenUDPAddr :: string
  tc_ListenTCPAddr :: string
  tc_ExternalIP :: string
  tc_RelayPortMin :: int
  tc_RelayPortMax :: int
  tc_Auth :: "authenticator option"
  tc_hasLog :: bool
  tc_DisableSTUN :: bool
  tc_AllowAnyCredential :: bool

datatype turn_error =
    NoListener
  | InvalidRelayPorts int int
  | NoAuthenticator
  | NoExternalIP string
  | UDPListener string
  | TCPListener string
  | PionServer string

definition turn_error_text :: "turn_error \<Rightarrow> string" where
  "turn_error_text e =
     (case e of
        NoListener \<Rightarrow> ''at least one of ListenUDPAddr / ListenTCPAddr required''
      | InvalidRelayPorts lo hi \<Rightarrow> ''invalid relay port range '' @ itoa lo @ ''-'' @ itoa hi
      | NoAuthenticator \<Rightarrow> ''authenticator required''
      | NoExternalIP err \<Rightarrow> ''no ExternalIP configured and auto-detection failed: '' @ err
      | UDPListener err \<Rightarrow> ''TURN UDP listener: '' @ err
      | TCPListener err \<Rightarrow> ''TURN TCP listener: '' @ err
      | PionServer err \<Rightarrow> ''pion TURN server: '' @ err)"

record turnServer =
  ts_udpConn :: "socket option"
  ts_tcpListener :: "socket option"
  ts_srv :: pion_config
  ts_stopped :: bool

definition relay_ip :: "net_env \<Rightarrow> turnConfig \<Rightarrow> turn_error + bytes" where
  "relay_ip env cfg =
     (case parse_ip (tc_ExternalIP cfg) of
        Some ip \<Rightarrow> Inr ip
      | None \<Rightarrow> (case externalIP env of Inl e \<Rightarrow> Inl (NoExternalIP e) | Inr ip \<Rightarrow> Inr ip))"

definition newGen :: "turnConfig \<Rightarrow> bytes \<Rightarrow> relay_gen" where
  "newGen cfg relayIP =
     \<lparr>rg_RelayAddress = relayIP,
      rg_MinPort = word_of_int (tc_RelayPortMin cfg), rg_MaxPort = word_of_int (tc_RelayPortMax cfg),
      rg_MaxRetries = 10, rg_Address = ''0.0.0.0''\<rparr>"

definition auth_handler :: "authenticator \<Rightarrow> bytes \<Rightarrow> string \<Rightarrow> bytes \<times> bytes option" where
  "auth_handler auth username rlm = (username, auth username rlm)"

definition layers :: "turnConfig \<Rightarrow> layer list" where
  "layers cfg =
     (if tc_hasLog cfg then [LogLayer] else [])
     @ (if tc_DisableSTUN cfg then [FilterLayer] else [])
     @ (if tc_AllowAnyCredential cfg then [AnyLayer] else [])"

text \<open>
  The same wrappers as readers: what \<open>n\<close> reads of the wrapped connection deliver when the
  results \<open>q\<close> are pending on the socket.
\<close>

definition served_drain :: "turnConfig \<Rightarrow> nat \<Rightarrow> packet_result list \<Rightarrow> packet_result list" where
  "served_drain cfg n q =
     (let hl = tc_hasLog cfg; f = tc_DisableSTUN cfg; a = tc_AllowAnyCredential cfg
      in if hl then
           (if f then
              (if a then drain n (any_read (filter_read (log_read udp_read)))
                     (newAnyCredentialConn (newStunFilterConn (newSTUNLogConn q) hl) realm hl)
               else drain n (filter_read (log_read udp_read)) (newStunFilterConn (newSTUNLogConn q) hl))
            else
              (if a then drain n (any_read (log_read udp_read)) (newAnyCredentialConn (newSTUNLogConn q) realm hl)
               else drain n (log_read udp_read) (newSTUNLogConn q)))
         else
           (if f then
              (if a then drain n (any_read (filter_read udp_read))
                     (newAnyCredentialConn (newStunFilterConn q hl) realm hl)
               else drain n (filter_read udp_read) (newStunFilterConn q hl))
            else
              (if a then drain n (any_read udp_read) (newAnyCredentialConn q realm hl)
               else drain n udp_read q)))"

text \<open>The two listeners; each is skipped when its address is empty.\<close>

definition listen_udp :: "net_env \<Rightarrow> turnConfig \<Rightarrow> process \<Rightarrow> (turn_error + socket option) \<times> process" where
  "listen_udp env cfg w =
     (if tc_ListenUDPAddr cfg = [] then (Inr None, w)
      else case ne_listenPacket env (tc_ListenUDPAddr cfg) of
          Inl e \<Rightarrow> (Inl (UDPListener e), w)
        | Inr addr \<Rightarrow>
            let (s, w1) = open_socket addr w;
                w2 = (if tc_DisableSTUN cfg
                  then log_warn (tc_hasLog cfg) ''STUN binding requests are disabled on the TURN UDP listener'' w1
                  else w1);
                w3 = (if tc_AllowAnyCredential cfg
                  then log_warn (tc_hasLog cfg) (''TURN accepts ANY username/password '' @ encode_rune 0x2014
                    @ '' this is an open relay'') w2
                  else w2)
            in (Inr (Some s), w3))"

definition listen_tcp :: "net_env \<Rightarrow> turnConfig \<Rightarrow> process \<Rightarrow> (turn_error + socket option) \<times> process" where
  "listen_tcp env cfg w =
     (if tc_ListenTCPAddr cfg = [] then (Inr None, w)
      else case ne_listen env (tc_ListenTCPAddr cfg) of
          Inl e \<Rightarrow> (Inl (TCPListener e), w)
        | Inr addr \<Rightarrow> let (s, w1) = open_socket addr w in (Inr (Some s), w1))"

definition server_config ::
  "turnConfig \<Rightarrow> authenticator \<Rightarrow> bytes \<Rightarrow> socket option \<Rightarrow> socket option \<Rightarrow> pion_config" where
  "server_config cfg auth ip udp tcp =
     \<lparr>pc_PacketConns = (case udp of None \<Rightarrow> [] | Some s \<Rightarrow> [(s, layers cfg, newGen cfg ip)]),
      pc_Listeners = (case tcp of None \<Rightarrow> [] | Some s \<Rightarrow> [(s, newGen cfg ip)]),
      pc_Realm = realm, pc_AuthHandler = auth_handler auth, pc_hasEvents = tc_hasLog cfg\<rparr>"

definition turn_new :: "net_env \<Rightarrow> turnConfig \<Rightarrow> process \<Rightarrow> (turn_error + turnServer) \<times> process" where
  "turn_new env cfg w =
     (if tc_ListenUDPAddr cfg = [] \<and> tc_ListenTCPAddr cfg = [] then (Inl NoListener, w)
      else if tc_RelayPortMin cfg \<le> 0 \<or> tc_RelayPortMax cfg < tc_RelayPortMin cfg \<or> tc_RelayPortMax cfg > 65535
      then (Inl (InvalidRelayPorts (tc_RelayPortMin cfg) (tc_RelayPortMax cfg)), w)
      else case tc_Auth cfg of
        None \<Rightarrow> (Inl NoAuthenticator, w)
      | Some auth \<Rightarrow>
          (case relay_ip env cfg of
             Inl e \<Rightarrow> (Inl e, w)
           | Inr ip \<Rightarrow>
               (case listen_udp env cfg w of
                  (Inl e, w1) \<Rightarrow> (Inl e, w1)
                | (Inr udp, w1) \<Rightarrow>
                    (case listen_tcp env cfg w1 of
                       (Inl e, w2) \<Rightarrow> (Inl e, w2)
                     | (Inr tcp, w2) \<Rightarrow>
                         let sc = server_config cfg auth ip udp tcp
                         in case ne_newServer env sc of
                              Some e \<Rightarrow> (Inl (PionServer e), w2)
                            | None \<Rightarrow>
                                (Inr \<lparr>ts_udpConn = udp, ts_tcpListener = tcp, ts_srv = sc, ts_stopped = False\<rparr>, w2)))))"

section \<open>Close and Run\<close>

text \<open>The sockets pion was handed.\<close>

definition handed :: "pion_config \<Rightarrow> socket list" where
  "handed sc = map fst (pc_Listeners sc) @ map fst (pc_PacketConns sc)"

definition turn_close :: "net_env \<Rightarrow> turnServer \<times> process \<Rightarrow> string option \<times> turnServer \<times> process" where
  "turn_close env sw =
     (let (s, w) = sw in
      if ts_stopped s then (None, s, w)
      else let (err, w') = ne_closeServer env (handed (ts_srv s)) w in (err, s\<lparr>ts_stopped := True\<rparr>, w'))"

text \<open>
  The ways \<open>Run\<close> can return: one per ready case of its \<open>select\<close>, none while it blocks.
\<close>

definition turn_run :: "net_env \<Rightarrow> bool \<Rightarrow> turnServer \<times> process \<Rightarrow> (string option \<times> turnServer \<times> process) list" where
  "turn_run env ctx_done sw =
     (if ctx_done then [turn_close env sw] else []) @ (if ts_stopped (fst sw) then [(None, sw)] else [])"

definition UDPAddr :: "turnServer \<Rightarrow> string option" where
  "UDPAddr s = map_option socket_addr (ts_udpConn s)"

definition TCPAddr :: "turnServer \<Rightarrow> string option" where
  "TCPAddr s = map_option socket_addr (ts_tcpListener s)"

section \<open>events.go\<close>

text \<open>An address may be a nil interface; \<open>peer\<close> of a permission is an \<open>net.IP\<close>.\<close>

type_synonym net_addr = "string option"

definition addrString :: "net_addr \<Rightarrow> string" where
  "addrString a = (case a of None \<Rightarrow> [] | Some s \<Rightarrow> s)"

text \<open>What pion reports, with the arguments of each callback (the realm is not used).\<close>

datatype relay_event =
    AllocationCreated net_addr net_addr string string net_addr int
  | AllocationDeleted net_addr net_addr string string
  | AllocationError net_addr net_addr string string
  | PermissionCreated net_addr string string net_addr bytes
  | PermissionDeleted net_addr string string net_addr bytes
  | ChannelCreated net_addr string string net_addr net_addr "16 word"
  | ChannelDeleted net_addr string string net_addr net_addr "16 word"
  | AuthChecked net_addr string string string bool

definition permission_attrs :: "net_addr \<Rightarrow> string \<Rightarrow> string \<Rightarrow> net_addr \<Rightarrow> bytes \<Rightarrow> (string \<times> attr_value) list" where
  "permission_attrs src proto user relayAddr peer =
     [(''via'', VStr ''permission''), (''client'', VStr (addrString src)), (''proto'', VStr proto),
      (''user'', VStr user), (''relayAddr'', VStr (addrString relayAddr)), (''peer'', VStr (ip_string peer))]"

definition channel_attrs ::
  "net_addr \<Rightarrow> string \<Rightarrow> string \<Rightarrow> net_addr \<Rightarrow> net_addr \<Rightarrow> 16 word \<Rightarrow> (string \<times> attr_value) list" where
  "channel_attrs src proto user relayAddr peer channel =
     [(''via'', VStr ''channel''), (''client'', VStr (addrString src)), (''proto'', VStr proto),
      (''user'', VStr user), (''relayAddr'', VStr (addrString relayAddr)),
      (''peer'', VStr (addrString peer)), (''channel'', VInt (uint channel))]"

definition event_line :: "relay_event \<Rightarrow> log_line" where
  "event_line e =
     (case e of
        AllocationCreated src dst proto user relayAddr port \<Rightarrow>
          log_at LInfo ''TURN allocation created''
            [(''client'', VStr (addrString src)), (''listener'', VStr (addrString dst)), (''proto'', VStr proto),
             (''user'', VStr user), (''relayAddr'', VStr (addrString relayAddr)), (''requestedPort'', VInt port)]
      | AllocationDeleted src dst proto user \<Rightarrow>
          log_at LInfo ''TURN allocation deleted''
            [(''client'', VStr (addrString src)), (''listener'', VStr (addrString dst)), (''proto'', VStr proto),
             (''user'', VStr user)]
      | AllocationError src dst proto msg \<Rightarrow>
          log_at LWarn ''TURN allocation error''
            [(''client'', VStr (addrString src)), (''listener'', VStr (addrString dst)), (''proto'', VStr proto),
             (''err'', VStr msg)]
      | PermissionCreated src proto user relayAddr peer \<Rightarrow>
          log_at LInfo ''TURN forwarding started'' (permission_attrs src proto user relayAddr peer)
      | PermissionDeleted src proto user relayAddr peer \<Rightarrow>
          log_at LInfo ''TURN forwarding stopped'' (permission_attrs src proto user relayAddr peer)
      | ChannelCreated src proto user relayAddr peer channel \<Rightarrow>
          log_at LInfo ''TURN forwarding started'' (channel_attrs src proto user relayAddr peer channel)
      | ChannelDeleted src proto user relayAddr peer channel \<Rightarrow>
          log_at LInfo ''TURN forwarding stopped'' (channel_attrs src proto user relayAddr peer channel)
      | AuthChecked src proto user meth verdict \<Rightarrow>
          log_at LDebug ''TURN auth''
            [(''client'', VStr (addrString src)), (''proto'', VStr proto), (''user'', VStr user),
             (''method'', VStr meth), (''ok'', VBool verdict)])"

text \<open>Without a log no handler is installed, and the event leaves no trace.\<close>

definition newEventHandler :: "bool \<Rightarrow> relay_event \<Rightarrow> process \<Rightarrow> process" where
  "newEventHandler hasLog e w = (if hasLog then w\<lparr>pr_log := pr_log w @ [event_line e]\<rparr> else w)"

end
