(* ===== verification/TurnProps.thy ===== *)
theory TurnProps
  imports TurnServer
begin

text \<open>
  The TURN server's sockets: what a successful \<open>New\<close> opens, \<open>Close\<close> gives back, once; a
  failed \<open>New\<close> keeps what it had opened.  And the configuration pion is given.
\<close>

section \<open>Opening and closing sockets\<close>

lemma close_open_socket:
  assumes "fresh_ids w" "open_socket addr w = (s, w')"
  shows "s \<notin> set (pr_open w)" "pr_open w' = s # pr_open w" "fresh_ids w'"
  using assms by (auto simp: open_socket_def fresh_ids_def Let_def less_Suc_eq)

lemma log_warn_same [simp]:
  "pr_open (log_warn b m w) = pr_open w" "pr_next (log_warn b m w) = pr_next w" "fresh_ids (log_warn b m w) = fresh_ids w"
  by (simp_all add: log_warn_def fresh_ids_def)

text \<open>A listener step: it adds the socket it returns, and nothing else.\<close>

definition adds :: "process \<Rightarrow> socket option \<Rightarrow> process \<Rightarrow> bool" where
  "adds w s w' \<longleftrightarrow> fresh_ids w' \<and> (case s of
      None \<Rightarrow> pr_open w' = pr_open w
    | Some x \<Rightarrow> x \<notin> set (pr_open w) \<and> pr_open w' = x # pr_open w)"

lemma listen_udp_adds:
  assumes "fresh_ids w" "listen_udp env cfg w = (r, w')"
  shows "case r of Inl e \<Rightarrow> w' = w \<and> (\<exists>m. e = UDPListener m)
    | Inr s \<Rightarrow> adds w s w' \<and> (s = None \<longleftrightarrow> tc_ListenUDPAddr cfg = [])"
proof (cases "tc_ListenUDPAddr cfg = []")
  case True
  then show ?thesis using assms by (auto simp: listen_udp_def adds_def)
next
  case False
  show ?thesis
  proof (cases "ne_listenPacket env (tc_ListenUDPAddr cfg)")
    case (Inl e)
    then show ?thesis using assms False by (auto simp: listen_udp_def)
  next
    case (Inr addr)
    obtain s w1 where o: "open_socket addr w = (s, w1)" by fastforce
    note c = close_open_socket [OF assms(1) o]
    have "r = Inr (Some s)" "pr_open w' = pr_open w1" "fresh_ids w'"
      using assms(2) False Inr o c(3) by (auto simp: listen_udp_def Let_def)
    then show ?thesis using c False by (simp add: adds_def)
  qed
qed

lemma listen_tcp_adds:
  assumes "fresh_ids w" "listen_tcp env cfg w = (r, w')"
  shows "case r of Inl e \<Rightarrow> w' = w \<and> (\<exists>m. e = TCPListener m)
    | Inr s \<Rightarrow> adds w s w' \<and> (s = None \<longleftrightarrow> tc_ListenTCPAddr cfg = [])"
proof (cases "tc_ListenTCPAddr cfg = []")
  case True
  then show ?thesis using assms by (auto simp: listen_tcp_def adds_def)
next
  case False
  show ?thesis
  proof (cases "ne_listen env (tc_ListenTCPAddr cfg)")
    case (Inl e)
    then show ?thesis using assms False by (auto simp: listen_tcp_def)
  next
    case (Inr addr)
    obtain s w1 where o: "open_socket addr w = (s, w1)" by fastforce
    note c = close_open_socket [OF assms(1) o]
    have "r = Inr (Some s)" "w' = w1"
      using assms(2) False Inr o by (auto simp: listen_tcp_def)
    then show ?thesis using c False by (simp add: adds_def)
  qed
qed

definition opt_list :: "'a option \<Rightarrow> 'a list" where
  "opt_list x = (case x of None \<Rightarrow> [] | Some y \<Rightarrow> [y])"

lemma opt_list_simps [simp]: "opt_list None = []" "opt_list (Some x) = [x]"
  by (simp_all add: opt_list_def)

lemma length_opt_list: "length (opt_list x) = of_bool (x \<noteq> None)"
  by (cases x) simp_all

lemma adds_open: "adds w s w' \<Longrightarrow> pr_open w' = opt_list s @ pr_open w \<and> set (opt_list s) \<inter> set (pr_open w) = {} \<and> fresh_ids w'"
  by (auto simp: adds_def split: option.splits)

lemma handed_config: "handed (server_config cfg auth ip udp tcp) = opt_list tcp @ opt_list udp"
  by (simp add: handed_def server_config_def opt_list_def split: option.split)

lemma relay_ip_error: "relay_ip env cfg = Inl e \<Longrightarrow> \<exists>m. e = NoExternalIP m"
  by (auto simp: relay_ip_def split: option.splits sum.splits)

definition settings_ok :: "turnConfig \<Rightarrow> bool" where
  "settings_ok cfg \<longleftrightarrow> \<not> (tc_ListenUDPAddr cfg = [] \<and> tc_ListenTCPAddr cfg = [])
     \<and> 0 < tc_RelayPortMin cfg \<and> tc_RelayPortMin cfg \<le> tc_RelayPortMax cfg \<and> tc_RelayPortMax cfg \<le> 65535
     \<and> tc_Auth cfg \<noteq> None"

lemma turn_new_invalid:
  assumes "\<not> settings_ok cfg"
  shows "\<exists>e. turn_new env cfg w = (Inl e, w)
    \<and> e \<in> {NoListener, InvalidRelayPorts (tc_RelayPortMin cfg) (tc_RelayPortMax cfg), NoAuthenticator}"
  using assms by (auto simp: settings_ok_def turn_new_def)

text \<open>\<open>New\<close> once the settings are valid and the address is known: the listeners, then pion.\<close>

lemma turn_new_valid:
  assumes "settings_ok cfg" "tc_Auth cfg = Some auth" "relay_ip env cfg = Inr ip"
    and "listen_udp env cfg w = (ru, w1)"
  shows "turn_new env cfg w = (case ru of Inl e \<Rightarrow> (Inl e, w1) | Inr udp \<Rightarrow>
    (case listen_tcp env cfg w1 of (Inl e, w2) \<Rightarrow> (Inl e, w2) | (Inr tcp, w2) \<Rightarrow>
      let sc = server_config cfg auth ip udp tcp in case ne_newServer env sc of
        Some e \<Rightarrow> (Inl (PionServer e), w2)
      | None \<Rightarrow> (Inr \<lparr>ts_udpConn = udp, ts_tcpListener = tcp, ts_srv = sc, ts_stopped = False\<rparr>, w2)))"
  using assms by (auto simp: settings_ok_def turn_new_def split: sum.split)

text \<open>The one analysis of \<open>New\<close> the theorems share: every way it can end.\<close>

lemma turn_new_cases [consumes 2, case_names refused tcp_failed pion_failed ready]:
  assumes "fresh_ids w" "turn_new env cfg w = (r, w')"
  obtains (refused) e where "r = Inl e" "w' = w"
      "e \<in> {NoListener, InvalidRelayPorts (tc_RelayPortMin cfg) (tc_RelayPortMax cfg), NoAuthenticator}
       \<or> (\<exists>m. e = NoExternalIP m \<or> e = UDPListener m)"
  | (tcp_failed) udp m where "r = Inl (TCPListener m)" "adds w udp w'" "udp = None \<longleftrightarrow> tc_ListenUDPAddr cfg = []"
  | (pion_failed) udp tcp w1 m where "r = Inl (PionServer m)" "adds w udp w1" "adds w1 tcp w'"
      "udp = None \<longleftrightarrow> tc_ListenUDPAddr cfg = []" "tcp = None \<longleftrightarrow> tc_ListenTCPAddr cfg = []"
  | (ready) auth ip udp tcp w1 where "tc_Auth cfg = Some auth" "relay_ip env cfg = Inr ip"
      "r = Inr \<lparr>ts_udpConn = udp, ts_tcpListener = tcp, ts_srv = server_config cfg auth ip udp tcp, ts_stopped = False\<rparr>"
      "adds w udp w1" "adds w1 tcp w'"
      "udp = None \<longleftrightarrow> tc_ListenUDPAddr cfg = []" "tcp = None \<longleftrightarrow> tc_ListenTCPAddr cfg = []"
      "0 < tc_RelayPortMin cfg" "tc_RelayPortMin cfg \<le> tc_RelayPortMax cfg" "tc_RelayPortMax cfg \<le> 65535"
proof (cases "settings_ok cfg \<and> (\<exists>ip. relay_ip env cfg = Inr ip)")
  case False
  then show thesis
  proof (cases "settings_ok cfg")
    case True
    then obtain m where "relay_ip env cfg = Inl (NoExternalIP m)"
      using False relay_ip_error by (cases "relay_ip env cfg") blast+
    then show thesis using True assms(2)
      by (intro refused [of "NoExternalIP m"]) (auto simp: settings_ok_def turn_new_def)
  qed (use turn_new_invalid [of cfg env w] assms(2) refused in auto)
next
  case True
  then obtain ip auth where v: "settings_ok cfg" "relay_ip env cfg = Inr ip" "tc_Auth cfg = Some auth"
    by (auto simp: settings_ok_def)
  obtain ru w1 where u: "listen_udp env cfg w = (ru, w1)" by fastforce
  note lu = listen_udp_adds [OF assms(1) u] and new = turn_new_valid [OF v(1,3,2) u]
  show thesis
  proof (cases ru)
    case (Inl e)
    then show thesis using assms(2) lu new by (intro refused [of e]) auto
  next
    case ru: (Inr udp)
    obtain rt w2 where t: "listen_tcp env cfg w1 = (rt, w2)" by fastforce
    have au: "adds w udp w1" "udp = None \<longleftrightarrow> tc_ListenUDPAddr cfg = []" using lu ru by auto
    note lt = listen_tcp_adds [OF conjunct2 [OF conjunct2 [OF adds_open [OF au(1)]]] t]
    show thesis
    proof (cases rt)
      case (Inl e)
      then show thesis using new assms(2) lt au ru t by (auto intro: tcp_failed)
    next
      case rt: (Inr tcp)
      have at: "adds w1 tcp w2" "tcp = None \<longleftrightarrow> tc_ListenTCPAddr cfg = []" using lt rt by auto
      show thesis
      proof (cases "ne_newServer env (server_config cfg auth ip udp tcp)")
        case None
        then show thesis using new assms(2) ru rt t at au v
          by (intro ready [of auth ip udp tcp w1]) (auto simp: Let_def settings_ok_def)
      qed (use new assms(2) ru rt t at au in \<open>auto simp: Let_def intro: pion_failed\<close>)
    qed
  qed
qed

section \<open>Close\<close>

interpretation turn_once: one_shot "\<lambda>sw. ts_stopped (fst sw)" "\<lambda>env sw. snd (turn_close env sw)"
  by unfold_locales (auto simp: turn_close_def Let_def split: prod.split)

lemma close_after_close: "ts_stopped s \<Longrightarrow> turn_close env (s, w) = (None, s, w)"
  by (simp add: turn_close_def)

lemma filter_append_disjoint:
  "set xs \<inter> set ys = {} \<Longrightarrow> List.filter (\<lambda>s. s \<notin> set xs) (xs @ ys) = ys"
  by (auto simp: filter_id_conv)

lemma port_word: "0 < p \<Longrightarrow> p \<le> 65535 \<Longrightarrow> uint (word_of_int p :: 16 word) = p"
  by (simp add: uint_word_of_int)

definition generators :: "pion_config \<Rightarrow> relay_gen list" where
  "generators sc = map (\<lambda>(_, _, g). g) (pc_PacketConns sc) @ map snd (pc_Listeners sc)"

text \<open>C33: A TURN server that \<open>New\<close> returns holds open exactly one socket per configured listener,
  allocates relay ports from exactly the configured range (no wrap-around in the 16-bit
  conversion), and runs until it is closed or its context ends; closing it, directly or by
  ending the context, closes these sockets and no other, and closing it again does nothing.\<close>

theorem turn_server_owns_its_sockets:
  assumes fresh: "fresh_ids w" and new: "turn_new env cfg w = (Inr s, w')"
    and closes: "\<And>ss x. snd (ne_closeServer env ss x) = close_sockets ss x"
  shows "pr_open w' = handed (ts_srv s) @ pr_open w
    \<and> length (handed (ts_srv s)) = of_bool (tc_ListenUDPAddr cfg \<noteq> []) + of_bool (tc_ListenTCPAddr cfg \<noteq> [])
    \<and> (UDPAddr s = None \<longleftrightarrow> tc_ListenUDPAddr cfg = []) \<and> (TCPAddr s = None \<longleftrightarrow> tc_ListenTCPAddr cfg = [])
    \<and> (\<forall>g \<in> set (generators (ts_srv s)).
         uint (rg_MinPort g) = tc_RelayPortMin cfg \<and> uint (rg_MaxPort g) = tc_RelayPortMax cfg)
    \<and> turn_run env False (s, w') = [] \<and> turn_run env True (s, w') = [turn_close env (s, w')]
    \<and> (\<exists>err s2 w2. turn_close env (s, w') = (err, s2, w2) \<and> pr_open w2 = pr_open w
         \<and> turn_run env False (s2, w2) = [(None, s2, w2)]
         \<and> (\<forall>x. turn_close env (s2, x) = (None, s2, x)))"
  using fresh new
proof (cases rule: turn_new_cases)
  case (ready auth ip udp tcp w1)
  let ?sc = "server_config cfg auth ip udp tcp"
  have s: "s = \<lparr>ts_udpConn = udp, ts_tcpListener = tcp, ts_srv = ?sc, ts_stopped = False\<rparr>"
    using ready(3) by simp
  note a1 = adds_open [OF ready(4)] and a2 = adds_open [OF ready(5)]
  have h: "handed (ts_srv s) = opt_list tcp @ opt_list udp" by (simp add: s handed_config)
  have op: "pr_open w' = handed (ts_srv s) @ pr_open w" using a1 a2 h by simp
  have disj: "set (handed (ts_srv s)) \<inter> set (pr_open w) = {}" using a1 a2 h by auto
  have len: "length (opt_list udp) = of_bool (tc_ListenUDPAddr cfg \<noteq> [])"
    "length (opt_list tcp) = of_bool (tc_ListenTCPAddr cfg \<noteq> [])"
    using length_opt_list ready(6,7) by auto
  have "set (generators (ts_srv s)) \<subseteq> {newGen cfg ip}"
    by (auto simp: s generators_def server_config_def split: option.splits)
  then have gen: "\<forall>g \<in> set (generators (ts_srv s)).
      uint (rg_MinPort g) = tc_RelayPortMin cfg \<and> uint (rg_MaxPort g) = tc_RelayPortMax cfg"
    using port_word ready(8-10) by (auto simp: newGen_def)
  obtain err where close: "turn_close env (s, w') = (err, s\<lparr>ts_stopped := True\<rparr>, close_sockets (handed (ts_srv s)) w')"
    using closes [of "handed (ts_srv s)" w'] by (cases "ne_closeServer env (handed (ts_srv s)) w'") (simp add: turn_close_def s)
  have "pr_open (close_sockets (handed (ts_srv s)) w') = pr_open w"
    using filter_append_disjoint [OF disj] by (simp add: close_sockets_def op)
  then have "\<exists>err s2 w2. turn_close env (s, w') = (err, s2, w2) \<and> pr_open w2 = pr_open w
      \<and> turn_run env False (s2, w2) = [(None, s2, w2)] \<and> (\<forall>x. turn_close env (s2, x) = (None, s2, x))"
    using close
    by (intro exI [of _ err] exI [of _ "s\<lparr>ts_stopped := True\<rparr>"] exI [of _ "close_sockets (handed (ts_srv s)) w'"])
      (simp add: turn_run_def close_after_close)
  moreover have "turn_run env False (s, w') = []" "turn_run env True (s, w') = [turn_close env (s, w')]"
    by (simp_all add: turn_run_def s)
  moreover have "UDPAddr s = None \<longleftrightarrow> tc_ListenUDPAddr cfg = []" "TCPAddr s = None \<longleftrightarrow> tc_ListenTCPAddr cfg = []"
    using ready(6,7) by (simp_all add: UDPAddr_def TCPAddr_def s)
  moreover have "length (handed (ts_srv s)) = of_bool (tc_ListenUDPAddr cfg \<noteq> []) + of_bool (tc_ListenTCPAddr cfg \<noteq> [])"
    by (simp add: h len)
  ultimately show ?thesis using op gen by blast
qed simp_all

definition sample_env :: net_env where
  "sample_env = \<lparr>ne_interfaces = Inr [OtherAddr, IPNet [127, 0, 0, 1], IPNet [10, 0, 0, 7]],
     ne_listenPacket = (\<lambda>a. Inr (''0.0.0.0'' @ a)), ne_listen = (\<lambda>a. Inr (''0.0.0.0'' @ a)),
     ne_newServer = (\<lambda>_. None), ne_closeServer = (\<lambda>ss x. (None, close_sockets ss x))\<rparr>"

definition sample_config :: turnConfig where
  "sample_config = \<lparr>tc_ListenUDPAddr = '':3478'', tc_ListenTCPAddr = '':3478'', tc_ExternalIP = [],
     tc_RelayPortMin = 49152, tc_RelayPortMax = 49352, tc_Auth = Some (AllowAllAuth longTermKey),
     tc_hasLog = True, tc_DisableSTUN = False, tc_AllowAnyCredential = False\<rparr>"

definition empty_process :: process where
  "empty_process = \<lparr>pr_next = 0, pr_open = [], pr_log = []\<rparr>"

lemma fresh_empty: "fresh_ids empty_process"
  by (simp add: fresh_ids_def empty_process_def)

lemma sample_relay_ip: "relay_ip sample_env sample_config = Inr [10, 0, 0, 7]"
  by (simp add: relay_ip_def sample_config_def parse_ip_def externalIP_def sample_env_def
      to4_def is_loopback_def)

lemma sample_settings:
  "tc_Auth sample_config = Some (AllowAllAuth longTermKey)" "tc_ListenUDPAddr sample_config \<noteq> []"
  "tc_RelayPortMin sample_config = 49152" "tc_RelayPortMax sample_config = 49352"
  by (simp_all add: sample_config_def)

lemma sample_listen_udp:
  "ne_listenPacket env = ne_listenPacket sample_env \<Longrightarrow> \<exists>u w1. listen_udp env sample_config w = (Inr u, w1)"
  by (simp add: listen_udp_def sample_env_def sample_config_def open_socket_def Let_def)

lemma sample_new: "\<exists>s w'. turn_new sample_env sample_config empty_process = (Inr s, w')"
proof -
  obtain u w1 where "listen_udp sample_env sample_config empty_process = (Inr u, w1)"
    using sample_listen_udp by blast
  moreover have "\<exists>t w2. listen_tcp sample_env sample_config w1 = (Inr t, w2)"
    by (simp add: listen_tcp_def sample_env_def sample_config_def open_socket_def Let_def)
  moreover have "ne_newServer sample_env = (\<lambda>_. None)" by (simp add: sample_env_def)
  ultimately show ?thesis
    using sample_relay_ip sample_settings by (auto simp: turn_new_def Let_def)
qed

theorem turn_server_owns_its_sockets_witness:
  "\<exists>s w'. turn_new sample_env sample_config empty_process = (Inr s, w')
    \<and> length (handed (ts_srv s)) = 2 \<and> pr_open w' = handed (ts_srv s)"
proof -
  obtain s w' where n: "turn_new sample_env sample_config empty_process = (Inr s, w')"
    using sample_new by blast
  have "snd (ne_closeServer sample_env ss x) = close_sockets ss x" for ss x by (simp add: sample_env_def)
  from turn_server_owns_its_sockets [OF fresh_empty n this] n show ?thesis
    by (auto simp: sample_config_def empty_process_def)
qed

section \<open>What pion reads\<close>

text \<open>C30: Whatever the configuration, the connection \<open>New\<close> hands to pion delivers the packets of the
  socket in order and without loss, with two exceptions it was asked for: with STUN disabled the
  Binding requests are missing, and with any credential allowed each packet has its
  MESSAGE-INTEGRITY forged.  Logging changes nothing; read errors pass as they are, and after the
  last packet it waits.\<close>

theorem served_connection_delivers:
  "served_drain cfg n q =
     take n (map (if tc_AllowAnyCredential cfg then forge_result realm else (\<lambda>r. r))
       (List.filter (\<lambda>r. \<not> (tc_DisableSTUN cfg \<and> is_request r)) q))"
  by (simp add: served_drain_def drains newAnyCredentialConn_def newStunFilterConn_def newSTUNLogConn_def Let_def)

section \<open>A failed start\<close>

text \<open>C34: When \<open>New\<close> fails, the sockets it opened before the failure stay open: none if it failed
  while validating, on the external address or on the UDP listener; the UDP socket if the TCP
  listener failed; all of them if pion refused the configuration.  The sockets open before are
  untouched.\<close>

theorem failed_turn_new_keeps_sockets:
  assumes fresh: "fresh_ids w" and new: "turn_new env cfg w = (Inl e, w')"
  shows "\<exists>leaked. pr_open w' = leaked @ pr_open w \<and> set leaked \<inter> set (pr_open w) = {}
    \<and> length leaked = (case e of
        TCPListener _ \<Rightarrow> of_bool (tc_ListenUDPAddr cfg \<noteq> [])
      | PionServer _ \<Rightarrow> of_bool (tc_ListenUDPAddr cfg \<noteq> []) + of_bool (tc_ListenTCPAddr cfg \<noteq> [])
      | _ \<Rightarrow> 0)"
  using fresh new
proof (cases rule: turn_new_cases)
  case (refused e')
  then show ?thesis by (intro exI [of _ "[]"]) auto
next
  case (tcp_failed udp m)
  then show ?thesis
    using adds_open [OF tcp_failed(2)] by (intro exI [of _ "opt_list udp"]) (cases udp; simp)
next
  case (pion_failed udp tcp w1 m)
  note a = adds_open [OF pion_failed(2)] adds_open [OF pion_failed(3)]
  show ?thesis
  proof (intro exI conjI)
    show "pr_open w' = (opt_list tcp @ opt_list udp) @ pr_open w" using a by simp
    show "set (opt_list tcp @ opt_list udp) \<inter> set (pr_open w) = {}" using a by auto
    show "length (opt_list tcp @ opt_list udp) = (case e of
        TCPListener _ \<Rightarrow> of_bool (tc_ListenUDPAddr cfg \<noteq> [])
      | PionServer _ \<Rightarrow> of_bool (tc_ListenUDPAddr cfg \<noteq> []) + of_bool (tc_ListenTCPAddr cfg \<noteq> [])
      | _ \<Rightarrow> 0)"
      using pion_failed(1,4,5) by (cases udp; cases tcp) auto
  qed
qed simp

theorem failed_turn_new_keeps_sockets_witness:
  "\<exists>w' s. turn_new (sample_env\<lparr>ne_listen := (\<lambda>_. Inl ''in use'')\<rparr>) sample_config empty_process
      = (Inl (TCPListener ''in use''), w') \<and> pr_open w' = [s]"
proof -
  let ?env = "sample_env\<lparr>ne_listen := (\<lambda>_. Inl ''in use'')\<rparr>"
  have ext: "externalIP ?env = externalIP sample_env" by (simp add: externalIP_def)
  have "relay_ip ?env sample_config = Inr [10, 0, 0, 7]"
    using sample_relay_ip unfolding relay_ip_def ext .
  moreover have "\<exists>u w1. listen_udp ?env sample_config empty_process = (Inr u, w1)"
    by (intro sample_listen_udp) simp
  moreover have "listen_tcp ?env sample_config w1 = (Inl (TCPListener ''in use''), w1)" for w1
    by (simp add: listen_tcp_def sample_config_def)
  ultimately obtain w' where n: "turn_new ?env sample_config empty_process = (Inl (TCPListener ''in use''), w')"
    using sample_settings by (auto simp: turn_new_def)
  from failed_turn_new_keeps_sockets [OF fresh_empty n] n show ?thesis
    by (auto simp: sample_config_def empty_process_def length_Suc_conv)
qed

section \<open>The advertised address\<close>

lemma dotted_external_ip:
  "tc_ExternalIP cfg = dotted [a, b, c, d] \<Longrightarrow>
   relay_ip env cfg = Inr (replicate 10 0 @ [0xFF, 0xFF] @ [a, b, c, d])"
  by (simp add: relay_ip_def parse_ip_dotted)

lemma unparsable_external_ip:
  "parse_ip (tc_ExternalIP cfg) = None \<Longrightarrow> relay_ip env cfg = relay_ip env (cfg\<lparr>tc_ExternalIP := []\<rparr>)"
  by (simp add: relay_ip_def parse_ip_def)

lemma first_ipv4_spec:
  "first_ipv4 as = Some ip \<longleftrightarrow>
     (\<exists>as1 as2. as = as1 @ IPNet ip # as2 \<and> \<not> is_loopback ip \<and> to4 ip \<noteq> None
        \<and> (\<forall>jp. IPNet jp \<in> set as1 \<longrightarrow> is_loopback jp \<or> to4 jp = None))"
proof (induction as)
  case (Cons a as)
  show ?case
  proof (cases "\<exists>jp. a = IPNet jp \<and> \<not> is_loopback jp \<and> to4 jp \<noteq> None")
    case True
    then obtain jp where jp: "a = IPNet jp" "\<not> is_loopback jp" "to4 jp \<noteq> None" by blast
    have first: "first_ipv4 (a # as) = Some jp" using jp by simp
    show ?thesis
    proof
      assume "first_ipv4 (a # as) = Some ip"
      then show "\<exists>as1 as2. a # as = as1 @ IPNet ip # as2 \<and> \<not> is_loopback ip \<and> to4 ip \<noteq> None
          \<and> (\<forall>jp. IPNet jp \<in> set as1 \<longrightarrow> is_loopback jp \<or> to4 jp = None)"
        using first jp by (intro exI [of _ "[]"] exI [of _ as]) simp
    next
      assume "\<exists>as1 as2. a # as = as1 @ IPNet ip # as2 \<and> \<not> is_loopback ip \<and> to4 ip \<noteq> None
          \<and> (\<forall>jp. IPNet jp \<in> set as1 \<longrightarrow> is_loopback jp \<or> to4 jp = None)"
      then obtain as1 as2 where "a # as = as1 @ IPNet ip # as2"
        "\<forall>jp. IPNet jp \<in> set as1 \<longrightarrow> is_loopback jp \<or> to4 jp = None" by blast
      then have "ip = jp" using jp by (cases as1) auto
      then show "first_ipv4 (a # as) = Some ip" using first by simp
    qed
  next
    case False
    then have "first_ipv4 (a # as) = first_ipv4 as" by (cases a) auto
    moreover have "(\<exists>as1 as2. a # as = as1 @ IPNet ip # as2 \<and> \<not> is_loopback ip \<and> to4 ip \<noteq> None
          \<and> (\<forall>jp. IPNet jp \<in> set as1 \<longrightarrow> is_loopback jp \<or> to4 jp = None))
        \<longleftrightarrow> (\<exists>as1 as2. as = as1 @ IPNet ip # as2 \<and> \<not> is_loopback ip \<and> to4 ip \<noteq> None
          \<and> (\<forall>jp. IPNet jp \<in> set as1 \<longrightarrow> is_loopback jp \<or> to4 jp = None))" (is "?L \<longleftrightarrow> ?R")
    proof
      assume ?L
      then obtain as1 as2 where l: "a # as = as1 @ IPNet ip # as2" "\<not> is_loopback ip" "to4 ip \<noteq> None"
        "\<forall>jp. IPNet jp \<in> set as1 \<longrightarrow> is_loopback jp \<or> to4 jp = None" by blast
      then obtain t where "as1 = a # t" using False by (cases as1) auto
      then show ?R using l by (intro exI [of _ t] exI [of _ as2]) simp
    next
      assume ?R
      then obtain as1 as2 where r: "as = as1 @ IPNet ip # as2" "\<not> is_loopback ip" "to4 ip \<noteq> None"
        "\<forall>jp. IPNet jp \<in> set as1 \<longrightarrow> is_loopback jp \<or> to4 jp = None" by blast
      then show ?L using False by (intro exI [of _ "a # as1"] exI [of _ as2]) auto
    qed
    ultimately show ?thesis using Cons.IH by (simp only:)
  qed
qed simp

text \<open>The advertised relay address: a dotted external address is advertised as it is; anything
  that \<open>ParseIP\<close> does not read, an empty string or a mistyped one or a host name alike, is
  replaced without notice by the first interface address that is IPv4 and not loopback.\<close>

theorem relay_address_choice:
  "(\<forall>a b c d. tc_ExternalIP cfg = dotted [a, b, c, d] \<longrightarrow>
      (\<exists>ip. relay_ip env cfg = Inr ip \<and> ip_string ip = tc_ExternalIP cfg))
   \<and> (parse_ip (tc_ExternalIP cfg) = None \<longrightarrow>
      (\<forall>ip. relay_ip env cfg = Inr ip \<longleftrightarrow>
        (\<exists>as as1 as2. ne_interfaces env = Inr as \<and> as = as1 @ IPNet ip # as2
           \<and> \<not> is_loopback ip \<and> to4 ip \<noteq> None
           \<and> (\<forall>jp. IPNet jp \<in> set as1 \<longrightarrow> is_loopback jp \<or> to4 jp = None))))"
proof -
  have "ip_string (replicate 10 0 @ [0xFF, 0xFF] @ [a, b, c, d]) = dotted [a, b, c, d]" for a b c d
    using ip_string_parsed [of a b c d] by (simp add: ip_string_def numeral_eq_Suc)
  moreover have "relay_ip env cfg = Inr ip \<longleftrightarrow> (\<exists>as. ne_interfaces env = Inr as \<and> first_ipv4 as = Some ip)"
    if "parse_ip (tc_ExternalIP cfg) = None" for ip
    using that by (auto simp: relay_ip_def externalIP_def split: sum.splits option.splits)
  ultimately show ?thesis
    using dotted_external_ip [of cfg _ _ _ _ env] unfolding first_ipv4_spec by metis
qed

theorem relay_address_choice_witness:
  "relay_ip sample_env (sample_config\<lparr>tc_ExternalIP := ''turn.example.com''\<rparr>) = Inr [10, 0, 0, 7]"
proof -
  let ?cfg = "sample_config\<lparr>tc_ExternalIP := ''turn.example.com''\<rparr>"
  have "parse_ip ''turn.example.com'' = None"
    by (simp add: parse_ip_def parse_ipv4_def octet_def is_digit_def)
  moreover have "tc_ExternalIP ?cfg = ''turn.example.com''" by simp
  ultimately have choice: "relay_ip sample_env ?cfg = Inr ip \<longleftrightarrow>
      (\<exists>as as1 as2. ne_interfaces sample_env = Inr as \<and> as = as1 @ IPNet ip # as2
         \<and> \<not> is_loopback ip \<and> to4 ip \<noteq> None
         \<and> (\<forall>jp. IPNet jp \<in> set as1 \<longrightarrow> is_loopback jp \<or> to4 jp = None))" for ip
    using relay_address_choice [of ?cfg sample_env] by presburger
  show ?thesis
    unfolding choice
    by (intro exI [of _ "[OtherAddr, IPNet [127, 0, 0, 1], IPNet [10, 0, 0, 7]]"]
        exI [of _ "[OtherAddr, IPNet [127, 0, 0, 1]]"] exI [of _ "[]"])
      (simp add: sample_env_def is_loopback_def to4_def)
qed

section \<open>The event log\<close>

text \<open>
  One line per event and only with a log; traffic is reported as started exactly for a
  permission or a channel bind, an authentication never above debug.
\<close>

lemma event_is_logged_once:
  "pr_log (newEventHandler hasLog e p) = pr_log p @ (if hasLog then [event_line e] else [])"
  by (simp add: newEventHandler_def)

lemma forwarding_started:
  "l_msg (event_line e) = ''TURN forwarding started'' \<longleftrightarrow>
     (\<exists>a b c d f. e = PermissionCreated a b c d f) \<or> (\<exists>a b c d f g. e = ChannelCreated a b c d f g)"
  by (cases e) (simp_all add: event_line_def log_at_def)

lemma event_level:
  "LInfo < l_level (event_line e) \<longleftrightarrow> (\<exists>a b c d. e = AllocationError a b c d)"
  "l_level (event_line e) < LInfo \<longleftrightarrow> (\<exists>a b c d f. e = AuthChecked a b c d f)"
  by (cases e; simp add: event_line_def log_at_def less_level_def)+

end
