(* ===== verification/Health.thy ===== *)
theory Health
  imports Goconv
begin

text \<open>
  The small HTTP parts: \<open>healthcheck\<close> (liveness, readiness, drain), \<open>api\<close>,
  \<open>metrics\<close> (the request-duration middleware) and \<open>common\<close> (logger options,
  environment).  Durations are nanoseconds.
\<close>

section \<open>HTTP responses\<close>

text \<open>
  What a handler leaves: the status and body it wrote (a handler that writes nothing answers
  200 with an empty body) and how long it slept before returning.
\<close>

record response =
  rs_status :: nat
  rs_body :: string
  rs_slept :: int

definition reply :: "nat \<Rightarrow> string \<Rightarrow> response" where
  "reply status body = \<lparr>rs_status = status, rs_body = body, rs_slept = 0\<rparr>"

text \<open>
  What the client receives: \<open>net/http\<close> sets the write deadline when it has read the
  request, and a short response is written when the handler returns.  \<open>None\<close>: the
  connection is closed without a response.
\<close>

definition delivered :: "int \<Rightarrow> response \<Rightarrow> (nat \<times> string) option" where
  "delivered writeTimeout r =
     (if 0 < writeTimeout \<and> writeTimeout \<le> rs_slept r then None else Some (rs_status r, rs_body r))"

section \<open>healthcheck\<close>

record health =
  h_DrainDuration :: int
  h_isReady :: bool
  h_log :: "log_line list"

definition health_new :: "int \<Rightarrow> health" where
  "health_new drain = \<lparr>h_DrainDuration = drain, h_isReady = True, h_log = []\<rparr>"

definition handleLivenessCheck :: "health \<Rightarrow> response \<times> health" where
  "handleLivenessCheck h = (reply 200 ''OK'', h)"

definition handleReadinessCheck :: "health \<Rightarrow> response \<times> health" where
  "handleReadinessCheck h =
     (if \<not> h_isReady h then (reply 503 ''not ready'', h) else (reply 200 ''OK'', h))"

text \<open>\<open>time.Sleep\<close> returns at once for a duration that is not positive.\<close>

definition handleDrain :: "health \<Rightarrow> response \<times> health" where
  "handleDrain h =
     (let wasReady = h_isReady h; h1 = h\<lparr>h_isReady := False\<rparr>
      in if \<not> wasReady then (reply 200 [], h1)
         else ((reply 200 [])\<lparr>rs_slept := max 0 (h_DrainDuration h)\<rparr>,
               h1\<lparr>h_log := h_log h @ [log_at LInfo ''Server marked as not ready'' []]\<rparr>))"

definition handleUndrain :: "health \<Rightarrow> response \<times> health" where
  "handleUndrain h =
     (let wasReady = h_isReady h; h1 = h\<lparr>h_isReady := True\<rparr>
      in if wasReady then (reply 200 [], h1)
         else (reply 200 [], h1\<lparr>h_log := h_log h @ [log_at LInfo ''Server marked as ready'' []]\<rparr>))"

datatype health_request = Livez | Readyz | Drain | Undrain

definition health_handle :: "health_request \<Rightarrow> health \<Rightarrow> response \<times> health" where
  "health_handle r h =
     (case r of
        Livez \<Rightarrow> handleLivenessCheck h
      | Readyz \<Rightarrow> handleReadinessCheck h
      | Drain \<Rightarrow> handleDrain h
      | Undrain \<Rightarrow> handleUndrain h)"

text \<open>The requests in the order of their atomic swaps and loads.\<close>

fun health_run :: "health_request list \<Rightarrow> health \<Rightarrow> response list \<times> health" where
  "health_run [] h = ([], h)"
| "health_run (r # rs) h =
     (let (a, h1) = health_handle r h; (as, h2) = health_run rs h1 in (a # as, h2))"

section \<open>api\<close>

definition handleAPI :: response where
  "handleAPI = reply 200 []"

section \<open>metrics\<close>

text \<open>The summaries of the process, each with the values recorded under its name.\<close>

type_synonym summaries = "(string \<times> int list) list"

definition requestDurationLabel :: "string \<times> string" where
  "requestDurationLabel = (''http_server_request_duration_milliseconds{route=\"'', ''\"}'')"

definition duration_label :: "string \<Rightarrow> string" where
  "duration_label route = fst requestDurationLabel @ route @ snd requestDurationLabel"

definition recordRequestDuration :: "string \<Rightarrow> int \<Rightarrow> summaries \<Rightarrow> summaries" where
  "recordRequestDuration route duration m =
     (let l = duration_label route
      in tbl_put l ((case tbl_get m l of None \<Rightarrow> [] | Some vs \<Rightarrow> vs) @ [duration]) m)"

text \<open>
  \<open>Middleware\<close>: the deferred function records whether the handler returns or panics, and a
  panic goes on.  \<open>elapsed\<close> is \<open>time.Since(startAt)\<close>, \<open>route\<close> the pattern chi matched.
\<close>

definition milliseconds :: "int \<Rightarrow> int" where
  "milliseconds d = (if 0 \<le> d then d div 1000000 else - ((- d) div 1000000))"

definition Middleware ::
  "('s \<Rightarrow> (string + 'r) \<times> 's) \<Rightarrow> string \<Rightarrow> int \<Rightarrow> 's \<times> summaries \<Rightarrow> (string + 'r) \<times> 's \<times> summaries" where
  "Middleware handler route elapsed sm =
     (let (s, m) = sm; (res, s') = handler s
      in (res, s', recordRequestDuration route (milliseconds elapsed) m))"

section \<open>common\<close>

record loggingOpts =
  lo_Service :: string
  lo_JSON :: bool
  lo_Debug :: bool
  lo_Concise :: bool
  lo_RequestHeaders :: bool
  lo_Version :: string
  lo_UID :: string
  lo_Tags :: "(string \<times> string) list option"

text \<open>The options handed to \<open>httplog.NewLogger\<close>; a nil map is \<open>None\<close>.\<close>

record logger_options =
  lg_Service :: string
  lg_JSON :: bool
  lg_Level :: level
  lg_Concise :: bool
  lg_RequestHeaders :: bool
  lg_Tags :: "(string \<times> string) list option"

definition logger_tags :: "string \<Rightarrow> string \<Rightarrow> (string \<times> string) list option \<Rightarrow> (string \<times> string) list option" where
  "logger_tags version uid tags =
     (if version = [] \<and> uid = [] then tags
      else let t0 = (case tags of None \<Rightarrow> [] | Some t \<Rightarrow> t);
               t1 = (if version \<noteq> [] then tbl_put ''version'' version t0 else t0);
               t2 = (if uid \<noteq> [] then tbl_put ''uid'' uid t1 else t1)
           in Some t2)"

definition SetupLogger :: "loggingOpts \<Rightarrow> logger_options" where
  "SetupLogger opts =
     \<lparr>lg_Service = lo_Service opts, lg_JSON = lo_JSON opts,
      lg_Level = (if lo_Debug opts then LDebug else LInfo),
      lg_Concise = lo_Concise opts, lg_RequestHeaders = lo_RequestHeaders opts,
      lg_Tags = logger_tags (lo_Version opts) (lo_UID opts) (lo_Tags opts)\<rparr>"

definition GetEnv :: "(string \<Rightarrow> string option) \<Rightarrow> string \<Rightarrow> string \<Rightarrow> string" where
  "GetEnv lookupEnv key defaultValue =
     (case lookupEnv key of Some v \<Rightarrow> v | None \<Rightarrow> defaultValue)"

definition Version :: string where "Version = ''dev''"

section \<open>Drain and undrain\<close>

text \<open>The readiness that the controls so far leave: that of the last one.\<close>

fun ready_after :: "bool \<Rightarrow> health_request list \<Rightarrow> bool" where
  "ready_after b [] = b"
| "ready_after b (r # rs) =
     ready_after (case r of Drain \<Rightarrow> False | Undrain \<Rightarrow> True | _ \<Rightarrow> b) rs"

lemma ready_after_append: "ready_after b (xs @ ys) = ready_after (ready_after b xs) ys"
  by (induction xs arbitrary: b) auto

text \<open>The answer a request gets, from the requests before it.\<close>

definition answer :: "int \<Rightarrow> health_request list \<Rightarrow> health_request \<Rightarrow> response" where
  "answer drain before r =
     (case r of
        Livez \<Rightarrow> reply 200 ''OK''
      | Readyz \<Rightarrow> if ready_after True before then reply 200 ''OK'' else reply 503 ''not ready''
      | Drain \<Rightarrow> (reply 200 [])\<lparr>rs_slept := if ready_after True before then max 0 drain else 0\<rparr>
      | Undrain \<Rightarrow> reply 200 [])"

fun answers :: "int \<Rightarrow> health_request list \<Rightarrow> health_request list \<Rightarrow> response list" where
  "answers drain before [] = []"
| "answers drain before (r # rs) = answer drain before r # answers drain (before @ [r]) rs"

definition not_ready_line :: log_line where
  "not_ready_line = log_at LInfo ''Server marked as not ready'' []"

definition ready_line :: log_line where
  "ready_line = log_at LInfo ''Server marked as ready'' []"

text \<open>A log in which the two lines alternate, from the state \<open>b\<close>.\<close>

fun alternating :: "bool \<Rightarrow> log_line list \<Rightarrow> bool" where
  "alternating b [] = True"
| "alternating b (l # ls) = (l = (if b then not_ready_line else ready_line) \<and> alternating (\<not> b) ls)"

lemma alternating_snoc:
  "alternating b (ls @ [l]) \<longleftrightarrow>
     alternating b ls \<and> l = (if (b = even (length ls)) then not_ready_line else ready_line)"
  by (induction ls arbitrary: b) auto

definition sleeping :: "response list \<Rightarrow> nat" where
  "sleeping rs = length (List.filter (\<lambda>r. rs_slept r \<noteq> 0) rs)"

definition health_inv :: "int \<Rightarrow> health_request list \<Rightarrow> health \<Rightarrow> bool" where
  "health_inv drain before h \<longleftrightarrow>
     h_DrainDuration h = drain \<and> h_isReady h = ready_after True before
     \<and> alternating True (h_log h) \<and> h_isReady h = even (length (h_log h))"

lemma health_handle_step:
  assumes "health_inv drain before h" "health_handle r h = (a, h')"
  shows "a = answer drain before r \<and> health_inv drain (before @ [r]) h'"
  using assms
  by (cases r)
    (auto simp: health_inv_def health_handle_def answer_def ready_after_append alternating_snoc
      handleLivenessCheck_def handleReadinessCheck_def handleDrain_def handleUndrain_def Let_def
      reply_def not_ready_line_def ready_line_def split: if_splits)

lemma health_run_answers:
  "health_inv drain before h \<Longrightarrow> health_run rs h = (as, h') \<Longrightarrow>
   as = answers drain before rs \<and> health_inv drain (before @ rs) h'"
proof (induction rs arbitrary: before h as)
  case (Cons r rs)
  obtain a h1 where a: "health_handle r h = (a, h1)" by fastforce
  obtain as1 where as1: "health_run rs h1 = (as1, h')" "as = a # as1"
    using Cons.prems(2) a by (auto split: prod.splits)
  note s = health_handle_step [OF Cons.prems(1) a]
  from Cons.IH [OF conjunct2 [OF s] as1(1)] show ?case using s as1(2) by simp
qed simp

lemma answers_nth:
  "i < length rs \<Longrightarrow> answers drain before rs ! i = answer drain (before @ take i rs) (rs ! i)"
  by (induction rs arbitrary: before i) (auto simp: nth_Cons split: nat.split)

lemma length_answers [simp]: "length (answers drain before rs) = length rs"
  by (induction rs arbitrary: before) auto

text \<open>C39: Whatever health requests arrive, taken in the order of their atomic swaps and loads, each is
  answered from the last control before it: \<open>/readyz\<close> says 503 exactly after a drain without a
  later undrain, only the drain that ends readiness sleeps (a repeated one returns at once),
  and the lines logged for the transitions alternate.\<close>

theorem drain_controls_readiness:
  assumes "health_run rs (health_new drain) = (as, h)"
  shows "length as = length rs
    \<and> (\<forall>i < length rs.
         (rs ! i = Readyz \<longrightarrow> rs_status (as ! i) = (if ready_after True (take i rs) then 200 else 503))
       \<and> (rs ! i = Drain \<longrightarrow> rs_slept (as ! i) = (if ready_after True (take i rs) then max 0 drain else 0))
       \<and> (rs ! i \<noteq> Drain \<longrightarrow> rs_slept (as ! i) = 0)
       \<and> (rs ! i \<noteq> Readyz \<longrightarrow> rs_status (as ! i) = 200))
    \<and> h_isReady h = ready_after True rs \<and> alternating True (h_log h)"
proof -
  have "health_inv drain [] (health_new drain)" by (simp add: health_inv_def health_new_def)
  from health_run_answers [OF this assms] have as: "as = answers drain [] rs" and inv: "health_inv drain rs h"
    by simp_all
  have "(rs ! i = Readyz \<longrightarrow> rs_status (as ! i) = (if ready_after True (take i rs) then 200 else 503))
      \<and> (rs ! i = Drain \<longrightarrow> rs_slept (as ! i) = (if ready_after True (take i rs) then max 0 drain else 0))
      \<and> (rs ! i \<noteq> Drain \<longrightarrow> rs_slept (as ! i) = 0)
      \<and> (rs ! i \<noteq> Readyz \<longrightarrow> rs_status (as ! i) = 200)" if "i < length rs" for i
    using that by (simp add: as answers_nth) (auto simp: answer_def reply_def split: health_request.split)
  then show ?thesis using inv by (simp add: as health_inv_def)
qed

theorem drain_controls_readiness_witness:
  "\<exists>as h. health_run [Readyz, Drain, Drain, Readyz, Undrain, Readyz] (health_new 45) = (as, h)
    \<and> map rs_status as = [200, 200, 200, 503, 200, 200] \<and> map rs_slept as = [0, 45, 0, 0, 0, 0]
    \<and> alternating True (h_log h)"
proof -
  let ?rs = "[Readyz, Drain, Drain, Readyz, Undrain, Readyz]"
  obtain as h where r: "health_run ?rs (health_new 45) = (as, h)" by fastforce
  then have "map rs_status as = [200, 200, 200, 503, 200, 200] \<and> map rs_slept as = [0, 45, 0, 0, 0, 0]"
    by (auto simp: health_handle_def handleReadinessCheck_def handleDrain_def handleUndrain_def
        health_new_def reply_def Let_def)
  moreover have "alternating True (h_log h)"
    using conjunct2 [OF conjunct2 [OF conjunct2 [OF drain_controls_readiness [OF r]]]] .
  ultimately show ?thesis using r by (intro exI [of _ as] exI [of _ h] conjI) (erule conjE, assumption)+
qed

section \<open>Metrics and tags\<close>

lemma duration_label_inj: "duration_label r = duration_label r' \<longleftrightarrow> r = r'"
  by (simp add: duration_label_def)

lemma middleware_records_once:
  assumes "Middleware handler route elapsed (s, m) = (res, s', m')"
  shows "handler s = (res, s')"
    and "tbl_get m' (duration_label r) =
      (if r = route then Some ((case tbl_get m (duration_label r) of None \<Rightarrow> [] | Some vs \<Rightarrow> vs) @ [milliseconds elapsed])
       else tbl_get m (duration_label r))"
  using assms
  by (auto simp: Middleware_def recordRequestDuration_def Let_def tbl.get_put duration_label_inj
      split: prod.splits)

lemma logger_tags_get:
  "logger_tags version uid tags = None \<longleftrightarrow> version = [] \<and> uid = [] \<and> tags = None"
  "logger_tags version uid tags = Some t \<Longrightarrow>
     tbl_get t k =
       (if k = ''uid'' \<and> uid \<noteq> [] then Some uid
        else if k = ''version'' \<and> version \<noteq> [] then Some version
        else (case tags of None \<Rightarrow> None | Some t0 \<Rightarrow> tbl_get t0 k))"
  by (auto simp: logger_tags_def Let_def tbl.get_put split: if_splits option.splits)

end
