(* ===== verification/Server.thy ===== *)
theory Server
  imports TurnProps HubLife Health
begin

text \<open>
  \<open>server/server.go\<close>: how the components are put together, the routes, and the life of the
  process from \<open>RunInBackground\<close> to the end of \<open>Shutdown\<close> with the select of
  \<open>cmd/server/main.go\<close> that drives it.
\<close>

section \<open>Routes\<close>

datatype handler = HAPI | HLivez | HReadyz | HDrain | HUndrain | HWs | HManual | HWebsocketPage
  | HProfiler | HMetrics

text \<open>A registered route: its pattern (all are GET, \<open>/debug\<close> is a mount) and its handler.\<close>

type_synonym route = "string \<times> handler"

definition api_routes :: "route list" where
  "api_routes = [(''/api'', HAPI)]"

definition health_routes :: "route list" where
  "health_routes = [(''/livez'', HLivez), (''/readyz'', HReadyz), (''/drain'', HDrain), (''/undrain'', HUndrain)]"

definition signaling_routes :: "route list" where
  "signaling_routes = [(''/ws'', HWs)]"

definition metrics_routes :: "route list" where
  "metrics_routes = [(''/metrics'', HMetrics)]"

section \<open>New\<close>

record server_cfg =
  hs_ListenAddr :: string
  hs_MetricsAddr :: string
  hs_EnablePprof :: bool
  hs_DrainDuration :: int
  hs_GracefulShutdownDuration :: int
  hs_ReadTimeout :: int
  hs_WriteTimeout :: int
  hs_TURN :: "turnConfig option"
  hs_Signaling :: "config option"

record http_server =
  ht_Addr :: string
  ht_Handler :: "route list"
  ht_ReadTimeout :: int
  ht_WriteTimeout :: int

record server =
  sv_cfg :: server_cfg
  sv_healthcheck :: health
  sv_srv :: http_server
  sv_metricsSrv :: "http_server option"
  sv_turnSrv :: "turnServer option"
  sv_signaling :: "hub option"

datatype server_error = TurnFailed turn_error | SignalingFailed hub_error

definition hub_error_text :: "hub_error \<Rightarrow> string" where
  "hub_error_text e =
     (case e of
        NilConfig \<Rightarrow> ''signaling: nil config''
      | TurnSecretUnimplemented \<Rightarrow> ''signaling: TurnSecret is not implemented; it needs a matching ''
          @ ''turn.Authenticator in the turn package'')"

definition server_error_text :: "server_error \<Rightarrow> string" where
  "server_error_text e =
     (case e of
        TurnFailed t \<Rightarrow> ''TURN server: '' @ turn_error_text t
      | SignalingFailed h \<Rightarrow> ''signaling server: '' @ hub_error_text h)"

definition getRouter :: "server_cfg \<Rightarrow> bool \<Rightarrow> route list" where
  "getRouter cfg has_signaling =
     api_routes @ health_routes
     @ (if has_signaling then signaling_routes else [])
     @ [(''/ui/manual'', HManual)]
     @ (if has_signaling then [(''/ui/websocket'', HWebsocketPage)] else [])
     @ (if hs_EnablePprof cfg then [(''/debug'', HProfiler)] else [])"

definition router_log :: "server_cfg \<Rightarrow> process \<Rightarrow> process" where
  "router_log cfg w =
     (if hs_EnablePprof cfg then w\<lparr>pr_log := pr_log w @ [log_at LInfo ''pprof API enabled'' []]\<rparr> else w)"

definition metrics_server :: "server_cfg \<Rightarrow> http_server option" where
  "metrics_server cfg =
     (if hs_MetricsAddr cfg \<noteq> [] then
        Some \<lparr>ht_Addr = hs_MetricsAddr cfg, ht_Handler = metrics_routes,
              ht_ReadTimeout = hs_ReadTimeout cfg, ht_WriteTimeout = hs_WriteTimeout cfg\<rparr>
      else None)"

definition new_turn :: "net_env \<Rightarrow> server_cfg \<Rightarrow> process \<Rightarrow> (server_error + turnServer option) \<times> process" where
  "new_turn env cfg w =
     (case hs_TURN cfg of
        None \<Rightarrow> (Inr None, w)
      | Some tc \<Rightarrow>
          (case turn_new env tc w of
             (Inl e, w') \<Rightarrow> (Inl (TurnFailed e), w')
           | (Inr s, w') \<Rightarrow> (Inr (Some s), w')))"

definition new_signaling :: "server_cfg \<Rightarrow> 64 word \<Rightarrow> server_error + hub option" where
  "new_signaling cfg active =
     (case hs_Signaling cfg of
        None \<Rightarrow> Inr None
      | Some sc \<Rightarrow> (case hub_new (Some sc) active of Inl e \<Rightarrow> Inl (SignalingFailed e) | Inr h \<Rightarrow> Inr (Some h)))"

text \<open>\<open>active\<close> is the process-wide gauge of open connections.\<close>

definition server_new ::
  "net_env \<Rightarrow> server_cfg \<Rightarrow> 64 word \<Rightarrow> process \<Rightarrow> (server_error + server) \<times> process" where
  "server_new env cfg active w =
     (case new_turn env cfg w of
        (Inl e, w1) \<Rightarrow> (Inl e, w1)
      | (Inr turnSrv, w1) \<Rightarrow>
          (case new_signaling cfg active of
             Inl e \<Rightarrow> (Inl e, w1)
           | Inr hub \<Rightarrow>
               (Inr \<lparr>sv_cfg = cfg, sv_healthcheck = health_new (hs_DrainDuration cfg),
                     sv_srv = \<lparr>ht_Addr = hs_ListenAddr cfg, ht_Handler = getRouter cfg (hub \<noteq> None),
                               ht_ReadTimeout = hs_ReadTimeout cfg, ht_WriteTimeout = hs_WriteTimeout cfg\<rparr>,
                     sv_metricsSrv = metrics_server cfg, sv_turnSrv = turnSrv, sv_signaling = hub\<rparr>,
                router_log cfg w1)))"

section \<open>What New leaves\<close>

definition turn_sockets :: "turnServer option \<Rightarrow> socket list" where
  "turn_sockets t = (case t of None \<Rightarrow> [] | Some s \<Rightarrow> handed (ts_srv s))"

definition turn_listeners :: "server_cfg \<Rightarrow> nat" where
  "turn_listeners cfg = (case hs_TURN cfg of
      None \<Rightarrow> 0
    | Some tc \<Rightarrow> of_bool (tc_ListenUDPAddr tc \<noteq> []) + of_bool (tc_ListenTCPAddr tc \<noteq> []))"

lemma turn_new_opens:
  assumes "fresh_ids w" "turn_new env tc w = (Inr s, w')"
  shows "pr_open w' = handed (ts_srv s) @ pr_open w"
    "length (handed (ts_srv s)) = of_bool (tc_ListenUDPAddr tc \<noteq> []) + of_bool (tc_ListenTCPAddr tc \<noteq> [])"
  using assms
proof (atomize (full), cases rule: turn_new_cases)
  case (ready auth ip udp tcp w1)
  have s: "ts_srv s = server_config tc auth ip udp tcp" using ready(3) by simp
  have "pr_open w' = handed (ts_srv s) @ pr_open w"
    using adds_open [OF ready(4)] adds_open [OF ready(5)] by (simp add: s handed_config)
  moreover have "length (handed (ts_srv s)) = of_bool (tc_ListenUDPAddr tc \<noteq> []) + of_bool (tc_ListenTCPAddr tc \<noteq> [])"
    using ready(6,7) by (simp add: s handed_config length_opt_list)
  ultimately show "pr_open w' = handed (ts_srv s) @ pr_open w \<and>
      length (handed (ts_srv s)) = of_bool (tc_ListenUDPAddr tc \<noteq> []) + of_bool (tc_ListenTCPAddr tc \<noteq> [])"
    by blast
qed simp_all

lemma new_turn_opens:
  assumes "fresh_ids w" "new_turn env cfg w = (Inr t, w')"
  shows "pr_open w' = turn_sockets t @ pr_open w \<and> length (turn_sockets t) = turn_listeners cfg
    \<and> (t = None \<longleftrightarrow> hs_TURN cfg = None)"
proof (cases "hs_TURN cfg")
  case None
  then show ?thesis using assms by (simp add: new_turn_def turn_sockets_def turn_listeners_def)
next
  case (Some tc)
  then obtain s where s: "turn_new env tc w = (Inr s, w')" "t = Some s"
    using assms(2) by (auto simp: new_turn_def split: prod.splits sum.splits)
  then show ?thesis using turn_new_opens [OF assms(1) s(1)] Some
    by (simp add: turn_sockets_def turn_listeners_def)
qed

lemma new_signaling_ok:
  "new_signaling cfg active = Inr h \<Longrightarrow> h = None \<longleftrightarrow> hs_Signaling cfg = None"
  by (auto simp: new_signaling_def split: option.splits sum.splits)

lemma new_signaling_error:
  "new_signaling cfg active = Inl e \<longleftrightarrow>
     e = SignalingFailed TurnSecretUnimplemented \<and> (\<exists>sc. hs_Signaling cfg = Some sc \<and> cfg_TurnSecret sc \<noteq> [])"
  by (auto simp: new_signaling_def hub_new_def Let_def split: option.splits)

lemma router_log_open [simp]: "pr_open (router_log cfg w) = pr_open w"
  by (simp add: router_log_def)

lemma routes_distinct: "distinct (map fst (getRouter cfg sig))"
  by (simp add: getRouter_def api_routes_def health_routes_def signaling_routes_def)

lemma route_lookup:
  "map_of (getRouter cfg sig) ''/ws'' = (if sig then Some HWs else None)"
  "map_of (getRouter cfg sig) ''/ui/websocket'' = (if sig then Some HWebsocketPage else None)"
  "map_of (getRouter cfg sig) ''/debug'' = (if hs_EnablePprof cfg then Some HProfiler else None)"
  "map_of (getRouter cfg sig) ''/readyz'' = Some HReadyz"
  by (simp_all add: getRouter_def api_routes_def health_routes_def signaling_routes_def)

lemma server_new_parts:
  assumes fresh: "fresh_ids w" and new: "server_new env cfg active w = (r, w')"
  shows "case r of
      Inr s \<Rightarrow> pr_open w' = turn_sockets (sv_turnSrv s) @ pr_open w
        \<and> length (turn_sockets (sv_turnSrv s)) = turn_listeners cfg
        \<and> (sv_turnSrv s = None \<longleftrightarrow> hs_TURN cfg = None)
        \<and> (sv_signaling s = None \<longleftrightarrow> hs_Signaling cfg = None)
        \<and> (sv_metricsSrv s = None \<longleftrightarrow> hs_MetricsAddr cfg = [])
        \<and> distinct (map fst (ht_Handler (sv_srv s)))
        \<and> map_of (ht_Handler (sv_srv s)) ''/ws'' = (if hs_Signaling cfg = None then None else Some HWs)
        \<and> h_isReady (sv_healthcheck s)
    | Inl (SignalingFailed _) \<Rightarrow>
        (\<exists>sc. hs_Signaling cfg = Some sc \<and> cfg_TurnSecret sc \<noteq> [])
        \<and> (\<exists>leaked. pr_open w' = leaked @ pr_open w \<and> length leaked = turn_listeners cfg)
    | Inl (TurnFailed e) \<Rightarrow> \<exists>tc. hs_TURN cfg = Some tc \<and> turn_new env tc w = (Inl e, w')"
proof -
  obtain rt w1 where t: "new_turn env cfg w = (rt, w1)" by fastforce
  show ?thesis
  proof (cases rt)
    case (Inl e)
    then show ?thesis using new t
      by (auto simp: server_new_def new_turn_def split: option.splits prod.splits sum.splits)
  next
    case (Inr turnSrv)
    note o = new_turn_opens [OF fresh t [unfolded Inr]]
    show ?thesis
    proof (cases "new_signaling cfg active")
      case (Inl e)
      then have "r = Inl (SignalingFailed TurnSecretUnimplemented)" "w' = w1"
        and "\<exists>sc. hs_Signaling cfg = Some sc \<and> cfg_TurnSecret sc \<noteq> []"
        using new t \<open>rt = Inr turnSrv\<close> new_signaling_error [of cfg active e]
        by (simp_all add: server_new_def)
      then show ?thesis using o by simp
    next
      case hub: (Inr hub)
      have r: "r = Inr \<lparr>sv_cfg = cfg, sv_healthcheck = health_new (hs_DrainDuration cfg),
                     sv_srv = \<lparr>ht_Addr = hs_ListenAddr cfg, ht_Handler = getRouter cfg (hub \<noteq> None),
                               ht_ReadTimeout = hs_ReadTimeout cfg, ht_WriteTimeout = hs_WriteTimeout cfg\<rparr>,
                     sv_metricsSrv = metrics_server cfg, sv_turnSrv = turnSrv, sv_signaling = hub\<rparr>"
        and w': "w' = router_log cfg w1"
        using new t \<open>rt = Inr turnSrv\<close> hub by (simp_all add: server_new_def)
      show ?thesis
        using o new_signaling_ok [OF hub] routes_distinct
        by (simp add: r w' route_lookup metrics_server_def health_new_def)
    qed
  qed
qed

text \<open>A server that was built, field by field.\<close>

lemma server_new_built:
  assumes "server_new env cfg active w = (Inr s, w')"
  obtains turnSrv hub w1 where
    "new_turn env cfg w = (Inr turnSrv, w1)" "new_signaling cfg active = Inr hub" "w' = router_log cfg w1"
    "s = \<lparr>sv_cfg = cfg, sv_healthcheck = health_new (hs_DrainDuration cfg),
          sv_srv = \<lparr>ht_Addr = hs_ListenAddr cfg, ht_Handler = getRouter cfg (hub \<noteq> None),
                    ht_ReadTimeout = hs_ReadTimeout cfg, ht_WriteTimeout = hs_WriteTimeout cfg\<rparr>,
          sv_metricsSrv = metrics_server cfg, sv_turnSrv = turnSrv, sv_signaling = hub\<rparr>"
  using assms by (auto simp: server_new_def split: prod.splits sum.splits)

text \<open>The routes as a set of patterns with their handlers, by configuration.\<close>

definition expected_routes :: "bool \<Rightarrow> bool \<Rightarrow> (string \<times> handler) set" where
  "expected_routes signaling pprof =
     {(''/api'', HAPI), (''/livez'', HLivez), (''/readyz'', HReadyz), (''/drain'', HDrain),
      (''/undrain'', HUndrain), (''/ui/manual'', HManual)}
     \<union> (if signaling then {(''/ws'', HWs), (''/ui/websocket'', HWebsocketPage)} else {})
     \<union> (if pprof then {(''/debug'', HProfiler)} else {})"

lemma routes_exact: "set (getRouter cfg sig) = expected_routes sig (hs_EnablePprof cfg)"
  by (auto simp: getRouter_def api_routes_def health_routes_def signaling_routes_def expected_routes_def)

text \<open>C37: \<open>server.New\<close> builds exactly the configured components.  The API server has the
  configured address and timeouts and exactly the routes of the configuration, each pattern once: \<open>/ws\<close>
  and its page come with signaling, \<open>/debug\<close> with pprof.  The metrics server exists iff it has an
  address, with that address and the same timeouts; the TURN server and the hub are those their own
  \<open>New\<close> returns for their configurations, and exactly the TURN server's sockets are opened.  It
  fails only if the TURN server fails or the reserved signaling secret is set, and in the
  second case the TURN server it had already started keeps all its sockets open.\<close>

theorem server_new_components:
  assumes fresh: "fresh_ids w" and new: "server_new env cfg active w = (r, w')"
  shows "case r of
      Inr s \<Rightarrow>
        ht_Addr (sv_srv s) = hs_ListenAddr cfg
        \<and> ht_ReadTimeout (sv_srv s) = hs_ReadTimeout cfg \<and> ht_WriteTimeout (sv_srv s) = hs_WriteTimeout cfg
        \<and> set (ht_Handler (sv_srv s)) = expected_routes (hs_Signaling cfg \<noteq> None) (hs_EnablePprof cfg)
        \<and> distinct (map fst (ht_Handler (sv_srv s)))
        \<and> sv_metricsSrv s = (if hs_MetricsAddr cfg = [] then None
             else Some \<lparr>ht_Addr = hs_MetricsAddr cfg, ht_Handler = [(''/metrics'', HMetrics)],
                        ht_ReadTimeout = hs_ReadTimeout cfg, ht_WriteTimeout = hs_WriteTimeout cfg\<rparr>)
        \<and> sv_healthcheck s = health_new (hs_DrainDuration cfg) \<and> h_isReady (sv_healthcheck s)
        \<and> (case hs_TURN cfg of
             None \<Rightarrow> sv_turnSrv s = None
           | Some tc \<Rightarrow> \<exists>t w1. sv_turnSrv s = Some t \<and> turn_new env tc w = (Inr t, w1))
        \<and> (case hs_Signaling cfg of
             None \<Rightarrow> sv_signaling s = None
           | Some sc \<Rightarrow> \<exists>h. sv_signaling s = Some h \<and> hub_new (Some sc) active = Inr h)
        \<and> pr_open w' = turn_sockets (sv_turnSrv s) @ pr_open w
        \<and> length (turn_sockets (sv_turnSrv s)) = turn_listeners cfg
    | Inl (SignalingFailed _) \<Rightarrow>
        (\<exists>sc. hs_Signaling cfg = Some sc \<and> cfg_TurnSecret sc \<noteq> [])
        \<and> (\<exists>leaked. pr_open w' = leaked @ pr_open w \<and> length leaked = turn_listeners cfg)
    | Inl (TurnFailed e) \<Rightarrow> \<exists>tc. hs_TURN cfg = Some tc \<and> turn_new env tc w = (Inl e, w')"
proof (cases r)
  case (Inl e)
  then show ?thesis using server_new_parts [OF assms] by simp
next
  case (Inr s)
  obtain t hub w1 where p: "new_turn env cfg w = (Inr t, w1)" "new_signaling cfg active = Inr hub"
    "w' = router_log cfg w1"
    "s = \<lparr>sv_cfg = cfg, sv_healthcheck = health_new (hs_DrainDuration cfg),
          sv_srv = \<lparr>ht_Addr = hs_ListenAddr cfg, ht_Handler = getRouter cfg (hub \<noteq> None),
                    ht_ReadTimeout = hs_ReadTimeout cfg, ht_WriteTimeout = hs_WriteTimeout cfg\<rparr>,
          sv_metricsSrv = metrics_server cfg, sv_turnSrv = t, sv_signaling = hub\<rparr>"
    by (rule server_new_built [OF new [unfolded Inr]])
  have turn: "case hs_TURN cfg of None \<Rightarrow> sv_turnSrv s = None
      | Some tc \<Rightarrow> \<exists>t w1. sv_turnSrv s = Some t \<and> turn_new env tc w = (Inr t, w1)"
    using p(1,4) by (auto simp: new_turn_def split: option.splits prod.splits sum.splits)
  have sig: "case hs_Signaling cfg of None \<Rightarrow> sv_signaling s = None
      | Some sc \<Rightarrow> \<exists>h. sv_signaling s = Some h \<and> hub_new (Some sc) active = Inr h"
    using p(2,4) by (auto simp: new_signaling_def split: option.splits sum.splits)
  have metrics: "sv_metricsSrv s = (if hs_MetricsAddr cfg = [] then None
      else Some \<lparr>ht_Addr = hs_MetricsAddr cfg, ht_Handler = [(''/metrics'', HMetrics)],
                 ht_ReadTimeout = hs_ReadTimeout cfg, ht_WriteTimeout = hs_WriteTimeout cfg\<rparr>)"
    by (simp add: p(4) metrics_server_def metrics_routes_def)
  have routes: "set (ht_Handler (sv_srv s)) = expected_routes (hs_Signaling cfg \<noteq> None) (hs_EnablePprof cfg)"
    "distinct (map fst (ht_Handler (sv_srv s)))"
    using new_signaling_ok [OF p(2)] routes_distinct by (simp_all add: p(4) routes_exact)
  have opened: "pr_open w' = turn_sockets (sv_turnSrv s) @ pr_open w"
    "length (turn_sockets (sv_turnSrv s)) = turn_listeners cfg"
    using new_turn_opens [OF fresh p(1)] by (simp_all add: p(3,4))
  show ?thesis unfolding Inr sum.case
    by (intro conjI turn sig metrics routes opened) (simp_all add: p(4) health_new_def)
qed

definition sample_signaling :: config where
  "sample_signaling = \<lparr>cfg_StunURL = [], cfg_TurnURL = [], cfg_TurnSecret = ''s'', cfg_TurnCredentialTTL = 0,
     cfg_NoReceiverTimeout = 0, cfg_PingInterval = 0, cfg_PingTimeout = 0, cfg_SendBuffer = 0\<rparr>"

definition sample_server_cfg :: server_cfg where
  "sample_server_cfg = \<lparr>hs_ListenAddr = ''127.0.0.1:9000'', hs_MetricsAddr = [], hs_EnablePprof = False,
     hs_DrainDuration = 0, hs_GracefulShutdownDuration = 0, hs_ReadTimeout = 0, hs_WriteTimeout = 0,
     hs_TURN = Some sample_config, hs_Signaling = Some sample_signaling\<rparr>"

theorem server_new_components_witness:
  "\<exists>w' a b. server_new sample_env sample_server_cfg 0 empty_process
      = (Inl (SignalingFailed TurnSecretUnimplemented), w') \<and> pr_open w' = [a, b]"
proof -
  obtain s w' where "turn_new sample_env sample_config empty_process = (Inr s, w')"
    using sample_new by blast
  then have n: "server_new sample_env sample_server_cfg 0 empty_process
      = (Inl (SignalingFailed TurnSecretUnimplemented), w')"
    by (simp add: server_new_def new_turn_def new_signaling_def hub_new_def sample_server_cfg_def
        sample_signaling_def)
  from server_new_components [OF fresh_empty n] obtain leaked where
    "pr_open w' = leaked @ pr_open empty_process" "length leaked = turn_listeners sample_server_cfg"
    by auto
  then have "length (pr_open w') = 2"
    by (simp add: turn_listeners_def sample_server_cfg_def sample_config_def empty_process_def)
  then show ?thesis using n by (auto simp: length_Suc_conv numeral_2_eq_2)
qed

end
