(* ===== verification/Lifecycle.thy ===== *)
theory Lifecycle
  imports Server
begin

text \<open>
  The goroutines of the process: \<open>RunInBackground\<close> starts up to three, \<open>ErrCh\<close> is the
  buffered channel they report a fatal error on, and the main goroutine selects between a
  signal and that channel and then runs \<open>Shutdown\<close>.  Every interleaving is a path of
  \<open>sys_step\<close>.
\<close>

section \<open>State\<close>

datatype comp = TurnRun | MetricsRun | ApiRun

text \<open>A component's goroutine: not started, in its blocking call, at the channel send, ended.\<close>

datatype gstate = Absent | Running | Sending string | Ended

text \<open>Where the main goroutine is: its select, the parts of \<open>Shutdown\<close>, the return.\<close>

datatype main_pc = InSelect | ShutSignaling | ShutAPI | ShutMetrics | ShutTURN | Waiting | Returned

record sys =
  y_go :: "comp \<Rightarrow> gstate"
  y_errCh :: "string list"
  y_down :: "comp \<Rightarrow> bool"
  y_hub :: "bool option"
  y_main :: main_pc
  y_result :: "string option"

text \<open>\<open>y_down\<close>: shut down or cancelled; \<open>y_hub\<close>: the signaling hub, and whether it is closed.\<close>

definition all_comps :: "comp list" where
  "all_comps = [TurnRun, MetricsRun, ApiRun]"

definition errCh_capacity :: nat where "errCh_capacity = 4"

definition run_in_background :: "bool \<Rightarrow> bool \<Rightarrow> bool \<Rightarrow> sys" where
  "run_in_background turn metrics signaling =
     \<lparr>y_go = (\<lambda>c. case c of
          TurnRun \<Rightarrow> if turn then Running else Absent
        | MetricsRun \<Rightarrow> if metrics then Running else Absent
        | ApiRun \<Rightarrow> Running),
      y_errCh = [], y_down = (\<lambda>_. False), y_hub = (if signaling then Some False else None),
      y_main = InSelect, y_result = None\<rparr>"

definition set_go :: "comp \<Rightarrow> gstate \<Rightarrow> sys \<Rightarrow> sys" where
  "set_go c g s = s\<lparr>y_go := (y_go s)(c := g)\<rparr>"

definition shut_down :: "comp \<Rightarrow> main_pc \<Rightarrow> sys \<Rightarrow> sys" where
  "shut_down c pc s = s\<lparr>y_down := (y_down s)(c := (y_go s c \<noteq> Absent)), y_main := pc\<rparr>"

definition finished :: "gstate \<Rightarrow> bool" where
  "finished g \<longleftrightarrow> g = Absent \<or> g = Ended"

section \<open>Steps\<close>

text \<open>
  \<open>ListenAndServe\<close> may fail at any time and returns \<open>ErrServerClosed\<close>, which is
  ignored, only after its server was shut down; \<open>turn.Server.Run\<close> returns only after its
  context is cancelled, with what closing returned.  Closing the hub is one step here: its own
  goroutines, and that it completes, are the subject of \<open>HubClose\<close>.  A send needs room in the channel; the
  wait group's wait needs every goroutine to have ended.
\<close>

inductive sys_step :: "sys \<Rightarrow> sys \<Rightarrow> bool" where
  http_fails: "c \<in> {MetricsRun, ApiRun} \<Longrightarrow> y_go s c = Running \<Longrightarrow> sys_step s (set_go c (Sending e) s)"
| http_closed: "c \<in> {MetricsRun, ApiRun} \<Longrightarrow> y_go s c = Running \<Longrightarrow> y_down s c \<Longrightarrow> sys_step s (set_go c Ended s)"
| turn_closed: "y_go s TurnRun = Running \<Longrightarrow> y_down s TurnRun \<Longrightarrow> sys_step s (set_go TurnRun Ended s)"
| turn_failed: "y_go s TurnRun = Running \<Longrightarrow> y_down s TurnRun \<Longrightarrow> sys_step s (set_go TurnRun (Sending e) s)"
| send: "y_go s c = Sending e \<Longrightarrow> length (y_errCh s) < errCh_capacity \<Longrightarrow>
    sys_step s ((set_go c Ended s)\<lparr>y_errCh := y_errCh s @ [e]\<rparr>)"
| os_signal: "y_main s = InSelect \<Longrightarrow> sys_step s (s\<lparr>y_main := ShutSignaling\<rparr>)"
| component_error: "y_main s = InSelect \<Longrightarrow> y_errCh s = e # es \<Longrightarrow>
    sys_step s (s\<lparr>y_main := ShutSignaling, y_errCh := es, y_result := Some e\<rparr>)"
| close_signaling: "y_main s = ShutSignaling \<Longrightarrow>
    sys_step s (s\<lparr>y_main := ShutAPI, y_hub := map_option (\<lambda>_. True) (y_hub s)\<rparr>)"
| shut_api: "y_main s = ShutAPI \<Longrightarrow> sys_step s (shut_down ApiRun ShutMetrics s)"
| shut_metrics: "y_main s = ShutMetrics \<Longrightarrow> sys_step s (shut_down MetricsRun ShutTURN s)"
| shut_turn: "y_main s = ShutTURN \<Longrightarrow> sys_step s (shut_down TurnRun Waiting s)"
| wait_done: "y_main s = Waiting \<Longrightarrow> list_all (\<lambda>c. finished (y_go s c)) all_comps \<Longrightarrow>
    sys_step s (s\<lparr>y_main := Returned\<rparr>)"

section \<open>Every run is finite\<close>

fun go_weight :: "gstate \<Rightarrow> nat" where
  "go_weight Running = 2"
| "go_weight (Sending e) = 1"
| "go_weight Absent = 0"
| "go_weight Ended = 0"

fun pc_weight :: "main_pc \<Rightarrow> nat" where
  "pc_weight InSelect = 6"
| "pc_weight ShutSignaling = 5"
| "pc_weight ShutAPI = 4"
| "pc_weight ShutMetrics = 3"
| "pc_weight ShutTURN = 2"
| "pc_weight Waiting = 1"
| "pc_weight Returned = 0"

definition sys_weight :: "sys \<Rightarrow> nat" where
  "sys_weight s = sum_list (map (\<lambda>c. go_weight (y_go s c)) all_comps) + pc_weight (y_main s)"

lemma comp_all: "list_all P all_comps \<longleftrightarrow> (\<forall>c. P c)"
  by (auto simp: all_comps_def) (metis comp.exhaust)

lemma set_go_weight:
  "sys_weight (set_go c g s) + go_weight (y_go s c) = sys_weight s + go_weight g"
  by (cases c) (simp_all add: sys_weight_def all_comps_def set_go_def)

lemma sys_weight_upd [simp]:
  "sys_weight (s\<lparr>y_errCh := x\<rparr>) = sys_weight s" "sys_weight (s\<lparr>y_hub := h\<rparr>) = sys_weight s"
  "sys_weight (s\<lparr>y_result := r\<rparr>) = sys_weight s" "sys_weight (s\<lparr>y_down := d\<rparr>) = sys_weight s"
  by (simp_all add: sys_weight_def)

lemma pc_step_weight: "pc_weight (y_main s) = Suc (pc_weight p) \<Longrightarrow> sys_weight (s\<lparr>y_main := p\<rparr>) < sys_weight s"
  by (simp add: sys_weight_def)

lemma sys_step_decreases: "sys_step s t \<Longrightarrow> sys_weight t < sys_weight s"
proof (induction rule: sys_step.induct)
  case (http_fails c s e)
  then show ?case using set_go_weight [of c "Sending e" s] by simp
next
  case (http_closed c s)
  then show ?case using set_go_weight [of c Ended s] by simp
next
  case (turn_closed s)
  then show ?case using set_go_weight [of TurnRun Ended s] by simp
next
  case (turn_failed s e)
  then show ?case using set_go_weight [of TurnRun "Sending e" s] by simp
next
  case (send s c e)
  then show ?case using set_go_weight [of c Ended s] by simp
qed (auto simp: sys_weight_def shut_down_def)

lemma run_length: "(sys_step ^^ n) s t \<Longrightarrow> n + sys_weight t \<le> sys_weight s"
proof (induction n arbitrary: t)
  case (Suc n)
  then obtain b where "(sys_step ^^ n) s b" "sys_step b t" by auto
  then show ?case using Suc.IH [of b] sys_step_decreases [of b t] by linarith
qed simp

section \<open>The invariant\<close>

definition pending :: "sys \<Rightarrow> comp list" where
  "pending s = List.filter (\<lambda>c. \<not> finished (y_go s c)) all_comps"

text \<open>Hub first, then the servers in the order of \<open>Shutdown\<close>.\<close>

definition hub_first :: "sys \<Rightarrow> bool" where
  "hub_first s \<longleftrightarrow>
     (y_hub s = Some False \<longrightarrow> 4 < pc_weight (y_main s) \<and> (\<forall>c. \<not> y_down s c))"

definition down_order :: "sys \<Rightarrow> bool" where
  "down_order s \<longleftrightarrow> (\<forall>c. y_go s c \<noteq> Absent \<longrightarrow>
     pc_weight (y_main s) \<le> (case c of ApiRun \<Rightarrow> 3 | MetricsRun \<Rightarrow> 2 | TurnRun \<Rightarrow> 1) \<longrightarrow> y_down s c)"

definition all_finished :: "sys \<Rightarrow> bool" where
  "all_finished s \<longleftrightarrow> (\<forall>c. finished (y_go s c))"

definition sys_inv :: "sys \<Rightarrow> bool" where
  "sys_inv s \<longleftrightarrow>
     length (y_errCh s) + length (pending s) \<le> 3 \<and> hub_first s \<and> down_order s
     \<and> (y_main s = Returned \<longrightarrow> all_finished s)"

lemma pending_set_go:
  "\<not> finished (y_go s c) \<Longrightarrow>
   length (pending (set_go c g s)) + 1 = length (pending s) + of_bool (\<not> finished g)"
  by (cases c) (auto simp: pending_def all_comps_def set_go_def)

lemma set_go_sel [simp]:
  "y_main (set_go c g s) = y_main s" "y_hub (set_go c g s) = y_hub s" "y_down (set_go c g s) = y_down s"
  "y_errCh (set_go c g s) = y_errCh s"
  by (simp_all add: set_go_def)

lemma shut_down_sel [simp]:
  "y_main (shut_down c p s) = p" "y_hub (shut_down c p s) = y_hub s" "y_go (shut_down c p s) = y_go s"
  "y_errCh (shut_down c p s) = y_errCh s" "y_down (shut_down c p s) d = (if d = c then y_go s c \<noteq> Absent else y_down s d)"
  by (simp_all add: shut_down_def)

lemma pending_upd [simp]:
  "pending (s\<lparr>y_errCh := x\<rparr>) = pending s" "pending (s\<lparr>y_hub := h\<rparr>) = pending s"
  "pending (s\<lparr>y_result := r\<rparr>) = pending s" "pending (s\<lparr>y_main := p\<rparr>) = pending s"
  "pending (shut_down c p s) = pending s"
  by (simp_all add: pending_def shut_down_def)

lemma sys_inv_init: "sys_inv (run_in_background turn metrics signaling)"
  by (simp add: sys_inv_def run_in_background_def pending_def all_comps_def finished_def hub_first_def
      down_order_def split: comp.split)

lemma sys_inv_set_go:
  assumes inv: "sys_inv s" and act: "\<not> finished (y_go s c)" and g: "g \<noteq> Absent"
    and len: "length x + length (pending (set_go c g s)) \<le> 3"
  shows "sys_inv ((set_go c g s)\<lparr>y_errCh := x\<rparr>)"
proof -
  let ?t = "(set_go c g s)\<lparr>y_errCh := x\<rparr>"
  have ret: "y_main s \<noteq> Returned" using inv act unfolding sys_inv_def all_finished_def by blast
  have "y_go ?t d \<noteq> Absent \<longleftrightarrow> y_go s d \<noteq> Absent" for d
    using g act by (simp add: set_go_def finished_def)
  then have "down_order ?t \<longleftrightarrow> down_order s" by (simp add: down_order_def)
  moreover have "hub_first ?t \<longleftrightarrow> hub_first s" by (simp add: hub_first_def)
  ultimately show ?thesis using inv len ret by (simp add: sys_inv_def)
qed

lemma sys_inv_go:
  "sys_inv s \<Longrightarrow> \<not> finished (y_go s c) \<Longrightarrow> g \<noteq> Absent \<Longrightarrow> sys_inv (set_go c g s)"
proof -
  assume a: "sys_inv s" "\<not> finished (y_go s c)" "g \<noteq> Absent"
  have "length (y_errCh s) + length (pending (set_go c g s)) \<le> 3"
    using pending_set_go [OF a(2), of g] a(1) by (cases "finished g") (simp_all add: sys_inv_def)
  from sys_inv_set_go [OF a this] show ?thesis by (simp add: set_go_def)
qed

lemma sys_inv_step: "sys_step s t \<Longrightarrow> sys_inv s \<Longrightarrow> sys_inv t"
proof (induction rule: sys_step.induct)
  case (send s c e)
  have act: "\<not> finished (y_go s c)" using send(1) by (simp add: finished_def)
  have "Suc (length (pending (set_go c Ended s))) = length (pending s)"
    using pending_set_go [OF act, of Ended] by (simp add: finished_def)
  then show ?case using send act by (intro sys_inv_set_go) (auto simp: sys_inv_def)
next
  case (close_signaling s)
  then show ?case by (auto simp: sys_inv_def hub_first_def down_order_def split: comp.splits)
next
  case (shut_api s)
  then show ?case by (auto simp: sys_inv_def hub_first_def down_order_def split: comp.splits)
next
  case (shut_metrics s)
  then show ?case by (auto simp: sys_inv_def hub_first_def down_order_def split: comp.splits)
next
  case (shut_turn s)
  then show ?case by (auto simp: sys_inv_def hub_first_def down_order_def split: comp.splits)
next
  case (wait_done s)
  then show ?case
    by (auto simp: sys_inv_def hub_first_def down_order_def all_finished_def comp_all split: comp.splits)
next
  case (component_error s e es)
  then show ?case by (auto simp: sys_inv_def hub_first_def down_order_def split: comp.splits)
next
  case (os_signal s)
  then show ?case by (auto simp: sys_inv_def hub_first_def down_order_def split: comp.splits)
qed (simp_all add: sys_inv_go finished_def)

interpretation lifecycle: invariant_system "\<lambda>s. s = run_in_background turn metrics signaling" sys_step sys_inv
  by unfold_locales (auto intro: sys_inv_init sys_inv_step)

section \<open>Shutdown completes\<close>

lemma sender_has_room:
  "sys_inv s \<Longrightarrow> y_go s c = Sending e \<Longrightarrow> length (y_errCh s) < errCh_capacity"
proof -
  assume inv: "sys_inv s" and c: "y_go s c = Sending e"
  have "c \<in> set (pending s)" using c by (cases c) (simp_all add: pending_def all_comps_def finished_def)
  then have "0 < length (pending s)" by auto
  then show ?thesis using inv unfolding sys_inv_def errCh_capacity_def by linarith
qed

text \<open>What the main goroutine can do next, unless it waits for goroutines that are still there.\<close>

lemma main_moves:
  "y_main s \<notin> {Waiting, Returned} \<Longrightarrow> \<exists>t. sys_step s t"
  by (cases "y_main s") (auto intro: os_signal close_signaling shut_api shut_metrics shut_turn)

lemma goroutine_moves:
  assumes "sys_inv s" "y_main s = Waiting" "\<not> finished (y_go s c)"
  shows "\<exists>t. sys_step s t"
proof (cases "y_go s c")
  case (Sending e)
  then show ?thesis using send [OF Sending sender_has_room [OF assms(1) Sending]] by blast
next
  case Running
  have "down_order s" using assms(1) by (simp add: sys_inv_def)
  then have d: "y_down s c" using Running assms(2) unfolding down_order_def by (cases c) auto
  show ?thesis
  proof (cases "c = TurnRun")
    case True
    then show ?thesis using turn_closed [of s] Running d by blast
  next
    case False
    then show ?thesis using http_closed [of c s] Running d by (cases c) auto
  qed
qed (use assms in \<open>simp_all add: finished_def\<close>)

lemma stuck_is_done:
  assumes "sys_inv s" "\<nexists>t. sys_step s t"
  shows "y_main s = Returned \<and> all_finished s \<and> y_hub s \<noteq> Some False"
proof -
  have "y_main s \<in> {Waiting, Returned}" using main_moves assms(2) by blast
  moreover have "y_main s \<noteq> Waiting"
  proof
    assume w: "y_main s = Waiting"
    then have "list_all (\<lambda>c. finished (y_go s c)) all_comps"
      using goroutine_moves [OF assms(1) w] assms(2) by (auto simp: comp_all)
    then show False using wait_done [OF w] assms(2) by blast
  qed
  ultimately have "y_main s = Returned" by blast
  then show ?thesis using assms(1) by (auto simp: sys_inv_def hub_first_def)
qed

text \<open>C35: The process shuts down under every interleaving of its components' failures, the signal and
  the shutdown: no component ever blocks on reporting an error (the channel has room for all of
  them), a step is always possible until the main goroutine has returned with every goroutine
  ended and the hub closed, no run is longer than 12 steps, and the hub is closed before any
  listener is shut down.\<close>

theorem shutdown_always_completes:
  assumes "reach_from (\<lambda>s. s = run_in_background turn metrics signaling) sys_step s"
  shows "(\<forall>c e. y_go s c = Sending e \<longrightarrow> (\<exists>t. sys_step s t \<and> y_go t c = Ended))
    \<and> ((\<exists>t. sys_step s t) \<or> (y_main s = Returned \<and> (\<forall>c. finished (y_go s c)) \<and> y_hub s \<noteq> Some False))
    \<and> (\<forall>n t. (sys_step ^^ n) (run_in_background turn metrics signaling) t \<longrightarrow> n \<le> 12)
    \<and> ((\<exists>c. y_down s c) \<longrightarrow> y_hub s \<noteq> Some False)"
proof -
  have inv: "sys_inv s" by (rule lifecycle.inv_reachable [OF assms])
  have "\<exists>t. sys_step s t \<and> y_go t c = Ended" if "y_go s c = Sending e" for c e
    using send [OF that sender_has_room [OF inv that]] by (intro exI conjI) (auto simp: set_go_def)
  moreover have "sys_weight (run_in_background turn metrics signaling) \<le> 12"
    by (simp add: sys_weight_def run_in_background_def all_comps_def)
  then have "n \<le> 12" if "(sys_step ^^ n) (run_in_background turn metrics signaling) t" for n t
    using run_length [OF that] by linarith
  moreover have "(\<exists>c. y_down s c) \<longrightarrow> y_hub s \<noteq> Some False" using inv by (auto simp: sys_inv_def hub_first_def)
  ultimately show ?thesis using stuck_is_done [OF inv] unfolding all_finished_def by blast
qed

lemma sample_failure:
  "reach_from (\<lambda>s. s = run_in_background True True True) sys_step
     (set_go ApiRun (Sending ''bind'') (run_in_background True True True))"
  by (rule reach_step [OF reach_init], rule refl, rule http_fails) (simp_all add: run_in_background_def)

theorem shutdown_always_completes_witness:
  "\<exists>t. sys_step (set_go ApiRun (Sending ''bind'') (run_in_background True True True)) t \<and> y_go t ApiRun = Ended"
  using shutdown_always_completes [OF sample_failure] by (simp add: set_go_def)

end
