(* ===== verification/Main_Server.thy ===== *)
theory Main_Server
  imports Lifecycle
begin

text \<open>
  \<open>cmd/server/main.go\<close> and \<open>cmd/cli/main.go\<close>: the flag table, the port-range
  parser, the configuration the action builds from the flags, and the command-line tool.
  The flag values come from urfave/cli, which is a parameter (\<open>context\<close>).
\<close>

section \<open>Flags\<close>

datatype flag_value = FStr string | FBool bool | FInt int

type_synonym flag_table = "(string \<times> flag_value) list"

definition flags :: flag_table where
  "flags =
    [(''listen-addr'', FStr ''127.0.0.1:9000''),
     (''metrics-addr'', FStr ''127.0.0.1:8090''),
     (''log-json'', FBool False),
     (''log-debug'', FBool False),
     (''log-uid'', FBool False),
     (''log-service'', FStr ''jokertc''),
     (''pprof'', FBool False),
     (''drain-seconds'', FInt 45),
     (''turn-listen-addr'', FStr '':3478''),
     (''turn-external-ip'', FStr []),
     (''signaling'', FBool True),
     (''signaling-stun-url'', FStr []),
     (''signaling-turn-url'', FStr []),
     (''signaling-no-receiver-seconds'', FInt 20),
     (''signaling-ping-seconds'', FInt 30),
     (''turn-disable-stun'', FBool False),
     (''turn-allow-any-credential'', FBool False),
     (''turn-relay-port-range'', FStr ''49152-49352'')]"

text \<open>\<open>cCtx\<close>: the value of each flag; a lookup of another type gives the zero value.\<close>

type_synonym flag_context = "string \<Rightarrow> flag_value option"

definition ctx_String :: "flag_context \<Rightarrow> string \<Rightarrow> string" where
  "ctx_String c n = (case c n of Some (FStr s) \<Rightarrow> s | _ \<Rightarrow> [])"

definition ctx_Bool :: "flag_context \<Rightarrow> string \<Rightarrow> bool" where
  "ctx_Bool c n = (case c n of Some (FBool b) \<Rightarrow> b | _ \<Rightarrow> False)"

definition ctx_Int64 :: "flag_context \<Rightarrow> string \<Rightarrow> int" where
  "ctx_Int64 c n = (case c n of Some (FInt i) \<Rightarrow> i | _ \<Rightarrow> 0)"

definition default_context :: flag_context where
  "default_context = map_of flags"

section \<open>parsePortRange\<close>

datatype port_range_error =
    NotMinMax string
  | NotANumber string atoi_error
  | OutOfRange int int

definition parsePortRange :: "string \<Rightarrow> port_range_error + int \<times> int" where
  "parsePortRange s =
     (case split_n2 (CHR ''-'') s of
        [a, b] \<Rightarrow>
          (case atoi (trim_space a) of
             Inl e \<Rightarrow> Inl (NotANumber s e)
           | Inr lo \<Rightarrow>
               (case atoi (trim_space b) of
                  Inl e \<Rightarrow> Inl (NotANumber s e)
                | Inr hi \<Rightarrow>
                    if lo \<le> 0 \<or> hi < lo \<or> hi > 65535 then Inl (OutOfRange lo hi) else Inr (lo, hi)))
      | _ \<Rightarrow> Inl (NotMinMax s))"

lemma dropWhile_all: "\<forall>x \<in> set xs. P x \<Longrightarrow> dropWhile P (xs @ ys) = dropWhile P ys"
  by (induction xs) auto

lemma trim_space_pad:
  assumes "ascii t" "t \<noteq> []" "\<not> is_space (code (hd t))" "\<not> is_space (code (last t))"
    and "set sp1 \<subseteq> {CHR '' ''}" "set sp2 \<subseteq> {CHR '' ''}"
  shows "trim_space (sp1 @ t @ sp2) = t"
proof -
  let ?m = "map (\<lambda>c. [c])"
  have sc: "space_chunk [c] = is_space (code c)" if "code c < 0x80" for c
    using that by (simp add: space_chunk_def)
  have mem: "code c < 0x80" if "c \<in> set t" for c
    using assms(1) that by (auto simp: ascii_def list_all_iff)
  have sp: "\<forall>x \<in> set (?m sp1). space_chunk x" "\<forall>x \<in> set (rev (?m sp2)). space_chunk x"
    using assms(5,6) by (auto simp: sc is_space_def)
  have "ascii (sp1 @ t @ sp2)" using assms by (auto simp: ascii_def list_all_iff)
  then have "chunks (sp1 @ t @ sp2) = ?m sp1 @ ?m t @ ?m sp2" by (simp add: chunks_ascii)
  moreover have "dropWhile space_chunk (?m sp1 @ ?m t @ ?m sp2) = ?m t @ ?m sp2"
    using assms(2,3) sc mem by (subst dropWhile_all [OF sp(1)]) (cases t; simp)
  moreover have "dropWhile space_chunk (rev (?m t @ ?m sp2)) = rev (?m t)"
    unfolding rev_append using assms(2,4) sc mem
    by (subst dropWhile_all [OF sp(2)]) (cases t rule: rev_cases; simp)
  moreover have "concat (?m t) = t" by (induction t) auto
  ultimately show ?thesis by (simp add: trim_space_def)
qed

lemma trim_space_number:
  "set sp1 \<subseteq> {CHR '' ''} \<Longrightarrow> set sp2 \<subseteq> {CHR '' ''} \<Longrightarrow> trim_space (sp1 @ itoa_nat n @ sp2) = itoa_nat n"
  using digit_not_space [OF itoa_nat_hd, of n] digit_not_space [OF itoa_nat_last, of n]
  by (intro trim_space_pad) (simp_all add: ascii_itoa_nat)

lemma parsed_in_bounds: "parsePortRange s = Inr (lo, hi) \<Longrightarrow> 1 \<le> lo \<and> lo \<le> hi \<and> hi \<le> 65535"
  by (auto simp: parsePortRange_def split: list.splits sum.splits if_splits)

text \<open>C38: A relay port range is accepted exactly as it should: any two ports written as
  \<open>min-max\<close>, also with spaces around the numbers, are read back when
  1 \<le> min \<le> max \<le> 65535 and refused as out of range otherwise, and whatever is accepted lies
  in these bounds.\<close>

theorem port_range_roundtrip:
  "(\<forall>lo hi sp1 sp2 sp3 sp4. lo < 2 ^ 63 \<longrightarrow> hi < 2 ^ 63 \<longrightarrow>
      set (sp1 @ sp2 @ sp3 @ sp4) \<subseteq> {CHR '' ''} \<longrightarrow>
      parsePortRange (sp1 @ itoa_nat lo @ sp2 @ ''-'' @ sp3 @ itoa_nat hi @ sp4) =
        (if 1 \<le> lo \<and> lo \<le> hi \<and> hi \<le> 65535 then Inr (int lo, int hi) else Inl (OutOfRange (int lo) (int hi))))
   \<and> (\<forall>s lo hi. parsePortRange s = Inr (lo, hi) \<longrightarrow> 1 \<le> lo \<and> lo \<le> hi \<and> hi \<le> 65535)"
proof (intro conjI allI impI)
  fix lo hi :: nat and sp1 sp2 sp3 sp4
  assume b: "lo < 2 ^ 63" "hi < 2 ^ 63" and sp: "set (sp1 @ sp2 @ sp3 @ sp4) \<subseteq> {CHR '' ''}"
  have "CHR ''-'' \<notin> set (sp1 @ itoa_nat lo @ sp2)" using sp itoa_nat_no_dash by auto
  from split_n2_append [OF this, of "sp3 @ itoa_nat hi @ sp4"]
  have "split_n2 (CHR ''-'') (sp1 @ itoa_nat lo @ sp2 @ ''-'' @ sp3 @ itoa_nat hi @ sp4)
      = [sp1 @ itoa_nat lo @ sp2, sp3 @ itoa_nat hi @ sp4]" by simp
  moreover have "trim_space (sp1 @ itoa_nat lo @ sp2) = itoa_nat lo" "trim_space (sp3 @ itoa_nat hi @ sp4) = itoa_nat hi"
    using sp by (auto intro!: trim_space_number)
  ultimately show "parsePortRange (sp1 @ itoa_nat lo @ sp2 @ ''-'' @ sp3 @ itoa_nat hi @ sp4) =
      (if 1 \<le> lo \<and> lo \<le> hi \<and> hi \<le> 65535 then Inr (int lo, int hi) else Inl (OutOfRange (int lo) (int hi)))"
    using atoi_itoa_nat [OF b(1)] atoi_itoa_nat [OF b(2)] by (auto simp: parsePortRange_def)
qed (use parsed_in_bounds in blast)+

theorem port_range_roundtrip_witness:
  "parsePortRange '' 49152 -49352'' = Inr (49152, 49352) \<and> parsePortRange ''9-8'' = Inl (OutOfRange 9 8)"
proof -
  have n: "itoa_nat 49152 = ''49152''" "itoa_nat 49352 = ''49352''" "itoa_nat 9 = ''9''" "itoa_nat 8 = ''8''"
    by (simp_all add: itoa_nat.simps digit_def chr_of_def char_of_def bit_Suc_0_iff)
  note r = port_range_roundtrip [THEN conjunct1, rule_format]
  show ?thesis
    using r [of 49152 49352 "'' ''" "'' ''" "[]" "[]"] r [of 9 8 "[]" "[]" "[]" "[]"] by (simp add: n)
qed

section \<open>The action: from flags to a configuration\<close>

text \<open>\<open>time.Duration(n) * time.Second\<close>, a 64-bit product.\<close>

definition seconds :: "int \<Rightarrow> int" where
  "seconds n = sint (word_of_int n * 1000000000 :: 64 word)"

definition signaling_settings :: "flag_context \<Rightarrow> config" where
  "signaling_settings c =
     \<lparr>cfg_StunURL = ctx_String c ''signaling-stun-url'',
      cfg_TurnURL = ctx_String c ''signaling-turn-url'',
      cfg_TurnSecret = [], cfg_TurnCredentialTTL = 0,
      cfg_NoReceiverTimeout = seconds (ctx_Int64 c ''signaling-no-receiver-seconds''),
      cfg_PingInterval = seconds (ctx_Int64 c ''signaling-ping-seconds''),
      cfg_PingTimeout = 0, cfg_SendBuffer = 0\<rparr>"

text \<open>\<open>gen\<close> is \<open>pion.GenerateAuthKey\<close>.\<close>

definition turn_settings ::
  "(bytes \<Rightarrow> string \<Rightarrow> bytes \<Rightarrow> bytes) \<Rightarrow> flag_context \<Rightarrow> int \<Rightarrow> int \<Rightarrow> turnConfig" where
  "turn_settings gen c lo hi =
     (let base = \<lparr>tc_ListenUDPAddr = ctx_String c ''turn-listen-addr'',
        tc_ListenTCPAddr = ctx_String c ''turn-listen-addr'', tc_ExternalIP = [],
        tc_RelayPortMin = lo, tc_RelayPortMax = hi, tc_Auth = Some (AllowAllAuth gen), tc_hasLog = True,
        tc_DisableSTUN = ctx_Bool c ''turn-disable-stun'',
        tc_AllowAnyCredential = ctx_Bool c ''turn-allow-any-credential''\<rparr>
      in if ctx_String c ''turn-external-ip'' \<noteq> []
         then base\<lparr>tc_ExternalIP := ctx_String c ''turn-external-ip''\<rparr> else base)"

text \<open>The port range is parsed also when TURN is disabled.\<close>

definition main_config ::
  "(bytes \<Rightarrow> string \<Rightarrow> bytes \<Rightarrow> bytes) \<Rightarrow> flag_context \<Rightarrow> port_range_error + server_cfg" where
  "main_config gen c =
     (let cfg0 = \<lparr>hs_ListenAddr = ctx_String c ''listen-addr'', hs_MetricsAddr = ctx_String c ''metrics-addr'',
        hs_EnablePprof = ctx_Bool c ''pprof'',
        hs_DrainDuration = seconds (ctx_Int64 c ''drain-seconds''),
        hs_GracefulShutdownDuration = seconds 30, hs_ReadTimeout = seconds 60, hs_WriteTimeout = seconds 30,
        hs_TURN = None, hs_Signaling = None\<rparr>;
          cfg1 = (if ctx_Bool c ''signaling'' then cfg0\<lparr>hs_Signaling := Some (signaling_settings c)\<rparr> else cfg0)
      in case parsePortRange (ctx_String c ''turn-relay-port-range'') of
           Inl e \<Rightarrow> Inl e
         | Inr (lo, hi) \<Rightarrow>
             Inr (if ctx_String c ''turn-listen-addr'' \<noteq> []
                  then cfg1\<lparr>hs_TURN := Some (turn_settings gen c lo hi)\<rparr> else cfg1))"

text \<open>The logger; \<open>uuid\<close> is what the generator would return.\<close>

definition main_logger :: "string \<Rightarrow> flag_context \<Rightarrow> logger_options" where
  "main_logger uuid c =
     SetupLogger \<lparr>lo_Service = ctx_String c ''log-service'', lo_JSON = ctx_Bool c ''log-json'',
       lo_Debug = ctx_Bool c ''log-debug'', lo_Concise = False, lo_RequestHeaders = False,
       lo_Version = Version, lo_UID = (if ctx_Bool c ''log-uid'' then uuid else []), lo_Tags = None\<rparr>"

section \<open>The action: starting\<close>

datatype action_error = BadFlags port_range_error | CannotStart server_error

definition action_start ::
  "net_env \<Rightarrow> (bytes \<Rightarrow> string \<Rightarrow> bytes \<Rightarrow> bytes) \<Rightarrow> 64 word \<Rightarrow> flag_context \<Rightarrow> process
     \<Rightarrow> (action_error + server) \<times> process" where
  "action_start env gen active c p =
     (case main_config gen c of
        Inl e \<Rightarrow> (Inl (BadFlags e), p)
      | Inr cfg \<Rightarrow>
          (case server_new env cfg active p of
             (Inl e, p') \<Rightarrow> (Inl (CannotStart e), p'\<lparr>pr_log := pr_log p' @ [log_at LError ''failed to create server''
             [(''err'', VStr (server_error_text e))]]\<rparr>)
           | (Inr s, p') \<Rightarrow> (Inr s, p')))"

text \<open>After a start, the goroutines are those of \<open>Lifecycle\<close>.\<close>

definition action_run :: "server \<Rightarrow> sys" where
  "action_run s = run_in_background (sv_turnSrv s \<noteq> None) (sv_metricsSrv s \<noteq> None) (sv_signaling s \<noteq> None)"

section \<open>cmd/cli/main.go\<close>

definition cli_flags :: flag_table where
  "cli_flags = [(''log-json'', FBool False), (''log-debug'', FBool False)]"

text \<open>The lines a logger writes: those at its level or above.\<close>

definition written :: "logger_options \<Rightarrow> log_line list \<Rightarrow> log_line list" where
  "written lg ls = List.filter (\<lambda>l. lg_Level lg \<le> l_level l) ls"

definition runCli :: "flag_context \<Rightarrow> log_line list" where
  "runCli c =
     (let lg = SetupLogger \<lparr>lo_Service = [], lo_JSON = ctx_Bool c ''log-json'', lo_Debug = ctx_Bool c ''log-debug'',
        lo_Concise = False, lo_RequestHeaders = False, lo_Version = Version, lo_UID = [], lo_Tags = None\<rparr>
      in written lg
        [log_at LInfo ''Starting the project'' [], log_at LDebug ''debug message'' [],
         log_at LInfo ''info message'' [], log_at LWarn ''warn message'' [(''key'', VStr ''value'')],
         log_at LError ''error message'' [(''err'', VStr ''unsupported operation'')]])"

lemma runCli_lines: "length (runCli c) = (if ctx_Bool c ''log-debug'' then 5 else 4)"
  by (simp add: runCli_def written_def SetupLogger_def log_at_def less_eq_level_def Let_def)

section \<open>The two programs\<close>

text \<open>The \<open>cli.App\<close> of each \<open>main\<close>.\<close>

record app =
  app_Name :: string
  app_Usage :: string
  app_Version :: string
  app_HideVersion :: bool
  app_Flags :: flag_table

definition server_app :: app where
  "server_app = \<lparr>app_Name = ''server'', app_Usage = ''Serve API, and metrics'', app_Version = Version,
     app_HideVersion = False, app_Flags = flags\<rparr>"

definition cli_app :: app where
  "cli_app = \<lparr>app_Name = ''cli'', app_Usage = ''command-line interface for your project'',
     app_Version = Version, app_HideVersion = False, app_Flags = cli_flags\<rparr>"

text \<open>
  \<open>log.Fatal\<close> on what \<open>app.Run\<close> returns: status 1 for an error.  The server's action
  returns the error that kept it from starting, or the component error its select took, and
  nothing while its goroutines still run.
\<close>

definition exit_status :: "'e option \<Rightarrow> nat" where
  "exit_status r = (case r of None \<Rightarrow> 0 | Some e \<Rightarrow> 1)"

definition server_status :: "action_error + sys \<Rightarrow> nat option" where
  "server_status a =
     (case a of
        Inl e \<Rightarrow> Some (exit_status (Some e))
      | Inr s \<Rightarrow> if y_main s = Returned then Some (exit_status (y_result s)) else None)"

text \<open>A server at rest has exited, with status 1 exactly when its select took an error.\<close>

lemma server_exits:
  assumes "reach_from (\<lambda>s. s = run_in_background turn metrics signaling) sys_step s" "\<nexists>t. sys_step s t"
  shows "server_status (Inr s) = Some (if y_result s = None then 0 else 1)"
  using stuck_is_done [OF lifecycle.inv_reachable [OF assms(1)] assms(2)]
  by (simp add: server_status_def exit_status_def split: option.split)

section \<open>Starting fails only for the outside world\<close>

lemma seconds_exact:
  assumes "0 \<le> n" "n \<le> 9223372036"
  shows "seconds n = n * 1000000000"
proof -
  have s: "sint (word_of_int k :: 64 word) = k" if "0 \<le> k" "k < 2 ^ 63" for k
    using that by (simp add: sint_sbintrunc' signed_take_bit_int_eq_self)
  have "(word_of_int n * 1000000000 :: 64 word) = word_of_int (n * 1000000000)" by simp
  moreover have "sint (word_of_int (n * 1000000000) :: 64 word) = n * 1000000000"
    using assms by (intro s) simp_all
  ultimately show ?thesis unfolding seconds_def by (simp only:)
qed

lemma main_config_parts:
  assumes "main_config gen c = Inr cfg"
  shows "hs_WriteTimeout cfg = 30 * 1000000000" "hs_DrainDuration cfg = seconds (ctx_Int64 c ''drain-seconds'')"
    "hs_Signaling cfg = (if ctx_Bool c ''signaling'' then Some (signaling_settings c) else None)"
    "\<exists>lo hi. parsePortRange (ctx_String c ''turn-relay-port-range'') = Inr (lo, hi)
      \<and> hs_TURN cfg = (if ctx_String c ''turn-listen-addr'' \<noteq> [] then Some (turn_settings gen c lo hi) else None)"
  using assms seconds_exact [of 30]
  by (auto simp: main_config_def Let_def split: sum.splits prod.splits if_splits)

lemma turn_settings_parts:
  "tc_ListenUDPAddr (turn_settings gen c lo hi) = ctx_String c ''turn-listen-addr''"
  "tc_ListenTCPAddr (turn_settings gen c lo hi) = ctx_String c ''turn-listen-addr''"
  "tc_RelayPortMin (turn_settings gen c lo hi) = lo" "tc_RelayPortMax (turn_settings gen c lo hi) = hi"
  "tc_Auth (turn_settings gen c lo hi) = Some (AllowAllAuth gen)"
  "tc_ExternalIP (turn_settings gen c lo hi) = ctx_String c ''turn-external-ip''"
  by (simp_all add: turn_settings_def Let_def)

text \<open>The settings \<open>main\<close> builds pass the validation of \<open>turn.New\<close>.\<close>

lemma main_turn_error:
  assumes fresh: "fresh_ids p" and addr: "ctx_String c ''turn-listen-addr'' \<noteq> []"
    and range: "parsePortRange s = Inr (lo, hi)"
    and new: "turn_new env (turn_settings gen c lo hi) p = (Inl t, p')"
  shows "\<exists>m. t \<in> {NoExternalIP m, UDPListener m, TCPListener m, PionServer m}"
proof -
  have valid: "t \<notin> {NoListener, InvalidRelayPorts lo hi, NoAuthenticator}"
    using new addr parsed_in_bounds [OF range]
    by (auto simp: turn_new_def turn_settings_parts listen_udp_def listen_tcp_def Let_def
        dest!: relay_ip_error split: sum.splits prod.splits option.splits if_splits)
  show ?thesis
    using fresh new valid by (cases rule: turn_new_cases) (auto simp: turn_settings_parts)
qed

text \<open>C36: Once the flags parse, the server can only fail to start because of the outside world (no
  external address, a listener that cannot be opened, pion's refusal): the configuration
  \<open>main\<close> builds always passes the validation of \<open>turn.New\<close> and of \<open>signaling.New\<close>,
  and with TURN disabled it starts in any environment.  A range that does not parse stops the
  start even with TURN disabled.\<close>

theorem start_fails_only_outside:
  assumes fresh: "fresh_ids p" and start: "action_start env gen active c p = (r, p')"
  shows "(case r of
      Inr s \<Rightarrow> (sv_turnSrv s = None \<longleftrightarrow> ctx_String c ''turn-listen-addr'' = [])
        \<and> (sv_signaling s = None \<longleftrightarrow> \<not> ctx_Bool c ''signaling'')
        \<and> (sv_metricsSrv s = None \<longleftrightarrow> ctx_String c ''metrics-addr'' = [])
    | Inl (BadFlags e) \<Rightarrow> parsePortRange (ctx_String c ''turn-relay-port-range'') = Inl e
        \<and> pr_open p' = pr_open p
    | Inl (CannotStart e) \<Rightarrow> ctx_String c ''turn-listen-addr'' \<noteq> []
        \<and> (\<exists>m. e \<in> {TurnFailed (NoExternalIP m), TurnFailed (UDPListener m),
                      TurnFailed (TCPListener m), TurnFailed (PionServer m)}))
    \<and> (\<forall>e. parsePortRange (ctx_String c ''turn-relay-port-range'') = Inl e \<longrightarrow> r = Inl (BadFlags e))"
proof (cases "main_config gen c")
  case (Inl e)
  then have "parsePortRange (ctx_String c ''turn-relay-port-range'') = Inl e"
    by (auto simp: main_config_def Let_def split: sum.splits)
  then show ?thesis using start Inl by (auto simp: action_start_def)
next
  case (Inr cfg)
  note parts = main_config_parts [OF Inr]
  obtain lo hi where range: "parsePortRange (ctx_String c ''turn-relay-port-range'') = Inr (lo, hi)"
    and turn: "hs_TURN cfg = (if ctx_String c ''turn-listen-addr'' \<noteq> [] then Some (turn_settings gen c lo hi) else None)"
    using parts(4) by blast
  have metrics: "hs_MetricsAddr cfg = ctx_String c ''metrics-addr''"
    using Inr by (auto simp: main_config_def Let_def split: sum.splits prod.splits if_splits)
  obtain rs p1 where new: "server_new env cfg active p = (rs, p1)" by fastforce
  note comps = server_new_parts [OF fresh new]
  show ?thesis
  proof (cases rs)
    case (Inr s)
    then have "r = Inr s" using start \<open>main_config gen c = Inr cfg\<close> new by (simp add: action_start_def)
    moreover have "(sv_turnSrv s = None \<longleftrightarrow> hs_TURN cfg = None) \<and> (sv_signaling s = None \<longleftrightarrow> hs_Signaling cfg = None)
        \<and> (sv_metricsSrv s = None \<longleftrightarrow> hs_MetricsAddr cfg = [])"
      using comps Inr by simp
    ultimately show ?thesis using turn parts(3) metrics range by simp
  next
    case (Inl e)
    then have r: "r = Inl (CannotStart e)" using start Inr new by (auto simp: action_start_def)
    show ?thesis
    proof (cases e)
      case (SignalingFailed h)
      then have "\<exists>sc. hs_Signaling cfg = Some sc \<and> cfg_TurnSecret sc \<noteq> []" using comps Inl by simp
      then show ?thesis using parts(3) by (auto simp: signaling_settings_def split: if_splits)
    next
      case (TurnFailed t)
      then obtain tc where tc: "hs_TURN cfg = Some tc" "turn_new env tc p = (Inl t, p1)"
        using comps Inl by auto
      then have addr: "ctx_String c ''turn-listen-addr'' \<noteq> []" and tcd: "tc = turn_settings gen c lo hi"
        using turn by (auto split: if_splits)
      have "\<exists>m. t \<in> {NoExternalIP m, UDPListener m, TCPListener m, PionServer m}"
        using main_turn_error [OF fresh addr range] tc(2) unfolding tcd by blast
      then show ?thesis using r TurnFailed addr range by auto
    qed
  qed
qed

text \<open>A drain of 30 seconds or more gets no answer: the handler sleeps past the write timeout
  \<open>main\<close> sets, so the client of the default configuration (45 seconds) sees its connection
  closed instead of the 200 the handler means to send.\<close>

theorem long_drain_gets_no_answer:
  assumes cfg: "main_config gen c = Inr cfg"
    and n: "0 \<le> ctx_Int64 c ''drain-seconds''" "ctx_Int64 c ''drain-seconds'' \<le> 9223372036"
  shows "delivered (hs_WriteTimeout cfg) (fst (handleDrain (health_new (hs_DrainDuration cfg)))) =
    (if ctx_Int64 c ''drain-seconds'' < 30 then Some (200, []) else None)"
proof -
  note p = main_config_parts(1,2) [OF cfg]
  have "hs_DrainDuration cfg = ctx_Int64 c ''drain-seconds'' * 1000000000"
    using seconds_exact [OF n] p(2) by simp
  then show ?thesis using n
    by (auto simp: p(1) handleDrain_def health_new_def reply_def delivered_def Let_def)
qed

lemma default_range: "parsePortRange ''49152-49352'' = Inr (49152, 49352)"
proof -
  have n: "itoa_nat 49152 = ''49152''" "itoa_nat 49352 = ''49352''"
    by (simp_all add: itoa_nat.simps digit_def chr_of_def char_of_def bit_Suc_0_iff)
  have a: "atoi ''49152'' = Inr 49152" "atoi ''49352'' = Inr 49352"
    using atoi_itoa_nat [of 49152] atoi_itoa_nat [of 49352] by (simp_all add: n)
  have t: "trim_space ''49152'' = ''49152''" "trim_space ''49352'' = ''49352''"
    using trim_space_itoa [of 49152] trim_space_itoa [of 49352] by (simp_all add: n)
  show ?thesis by (simp add: parsePortRange_def split_n2_def a t)
qed

lemma default_values:
  "ctx_String default_context ''turn-relay-port-range'' = ''49152-49352''"
  "ctx_String default_context ''turn-listen-addr'' = '':3478''"
  "ctx_Int64 default_context ''drain-seconds'' = 45"
  "ctx_Bool default_context ''signaling''"
  by (simp_all add: ctx_String_def ctx_Int64_def ctx_Bool_def default_context_def flags_def)

lemma default_main_config: "\<exists>cfg. main_config gen default_context = Inr cfg"
  by (simp add: main_config_def default_values default_range Let_def)

theorem long_drain_gets_no_answer_witness:
  "\<exists>cfg. main_config longTermKey default_context = Inr cfg
    \<and> delivered (hs_WriteTimeout cfg) (fst (handleDrain (health_new (hs_DrainDuration cfg)))) = None"
proof -
  obtain cfg where c: "main_config longTermKey default_context = Inr cfg" using default_main_config by blast
  from long_drain_gets_no_answer [OF c] c show ?thesis by (simp add: default_values)
qed

definition no_turn_context :: flag_context where
  "no_turn_context = default_context(''turn-listen-addr'' \<mapsto> FStr [])"

theorem start_fails_only_outside_witness:
  "\<exists>s p'. action_start sample_env longTermKey 0 no_turn_context empty_process = (Inr s, p')
    \<and> sv_turnSrv s = None \<and> sv_signaling s \<noteq> None \<and> sv_metricsSrv s \<noteq> None"
proof -
  have c: "ctx_String no_turn_context ''turn-listen-addr'' = []" "ctx_Bool no_turn_context ''signaling''"
    "ctx_String no_turn_context ''turn-relay-port-range'' = ''49152-49352''"
    "ctx_String no_turn_context ''metrics-addr'' = ''127.0.0.1:8090''"
    by (simp_all add: no_turn_context_def ctx_String_def ctx_Bool_def default_context_def flags_def)
  obtain cfg where cfg: "main_config longTermKey no_turn_context = Inr cfg"
    by (simp add: main_config_def c default_range Let_def)
  have "hs_TURN cfg = None" "hs_Signaling cfg = Some (signaling_settings no_turn_context)"
    using main_config_parts(3,4) [OF cfg] c by auto
  then have "\<exists>s p1. server_new sample_env cfg 0 empty_process = (Inr s, p1)"
    by (simp add: server_new_def new_turn_def new_signaling_def hub_new_def signaling_settings_def Let_def)
  then obtain s p1 where n: "action_start sample_env longTermKey 0 no_turn_context empty_process = (Inr s, p1)"
    using cfg by (auto simp: action_start_def)
  from start_fails_only_outside [OF fresh_empty n] n show ?thesis by (simp add: c)
qed

end
