(* ===== verification/Spec2Isabelle.thy ===== *)
theory Spec2Isabelle
  imports ProtocolProps RelayRace HubClose WireTypes Delivery HubLocks StunConnsProps Main_Server
begin

text \<open>
  A verification development for the jokertc server: a WebRTC signaling endpoint with an
  embedded STUN/TURN server behind one HTTP process.  This theory imports all others; it holds
  this overview and the property that spans signaling, TURN and the entry point.

  \<^bold>\<open>The program.\<close>  \<open>cmd/server/main.go\<close> turns flags into a configuration and
  \<open>server/server.go\<close> assembles the components from it: a health check with drain controls
  (\<open>healthcheck/\<close>), metrics (\<open>metrics/\<close>), the signaling hub (\<open>signaling/\<close>) and
  the TURN server (\<open>turn/\<close>).  A client's socket (\<open>conn.go\<close>) joins the hub
  (\<open>hub.go\<close>), which pairs a device with a phone per session id, hands both the STUN and TURN
  settings and relays their frames byte for byte.  The TURN side wraps the UDP socket pion reads:
  a log of STUN Binding traffic, a filter that drops it, and an open-relay mode that rewrites
  MESSAGE-INTEGRITY.

  \<^bold>\<open>Theories and code.\<close>

  \<^item> \<open>Prelude\<close>: bytes, bounds-checked slices, big-endian integers, log lines; the contracts
    the components interpret: \<open>invariant_system\<close> (state machines),
    \<open>working_system\<close> (labelled steps whose own part uses up a weight: bounded work, rest),
    \<open>one_shot\<close> (\<open>sync.Once\<close>), \<open>bounded_queue\<close> (buffered channels),
    \<open>finite_table\<close> (maps).
  \<^item> \<open>Gostrings\<close>, \<open>Goconv\<close>, \<open>Json\<close>, \<open>Jsoncodec\<close>, \<open>Netip\<close>,
    \<open>Crypto\<close>: what the program uses of Go's standard library, written out and executable:
    UTF-8 and case mapping, number conversion, \<open>encoding/json\<close>, \<open>net.ParseIP\<close>, MD5,
    SHA-1 and HMAC.  \<open>unicode.ToLower\<close> beyond ASCII is a table parameter.
  \<^item> \<open>Protocol\<close>, \<open>ProtocolProps\<close>: \<open>signaling/protocol.go\<close>; the round trips of
    every message and a full account of \<open>frameType\<close>.
  \<^item> \<open>Hub\<close>, \<open>HubInv\<close>, \<open>HubProps\<close>, \<open>HubLife\<close>: \<open>signaling/hub.go\<close>
    with \<open>config.go\<close>, \<open>credentials.go\<close>, \<open>metrics.go\<close>.  The registry is a record
    of tables, each operation is the mutation under the lock and the frames it queues.  The
    invariant, the refinement of an abstract pairing table, and what each operation sends.
  \<^item> \<open>Relay\<close>, \<open>RelayInv\<close>, \<open>RelayProps\<close>, \<open>RelayRace\<close>: the hub under
    concurrency, every lock section and every send a step of its own, all goroutines interleaved;
    the invariant in every schedule, the sequential operations as schedules, and one schedule
    that goes wrong.
  \<^item> \<open>HubLocks\<close>: the methods of the hub statement by statement, every lock and unlock
    written out; the lock discipline, and that any interleaving of calls is equivalent to
    indivisible ones in the order of the mutex, which is what \<open>Hub\<close> and \<open>Relay\<close> build on.
  \<^item> \<open>Conn\<close>, \<open>ConnProps\<close>: \<open>signaling/conn.go\<close> and \<open>routes.go\<close>: the reader,
    the writer loop with pings and the close, the upgrade check.
  \<^item> \<open>Delivery\<close>: what a reader relays while no other goroutine acts, against a
    filter over what its socket reads return; \<open>Relay\<close> has the interleavings.
  \<^item> \<open>ConnLife\<close>: the goroutines of one connection together (\<open>handleConn\<close>): the
    handler, the writer it starts and waits for, the hook on the hub's context, the shared context
    and socket.  That it unwinds whatever ends it, what it has done by then, and the one place
    where a client can hold it.
  \<^item> \<open>HubClose\<close>: \<open>Hub.Close\<close> with any number of such connections, the wait group
    and the registry: it completes, and when its wait returns the registry is already empty.
  \<^item> \<open>WireTypes\<close>: the frames and close reasons in every schedule are well typed: JSON
    with a type tag, UTF-8, short enough.
  \<^item> \<open>Stun\<close>, \<open>StunProps\<close>: \<open>turn/stun.go\<close>; no input makes the reader panic
    (a panic is \<open>None\<close>), and the mapped address is read back.
  \<^item> \<open>Anyauth\<close>, \<open>AnyauthProps\<close>: \<open>turn/auth.go\<close> and \<open>turn/anyauth.go\<close>;
    the rewritten message passes the integrity check.
  \<^item> \<open>StunConns\<close>, \<open>StunConnsProps\<close>: \<open>turn/stunlog.go\<close>,
    \<open>turn/stunfilter.go\<close> and the reading half of \<open>anyauth.go\<close>.  Each layer maps a
    \<open>packet_source\<close> to a \<open>packet_source\<close>, so the stack is one by composition.
  \<^item> \<open>TurnServer\<close>, \<open>TurnProps\<close>: \<open>turn/turn.go\<close> and \<open>turn/events.go\<close>.  The
    open sockets of the process are state, so what \<open>New\<close> opens, \<open>Close\<close> closes and a
    failure leaves open are theorems.
  \<^item> \<open>Health\<close>: \<open>healthcheck/\<close>, \<open>api/\<close>, \<open>metrics/\<close>, \<open>common/\<close>.
  \<^item> \<open>Server\<close>, \<open>Lifecycle\<close>: \<open>server/server.go\<close>; the assembly and its error
    returns, the routes, and every interleaving of the component goroutines, the error channel,
    the signal and \<open>Shutdown\<close>.
  \<^item> \<open>Main_Server\<close>: \<open>cmd/server/main.go\<close> and \<open>cmd/cli/main.go\<close>; flags, the
    port range, the configuration, the start.

  \<^bold>\<open>Errors, panics, waiting.\<close>  A Go error is a value of an error datatype in a sum, a
  panic is \<open>None\<close>.  A read that waits for ever is \<open>None\<close> too; the filter's loop, which
  may wait for ever, is a \<open>partial_function\<close>, and when it returns is a theorem.

  \<^bold>\<open>Bounds and fuel.\<close>  Counters and gauges that the code keeps in 64 bits are 64-bit words,
  ports and STUN fields 16-bit words, durations integers (the product with \<open>time.Second\<close> in
  \<open>main\<close> is taken in 64 bits).  The JSON parser runs on fuel, and
  \<open>Jsoncodec\<close> shows that any amount above twice the length of the input, which is what the
  callers give it, is enough; every other recursion
  terminates by its own measure.  The goroutines of a connection make at most 17 steps of their own
  and one for each frame the hub sends (\<open>live_weight\<close>).

  \<^bold>\<open>Parameters.\<close>  pion (\<open>NewServer\<close>, \<open>Close\<close>, \<open>GenerateAuthKey\<close>), the
  network (\<open>Listen\<close>, \<open>ListenPacket\<close>, \<open>InterfaceAddrs\<close>), the websocket library,
  urfave/cli, uuid and the random bytes are arguments; where a theorem relies on them the documented
  behaviour is a hypothesis or a guard of a step: a read or write of the websocket library fails
  once its context is done or its connection is closed, and its closes return; pion's \<open>Close\<close> closes the sockets it was handed, its key is
  MD5 of user, realm and password.

  \<^bold>\<open>Not modelled.\<close>  The inside of third-party code (pion's allocations and relaying, chi's
  matching, the metrics text format, httplog's output), TLS and TCP below \<open>net/http\<close>, the
  two embedded HTML test pages, the shell, Docker and make files, and real time: timers fire and
  deadlines (\<open>joinTimeout\<close>, \<open>PingTimeout\<close>, \<open>closeGrace\<close>) pass as steps that are
  always possible, except in \<open>Health\<close>, where a handler's sleep is compared with the
  write deadline.
\<close>

section \<open>Across the components\<close>

text \<open>The token of a session that a join creates.\<close>

lemma joined_session_token:
  assumes inv: "hub_inv base (w_hub w)" and ok: "join_check m = None"
    and first: "tbl_get (hb_sessions (w_hub w)) (to_lower (je_utable env) (jm_Session m)) = None"
  obtains s where "tbl_get (hb_sessions (w_hub (snd (hub_join env m addr w))))
      (to_lower (je_utable env) (jm_Session m)) = Some s" "s_turnToken s = newTurnToken (je_rand env)"
proof -
  obtain p h0 where np: "new_peer env m addr (w_hub w) = (p, h0)" by force
  note n = new_peer_inv [OF inv np] and nf = new_peer_frame [OF np]
  obtain s where "tbl_get (hb_sessions (fst (join_locked env p m h0))) (p_sessionID (hb_peers h0 p)) = Some s"
    and "tbl_get (hb_sessions h0) (p_sessionID (hb_peers h0 p)) = None \<longrightarrow> s_turnToken s = newTurnToken (je_rand env)"
  proof (rule join_frames [OF n(1), of env p m], goal_cases)
    case (1 s)
    show ?case by (rule 1(1) [OF 1(2)]) (rule impI, rule 1(7))
  qed
  then show thesis using that [of s] first nf(2,7) hub_join_eq [OF ok np] by simp
qed

lemma auth_handler_ready:
  assumes "fresh_ids p" "turn_new net (turn_settings gen c lo hi) p = (Inr srv, p')"
  shows "pc_AuthHandler (ts_srv srv) = auth_handler (AllowAllAuth gen)"
  using assms
proof (cases rule: turn_new_cases)
  case (ready auth ip udp tcp w1)
  then show ?thesis by (simp add: server_config_def turn_settings_parts)
qed simp_all

lemma default_turn_starts:
  "\<exists>srv p'. turn_new sample_env (turn_settings longTermKey default_context 49152 49352) empty_process = (Inr srv, p')"
proof -
  let ?tc = "turn_settings longTermKey default_context 49152 49352"
  have l: "tc_ListenUDPAddr ?tc = '':3478''" "tc_ListenTCPAddr ?tc = '':3478''" by (simp_all add: turn_settings_parts default_values)
  have ext: "externalIP sample_env = Inr [10, 0, 0, 7]"
    by (simp add: externalIP_def sample_env_def is_loopback_def to4_def)
  obtain u w1 where "listen_udp sample_env ?tc empty_process = (Inr u, w1)"
    by (simp add: listen_udp_def sample_env_def l open_socket_def Let_def)
  moreover obtain t w2 where "listen_tcp sample_env ?tc w1 = (Inr t, w2)"
    by (simp add: listen_tcp_def sample_env_def l open_socket_def Let_def)
  moreover have "ne_newServer sample_env = (\<lambda>_. None)" by (simp add: sample_env_def)
  moreover obtain ip where "relay_ip sample_env ?tc = Inr ip"
    using ext by (cases "parse_ip (tc_ExternalIP ?tc)") (auto simp: relay_ip_def)
  ultimately show ?thesis
    using l by (simp add: turn_new_def turn_settings_parts Let_def)
qed

text \<open>C40: The TURN credential the signaling endpoint issues works on the TURN server \<open>main\<close>
  configures: when a join creates a session and a TURN URL is set, the user name and password
  handed to both sides make the authentication handler accept and derive exactly the key that a
  client holding this password signs its requests with.\<close>

theorem issued_credential_is_accepted:
  assumes inv: "hub_inv base (w_hub w)" and ok: "join_check m = None"
    and first: "tbl_get (hb_sessions (w_hub w)) (to_lower (je_utable env) (jm_Session m)) = None"
    and url: "cfg_TurnURL (hb_cfg (w_hub w)) \<noteq> []" and rand: "length (je_rand env) = 16"
    and gen: "\<And>user rlm password. gen user rlm password = longTermKey user rlm password"
    and fresh: "fresh_ids p" and turn: "turn_new net (turn_settings gen c lo hi) p = (Inr srv, p')"
  shows "\<exists>s cred. tbl_get (hb_sessions (w_hub (snd (hub_join env m addr w))))
        (to_lower (je_utable env) (jm_Session m)) = Some s
    \<and> credentialFor (hb_cfg (w_hub w)) s = Some cred \<and> length (tc_User cred) = 32
    \<and> pc_AuthHandler (ts_srv srv) (str_bytes (tc_User cred)) (pc_Realm (ts_srv srv)) =
        (str_bytes (tc_User cred),
         Some (longTermKey (str_bytes (tc_User cred)) (pc_Realm (ts_srv srv)) (str_bytes (tc_Pass cred))))"
proof -
  obtain s where s: "tbl_get (hb_sessions (w_hub (snd (hub_join env m addr w))))
      (to_lower (je_utable env) (jm_Session m)) = Some s" "s_turnToken s = newTurnToken (je_rand env)"
    by (rule joined_session_token [OF inv ok first])
  let ?cred = "\<lparr>tc_URL = cfg_TurnURL (hb_cfg (w_hub w)), tc_User = s_turnToken s, tc_Pass = s_turnToken s\<rparr>"
  have "length (s_turnToken s) = 32" using rand by (simp add: s(2) newTurnToken_def)
  moreover have "str_bytes (s_turnToken s) \<noteq> []" using calculation by (auto simp: str_bytes_def)
  moreover have "credentialFor (hb_cfg (w_hub w)) s = Some ?cred" using url by (simp add: credentialFor_def)
  ultimately show ?thesis
    using s(1) by (intro exI [of _ s] exI [of _ ?cred])
      (simp add: auth_handler_ready [OF fresh turn] auth_handler_def AllowAllAuth_def gen)
qed

theorem issued_credential_is_accepted_witness:
  "\<exists>s cred srv p'. turn_new sample_env (turn_settings longTermKey default_context 49152 49352) empty_process = (Inr srv, p')
    \<and> tbl_get (hb_sessions (w_hub demo_world1)) ''s1'' = Some s
    \<and> credentialFor (hb_cfg demo_hub) s = Some cred
    \<and> snd (pc_AuthHandler (ts_srv srv) (str_bytes (tc_User cred)) (pc_Realm (ts_srv srv))) \<noteq> None"
proof -
  have first: "tbl_get (hb_sessions (w_hub demo_world0)) (to_lower (je_utable demo_env) (jm_Session (demo_msg roleDevice))) = None"
    by (simp add: demo_world0_def demo_hub_def)
  have url: "cfg_TurnURL (hb_cfg (w_hub demo_world0)) \<noteq> []"
    by (simp add: demo_world0_def demo_hub_def demo_config_def)
  have rand: "length (je_rand demo_env) = 16" by (simp add: demo_env_def)
  let ?tc = "turn_settings longTermKey default_context 49152 49352"
  obtain srv p' where t: "turn_new sample_env ?tc empty_process = (Inr srv, p')"
    using default_turn_starts by blast
  obtain s cred where "tbl_get (hb_sessions (w_hub demo_world1)) ''s1'' = Some s"
    "credentialFor (hb_cfg (w_hub demo_world0)) s = Some cred"
    "pc_AuthHandler (ts_srv srv) (str_bytes (tc_User cred)) (pc_Realm (ts_srv srv)) =
        (str_bytes (tc_User cred),
         Some (longTermKey (str_bytes (tc_User cred)) (pc_Realm (ts_srv srv)) (str_bytes (tc_Pass cred))))"
    using issued_credential_is_accepted [OF demo_inv0 demo_check(1) first url rand refl fresh_empty t, of "''a:1''"]
    unfolding demo_key demo_world1_def [symmetric] by blast
  then show ?thesis using t
    by (intro exI [of _ s] exI [of _ cred] exI [of _ srv] exI [of _ p']) (simp add: demo_world0_def)
qed

end
